(* ===== verification/Prelude.thy ===== *)
theory Prelude
  imports Main "HOL-Library.Word"
begin

text \<open>
  What every component shares: the types of bytes and Python exceptions, Python slices,
  little-endian integers as \<open>struct\<close> and \<open>int.to_bytes\<close> write them, and the two
  interfaces of the library. \<open>codec\<close> and \<open>strict_codec\<close> are the contract of every
  encoder/decoder pair of the program; \<open>state_machine\<close> and its extension
  \<open>absorbing_machine\<close> are the contract of every component that is driven by events.
\<close>

section \<open>Types and hint collections\<close>

named_theorems codec_simps "evaluation of the encoders and decoders on known shapes"

unbundle bit_operations_syntax

type_synonym byte = "8 word"
type_synonym bytes = "byte list"

text \<open>The exceptions the modelled code can raise, by class; \<open>Inl\<close> is a raise.\<close>

datatype py_exn = ValueError | StructError | OverflowError | UnicodeEncodeError | AttributeError

type_synonym 'a result = "py_exn + 'a"

definition is_ok :: "'a result \<Rightarrow> bool" where
  "is_ok r = (case r of Inl _ \<Rightarrow> False | Inr _ \<Rightarrow> True)"

lemma is_ok_simps [simp]: "is_ok (Inr x)" "\<not> is_ok (Inl e)"
  by (simp_all add: is_ok_def)

lemma is_ok_iff: "is_ok r \<longleftrightarrow> (\<exists>x. r = Inr x)"
  by (cases r) simp_all

text \<open>Sequencing: the first raise ends the computation.\<close>

definition rbind :: "'a result \<Rightarrow> ('a \<Rightarrow> 'b result) \<Rightarrow> 'b result" where
  "rbind r f = (case r of Inl e \<Rightarrow> Inl e | Inr x \<Rightarrow> f x)"

lemma rbind_simps [simp]: "rbind (Inl e) f = Inl e" "rbind (Inr x) f = f x"
  by (simp_all add: rbind_def)

lemma rbind_eq_Inr: "rbind r f = Inr y \<longleftrightarrow> (\<exists>x. r = Inr x \<and> f x = Inr y)"
  by (cases r) simp_all

lemma rbind_eq_Inl: "rbind r f = Inl e \<longleftrightarrow> r = Inl e \<or> (\<exists>x. r = Inr x \<and> f x = Inl e)"
  by (cases r) simp_all

section \<open>Python slices\<close>

text \<open>\<open>xs[a:b]\<close> for non-negative bounds: out-of-range bounds are clipped, as in Python.\<close>

definition slice :: "nat \<Rightarrow> nat \<Rightarrow> 'a list \<Rightarrow> 'a list" where
  "slice a b xs = take (b - a) (drop a xs)"

lemma length_slice [simp]: "length (slice a b xs) = min (b - a) (length xs - a)"
  by (simp add: slice_def)

lemma slice_append_right: "length xs = a \<Longrightarrow> slice a (a + n) (xs @ ys) = take n ys"
  by (simp add: slice_def)

lemma slice_zero: "slice 0 n xs = take n xs"
  by (simp add: slice_def)

lemma slice_step: "slice a (a + n) xs @ drop (a + n) xs = drop a xs"
  by (metis add.commute append_take_drop_id add_diff_cancel_left' drop_drop slice_def)

section \<open>Little-endian integers\<close>

fun le_bytes :: "nat \<Rightarrow> int \<Rightarrow> bytes" where
  "le_bytes 0 x = []"
| "le_bytes (Suc n) x = word_of_int x # le_bytes n (x div 256)"

fun le_int :: "bytes \<Rightarrow> int" where
  "le_int [] = 0"
| "le_int (b # bs) = uint b + 256 * le_int bs"

lemma length_le_bytes [simp]: "length (le_bytes n x) = n"
  by (induction n arbitrary: x) simp_all

lemma le_int_nonneg [simp]: "0 \<le> le_int bs"
  by (induction bs) simp_all

lemma uint_byte_less [simp]: "uint (b :: byte) < 256"
  using uint_lt2p [of b] by simp

lemma le_int_less: "le_int bs < 256 ^ length bs"
proof (induction bs)
  case Nil
  then show ?case by simp
next
  case (Cons b bs)
  have "uint b < 256" by simp
  moreover have "le_int bs + 1 \<le> 256 ^ length bs" using Cons.IH by simp
  ultimately have "uint b + 256 * le_int bs < 256 * 256 ^ length bs" by linarith
  then show ?case by simp
qed

lemma le_int_le_bytes: "0 \<le> x \<Longrightarrow> x < 256 ^ n \<Longrightarrow> le_int (le_bytes n x) = x"
proof (induction n arbitrary: x)
  case 0
  then show ?case by simp
next
  case (Suc n)
  have "x div 256 < 256 ^ n" using Suc.prems by (simp add: div_less_iff_less_mult)
  then have "le_int (le_bytes n (x div 256)) = x div 256" using Suc by simp
  then show ?case by (simp add: uint_word_of_int)
qed

lemma le_bytes_le_int: "length bs = n \<Longrightarrow> le_bytes n (le_int bs) = bs"
proof (induction bs arbitrary: n)
  case Nil
  then show ?case by simp
next
  case (Cons b bs)
  have "(uint b + 256 * le_int bs) div 256 = le_int bs" by simp
  moreover have "(word_of_int (uint b + 256 * le_int bs) :: byte) = b"
  proof -
    have "uint (word_of_int (uint b + 256 * le_int bs) :: byte) = (uint b + 256 * le_int bs) mod 256"
      by (simp only: uint_word_of_int) simp
    also have "\<dots> = uint b" by simp
    finally show ?thesis by (rule word_uint_eqI)
  qed
  ultimately show ?case using Cons by auto
qed

section \<open>The contract of an encoder and its decoder\<close>

text \<open>
  \<open>encodes x b\<close>: serialising \<open>x\<close> returns \<open>b\<close>; \<open>decodes b x\<close>: parsing \<open>b\<close> returns
  \<open>x\<close>. Both are relations because the program's serialisers can raise and its parsers can
  reject. \<open>ok x\<close> are the values the encoder is meant for.
\<close>

locale codec =
  fixes encodes :: "'a \<Rightarrow> 'b \<Rightarrow> bool"
    and decodes :: "'b \<Rightarrow> 'a \<Rightarrow> bool"
    and ok :: "'a \<Rightarrow> bool"
  assumes encodes_total: "ok x \<Longrightarrow> \<exists>b. encodes x b"
    and decodes_encodes: "ok x \<Longrightarrow> encodes x b \<Longrightarrow> decodes b x"
    and decodes_unique: "decodes b x \<Longrightarrow> decodes b y \<Longrightarrow> x = y"
begin

lemma encodes_inject: "ok x \<Longrightarrow> ok y \<Longrightarrow> encodes x b \<Longrightarrow> encodes y b \<Longrightarrow> x = y"
  by (blast intro: decodes_encodes decodes_unique)

lemma round_trip: "ok x \<Longrightarrow> \<exists>b. encodes x b \<and> decodes b x"
  using encodes_total decodes_encodes by blast

end

text \<open>A strict decoder accepts nothing but what the encoder produces.\<close>

locale strict_codec = codec +
  assumes encodes_decodes: "decodes b x \<Longrightarrow> ok x \<and> encodes x b"
    and encodes_unique: "encodes x b \<Longrightarrow> encodes x c \<Longrightarrow> b = c"
begin

lemma decodes_inject: "decodes b x \<Longrightarrow> decodes c x \<Longrightarrow> b = c"
  using encodes_decodes encodes_unique by blast

lemma decodes_iff: "decodes b x \<longleftrightarrow> ok x \<and> encodes x b"
  using encodes_decodes decodes_encodes by blast

end

text \<open>Fixed-width unsigned fields are the first strict codec.\<close>

definition in_range :: "nat \<Rightarrow> int \<Rightarrow> bool" where
  "in_range n x \<longleftrightarrow> 0 \<le> x \<and> x < 256 ^ n"

lemma le_int_le_bytes_range [simp]: "in_range n x \<Longrightarrow> le_int (le_bytes n x) = x"
  by (simp add: in_range_def le_int_le_bytes)

lemma in_range_le_int [simp]: "length bs = n \<Longrightarrow> in_range n (le_int bs)"
  using le_int_less [of bs] by (simp add: in_range_def)

interpretation le: strict_codec
  "\<lambda>x b. in_range n x \<and> b = le_bytes n x"
  "\<lambda>b x. length b = n \<and> x = le_int b"
  "in_range n"
  for n
  by unfold_locales (auto simp: le_bytes_le_int)

section \<open>The contract of a receive queue\<close>

text \<open>
  A first-in-first-out queue: \<open>put\<close> appends, \<open>poll\<close> takes the head and returns \<open>None\<close> on
  an empty queue. \<open>drain poll n\<close> is the loop \<open>while (x := poll()) is not None\<close>, cut off
  after \<open>n\<close> rounds; \<open>drain_all\<close> says that one round more than the queue holds is enough.
\<close>

fun drain :: "('q \<Rightarrow> 'a option \<times> 'q) \<Rightarrow> nat \<Rightarrow> 'q \<Rightarrow> 'a list \<times> 'q" where
  "drain poll 0 q = ([], q)"
| "drain poll (Suc n) q =
     (case poll q of
        (None, q') \<Rightarrow> ([], q')
      | (Some x, q') \<Rightarrow> (let (xs, q'') = drain poll n q' in (x # xs, q'')))"

locale fifo =
  fixes put :: "'a \<Rightarrow> 'q \<Rightarrow> 'q"
    and poll :: "'q \<Rightarrow> 'a option \<times> 'q"
    and contents :: "'q \<Rightarrow> 'a list"
  assumes contents_put: "contents (put x q) = contents q @ [x]"
    and poll_empty: "contents q = [] \<Longrightarrow> poll q = (None, q)"
    and poll_head: "contents q = x # xs \<Longrightarrow> \<exists>q'. poll q = (Some x, q') \<and> contents q' = xs"
begin

lemma contents_puts: "contents (foldl (\<lambda>q x. put x q) q xs) = contents q @ xs"
  by (induction xs arbitrary: q) (simp_all add: contents_put)

lemma drain_all:
  "length (contents q) < n \<Longrightarrow> \<exists>q'. drain poll n q = (contents q, q') \<and> contents q' = []"
proof (induction n arbitrary: q)
  case 0
  then show ?case by simp
next
  case (Suc n)
  show ?case
  proof (cases "contents q")
    case Nil
    then show ?thesis by (simp add: poll_empty)
  next
    case (Cons x xs)
    with poll_head obtain q1 where q1: "poll q = (Some x, q1)" "contents q1 = xs" by blast
    with Suc Cons obtain q2 where "drain poll n q1 = (xs, q2)" "contents q2 = []" by fastforce
    with q1 Cons show ?thesis by simp
  qed
qed

end

section \<open>Runs with outputs\<close>

text \<open>A component whose steps also return something: the outputs of a run, in order.\<close>

fun run_out :: "('s \<Rightarrow> 'e \<Rightarrow> 'o list \<times> 's) \<Rightarrow> 's \<Rightarrow> 'e list \<Rightarrow> 'o list \<times> 's" where
  "run_out step s [] = ([], s)"
| "run_out step s (e # es) =
     (let (os, s1) = step s e; (os', s2) = run_out step s1 es in (os @ os', s2))"

lemma run_out_append:
  "run_out step s (es @ fs) =
     (let (os, s1) = run_out step s es; (os', s2) = run_out step s1 fs in (os @ os', s2))"
  by (induction es arbitrary: s) (simp_all add: split_beta Let_def)

lemma run_out_state: "snd (run_out step s es) = foldl (\<lambda>s e. snd (step s e)) s es"
  by (induction es arbitrary: s) (simp_all add: split_beta Let_def)

lemma run_out_inv:
  "P s \<Longrightarrow> (\<And>s e. P s \<Longrightarrow> P (snd (step s e))) \<Longrightarrow> P (snd (run_out step s es))"
  by (induction es arbitrary: s) (simp_all add: split_beta Let_def)

text \<open>What holds of every output of a step from a good state holds of every output of a run.\<close>

lemma run_out_all:
  assumes "\<And>s e. P s \<Longrightarrow> P (snd (step s e)) \<and> list_all Q (fst (step s e))"
  shows "P s \<Longrightarrow> P (snd (run_out step s es)) \<and> list_all Q (fst (run_out step s es))"
  using assms by (induction es arbitrary: s) (auto simp: split_beta Let_def)

text \<open>A field that no step changes.\<close>

lemma run_out_same:
  "(\<And>s e. f (snd (step s e)) = f s) \<Longrightarrow> f (snd (run_out step s es)) = f s"
  by (induction es arbitrary: s) (simp_all add: split_beta Let_def)

text \<open>
  A relation between a state and the outcome of some steps from it that composes: if every step
  has it, every run has it.
\<close>

locale behaviour =
  fixes R :: "'s \<Rightarrow> 'o list \<times> 's \<Rightarrow> bool"
  assumes still: "R s ([], s)"
    and chain: "R s (os, s1) \<Longrightarrow> R s1 (os', s2) \<Longrightarrow> R s (os @ os', s2)"
begin

lemma run: "(\<And>s e. e \<in> set es \<Longrightarrow> R s (step s e)) \<Longrightarrow> R s (run_out step s es)"
proof (induction es arbitrary: s)
  case (Cons e es)
  obtain os s1 where "step s e = (os, s1)" by (cases "step s e")
  moreover obtain os' s2 where "run_out step s1 es = (os', s2)" by (cases "run_out step s1 es")
  moreover have "R s (step s e)" "R s1 (run_out step s1 es)" using Cons by simp_all
  ultimately show ?case using chain by simp
qed (simp add: still)

end

section \<open>The contract of an event-driven component\<close>

text \<open>
  \<open>step\<close> handles one event, \<open>start\<close> says which states a fresh object can be in, and
  \<open>inv\<close> is kept by every event. The conclusion holds for every sequence of events, so for
  every interleaving of the callbacks and timers that the event loop can produce.
\<close>

locale state_machine =
  fixes step :: "'s \<Rightarrow> 'e \<Rightarrow> 's"
    and start :: "'s \<Rightarrow> bool"
    and inv :: "'s \<Rightarrow> bool"
  assumes inv_start: "start s \<Longrightarrow> inv s"
    and inv_step: "inv s \<Longrightarrow> inv (step s e)"
begin

lemma inv_run: "inv s \<Longrightarrow> inv (foldl step s es)"
  by (induction es arbitrary: s) (simp_all add: inv_step)

lemma inv_reachable: "start s \<Longrightarrow> inv (foldl step s es)"
  by (rule inv_run) (rule inv_start)

end

text \<open>A component with a final phase that no event leaves.\<close>

locale absorbing_machine = state_machine +
  fixes final :: "'a \<Rightarrow> bool"
  assumes final_step: "inv s \<Longrightarrow> final s \<Longrightarrow> final (step s e)"
begin

lemma final_run: "inv s \<Longrightarrow> final s \<Longrightarrow> final (foldl step s es)"
  by (induction es arbitrary: s) (simp_all add: inv_step final_step)

lemma final_later: "start s \<Longrightarrow> final (foldl step s es) \<Longrightarrow> final (foldl step s (es @ fs))"
  by (simp add: inv_reachable final_run)

end

end
