(* ===== verification/PyText.thy ===== *)
theory PyText
  imports Prelude
begin

text \<open>
  The part of Python's \<open>str\<close> and \<open>int\<close> that the program uses. A \<open>str\<close> is its list of
  code points. \<open>py_int\<close> is \<open>int(text, base)\<close> as CPython 3.11 and later computes it: white
  space and one sign are accepted around the digits, single underscores between them, the
  \<open>0x\<close> prefix in base 16, and more than 4300 decimal digits raise \<open>ValueError\<close>
  (\<open>sys.int_info.default_max_str_digits\<close>). The decimal digits outside ASCII depend on the
  Unicode tables of the interpreter, so they are the parameter \<open>udec\<close>.
\<close>

section \<open>Strings as lists of code points\<close>

type_synonym pystr = "nat list"

definition lit :: "string \<Rightarrow> pystr" where
  "lit s = map of_char s"

lemma length_lit [simp]: "length (lit s) = length s"
  by (simp add: lit_def)

lemma lit_Nil [simp]: "lit [] = []"
  by (simp add: lit_def)

definition is_digit09 :: "nat \<Rightarrow> bool" where
  "is_digit09 c \<longleftrightarrow> 48 \<le> c \<and> c \<le> 57"

definition all_digits09 :: "pystr \<Rightarrow> bool" where
  "all_digits09 s \<longleftrightarrow> list_all is_digit09 s"

definition is_ascii :: "pystr \<Rightarrow> bool" where
  "is_ascii s \<longleftrightarrow> list_all (\<lambda>c. c < 128) s"

definition starts_with :: "pystr \<Rightarrow> pystr \<Rightarrow> bool" where
  "starts_with p s \<longleftrightarrow> take (length p) s = p"

fun contains :: "pystr \<Rightarrow> pystr \<Rightarrow> bool" where
  "contains p [] \<longleftrightarrow> p = []"
| "contains p (c # cs) \<longleftrightarrow> starts_with p (c # cs) \<or> contains p cs"

text \<open>\<open>s.find(c, i)\<close>, with \<open>None\<close> for -1.\<close>

fun find_char :: "nat \<Rightarrow> nat \<Rightarrow> pystr \<Rightarrow> nat option" where
  "find_char c i [] = None"
| "find_char c 0 (d # ds) = (if d = c then Some 0 else map_option Suc (find_char c 0 ds))"
| "find_char c (Suc i) (d # ds) = map_option Suc (find_char c i ds)"

lemma find_char_append: "c \<notin> set xs \<Longrightarrow> find_char c 0 (xs @ c # ys) = Some (length xs)"
  by (induction xs) auto

lemma find_char_None: "c \<notin> set xs \<longleftrightarrow> find_char c 0 xs = None"
  by (induction xs) auto

lemma find_char_skip:
  "find_char c (length xs) (xs @ ys) = map_option ((+) (length xs)) (find_char c 0 ys)"
  by (induction xs) (auto simp: option.map_comp o_def option.map_ident)

lemma find_char_Some: "find_char c 0 s = Some i \<longleftrightarrow> i < length s \<and> s ! i = c \<and> c \<notin> set (take i s)"
proof (induction s arbitrary: i)
  case Nil
  then show ?case by simp
next
  case (Cons d ds)
  then show ?case by (cases i) auto
qed

lemma starts_with_append [simp]: "starts_with p (p @ s)"
  by (simp add: starts_with_def)

lemma starts_with_iff: "starts_with p s \<longleftrightarrow> (\<exists>t. s = p @ t)"
  unfolding starts_with_def by (metis append_eq_conv_conj append_take_drop_id)

lemma contains_append: "contains p (s @ p @ t)"
proof (induction s)
  case Nil
  have "starts_with p (p @ t)" by simp
  then show ?case by (cases "p @ t") auto
next
  case (Cons c cs)
  then show ?case by simp
qed

section \<open>Decimal text\<close>

text \<open>\<open>str(n)\<close>.\<close>

fun dec_of_nat :: "nat \<Rightarrow> pystr" where
  "dec_of_nat n = (if n < 10 then [48 + n] else dec_of_nat (n div 10) @ [48 + n mod 10])"

declare dec_of_nat.simps [simp del]

definition str_of_int :: "int \<Rightarrow> pystr" where
  "str_of_int i = (if i < 0 then 45 # dec_of_nat (nat (- i)) else dec_of_nat (nat i))"

definition digits_value :: "nat \<Rightarrow> nat \<Rightarrow> nat list \<Rightarrow> nat" where
  "digits_value b acc ds = foldl (\<lambda>a d. a * b + d) acc ds"

definition dec_value :: "pystr \<Rightarrow> nat" where
  "dec_value s = digits_value 10 0 (map (\<lambda>c. c - 48) s)"

lemma digits_value_simps [simp]:
  "digits_value b acc [] = acc"
  "digits_value b acc (d # ds) = digits_value b (acc * b + d) ds"
  by (simp_all add: digits_value_def)

lemma digits_value_append:
  "digits_value b acc (xs @ ys) = digits_value b (digits_value b acc xs) ys"
  by (simp add: digits_value_def)

lemma dec_of_nat_not_Nil [simp]: "dec_of_nat n \<noteq> []"
  by (subst dec_of_nat.simps) simp

lemma all_digits09_dec_of_nat [simp]: "all_digits09 (dec_of_nat n)"
proof (induction n rule: dec_of_nat.induct)
  case (1 n)
  have "48 + n mod 10 \<le> 57" by simp
  with 1 show ?case
    by (subst dec_of_nat.simps) (auto simp: all_digits09_def is_digit09_def)
qed

lemma dec_value_dec_of_nat [simp]: "dec_value (dec_of_nat n) = n"
proof (induction n rule: dec_of_nat.induct)
  case (1 n)
  then show ?case
    by (subst dec_of_nat.simps) (auto simp: dec_value_def digits_value_append)
qed

lemma dec_of_nat_inject [simp]: "dec_of_nat m = dec_of_nat n \<longleftrightarrow> m = n"
  by (metis dec_value_dec_of_nat)

lemma length_dec_of_nat: "n < 10 ^ k \<Longrightarrow> 0 < k \<Longrightarrow> length (dec_of_nat n) \<le> k"
proof (induction n arbitrary: k rule: dec_of_nat.induct)
  case (1 n)
  show ?case
  proof (cases "n < 10")
    case True
    with "1.prems" show ?thesis by (subst dec_of_nat.simps) simp
  next
    case False
    obtain j where k: "k = Suc j" using "1.prems" by (cases k) auto
    have "0 < j" using False "1.prems" k by (cases j) auto
    moreover have "n div 10 < 10 ^ j" using "1.prems" k by (simp add: div_less_iff_less_mult)
    ultimately have "length (dec_of_nat (n div 10)) \<le> j" using "1.IH" False by blast
    with False k show ?thesis by (subst dec_of_nat.simps) simp
  qed
qed

lemma length_dec_of_u64: "n < 2 ^ 64 \<Longrightarrow> length (dec_of_nat n) \<le> 20"
  by (rule length_dec_of_nat) simp_all

lemma digit_not_space: "all_digits09 s \<Longrightarrow> 32 \<notin> set s"
  by (auto simp: all_digits09_def is_digit09_def list_all_iff)

lemma digits_ascii: "all_digits09 s \<Longrightarrow> is_ascii s"
  by (auto simp: all_digits09_def is_digit09_def is_ascii_def list_all_iff)

section \<open>int(text, base)\<close>

text \<open>\<open>_PyLong_DigitValue\<close>: 37 stands for "no digit of any base".\<close>

definition digit_value :: "nat \<Rightarrow> nat" where
  "digit_value c =
     (if 48 \<le> c \<and> c \<le> 57 then c - 48
      else if 97 \<le> c \<and> c \<le> 122 then c - 87
      else if 65 \<le> c \<and> c \<le> 90 then c - 55
      else 37)"

definition c_space :: "nat \<Rightarrow> bool" where
  "c_space c \<longleftrightarrow> (9 \<le> c \<and> c \<le> 13) \<or> c = 32"

text \<open>\<open>str.isspace\<close> on one character, the set \<open>str.strip()\<close> removes.\<close>

definition uni_space :: "nat \<Rightarrow> bool" where
  "uni_space c \<longleftrightarrow> (9 \<le> c \<and> c \<le> 13) \<or> (28 \<le> c \<and> c \<le> 32) \<or> c = 133 \<or> c = 160 \<or> c = 5760
     \<or> (8192 \<le> c \<and> c \<le> 8202) \<or> c = 8232 \<or> c = 8233 \<or> c = 8239 \<or> c = 8287 \<or> c = 12288"

definition int_max_str_digits :: nat where
  "int_max_str_digits = 4300"

text \<open>
  The digit scan: value so far, digits so far, rest of the text; a doubled or trailing
  underscore is a syntax error.
\<close>

fun scan_digits :: "nat \<Rightarrow> bool \<Rightarrow> nat \<Rightarrow> nat \<Rightarrow> pystr \<Rightarrow> (nat \<times> nat \<times> pystr) option" where
  "scan_digits b us acc n [] = (if us then None else Some (acc, n, []))"
| "scan_digits b us acc n (c # cs) =
     (if c = 95 then (if us then None else scan_digits b True acc n cs)
      else if digit_value c < b then scan_digits b False (acc * b + digit_value c) (Suc n) cs
      else if us then None else Some (acc, n, c # cs))"

definition int_sign :: "pystr \<Rightarrow> int \<times> pystr" where
  "int_sign s =
     (case s of [] \<Rightarrow> (1, s)
      | c # cs \<Rightarrow> if c = 43 then (1, cs) else if c = 45 then (- 1, cs) else (1, s))"

definition int_prefix :: "nat \<Rightarrow> pystr \<Rightarrow> pystr" where
  "int_prefix b s =
     (case s of
        c # d # cs \<Rightarrow>
          if b = 16 \<and> c = 48 \<and> (d = 120 \<or> d = 88)
          then (case cs of [] \<Rightarrow> [] | e # es \<Rightarrow> if e = 95 then es else cs)
          else s
      | _ \<Rightarrow> s)"

definition py_int_ascii :: "nat \<Rightarrow> pystr \<Rightarrow> int result" where
  "py_int_ascii b s =
     (let (sign, s2) = int_sign (dropWhile c_space s); s3 = int_prefix b s2 in
      if s3 \<noteq> [] \<and> hd s3 = 95 then Inl ValueError
      else case scan_digits b False 0 0 s3 of
          None \<Rightarrow> Inl ValueError
        | Some (v, n, rest) \<Rightarrow>
            if n = 0 \<or> (b = 10 \<and> int_max_str_digits < n) \<or> dropWhile c_space rest \<noteq> []
            then Inl ValueError
            else Inr (sign * int v))"

text \<open>\<open>_PyUnicode_TransformDecimalAndSpaceToASCII\<close>; an ASCII string is left as it is.\<close>

definition to_ascii :: "(nat \<Rightarrow> nat option) \<Rightarrow> pystr \<Rightarrow> pystr" where
  "to_ascii udec s =
     (if is_ascii s then s
      else map (\<lambda>c. if c < 127 then c
                    else if uni_space c then 32
                    else case udec c of None \<Rightarrow> 63 | Some d \<Rightarrow> 48 + d) s)"

definition py_int :: "(nat \<Rightarrow> nat option) \<Rightarrow> nat \<Rightarrow> pystr \<Rightarrow> int result" where
  "py_int udec b s = py_int_ascii b (to_ascii udec s)"

lemma scan_digits_all:
  "list_all (\<lambda>c. c \<noteq> 95 \<and> digit_value c < b) s \<Longrightarrow>
   scan_digits b False acc n s = Some (digits_value b acc (map digit_value s), n + length s, [])"
  by (induction s arbitrary: acc n) auto

lemma digit_value_09: "is_digit09 c \<Longrightarrow> digit_value c = c - 48 \<and> c \<noteq> 95 \<and> digit_value c < 10"
  by (auto simp: is_digit09_def digit_value_def)

lemma map_digit_value_09: "all_digits09 s \<Longrightarrow> map digit_value s = map (\<lambda>c. c - 48) s"
  by (induction s) (auto simp: all_digits09_def digit_value_09)

lemma scan_digits_dec:
  assumes "all_digits09 s"
  shows "scan_digits 10 False 0 0 s = Some (dec_value s, length s, [])"
proof -
  have "list_all (\<lambda>c. c \<noteq> 95 \<and> digit_value c < 10) s"
    using assms digit_value_09 unfolding all_digits09_def list_all_iff by blast
  then show ?thesis
    by (simp add: scan_digits_all dec_value_def map_digit_value_09 [OF assms])
qed

lemma digits_plain_head:
  assumes "all_digits09 s" and "s \<noteq> []"
  shows "dropWhile c_space s = s" and "int_sign s = (1, s)" and "hd s \<noteq> 95"
    and "int_prefix 10 s = s"
  using assms
  by (auto simp: neq_Nil_conv all_digits09_def is_digit09_def c_space_def int_sign_def
      int_prefix_def split: list.split)

text \<open>What the program's calls of \<open>int\<close> on checked digit strings compute.\<close>

lemma py_int_ascii_digits:
  assumes "all_digits09 s" and "s \<noteq> []"
  shows "py_int_ascii 10 s =
    (if int_max_str_digits < length s then Inl ValueError else Inr (int (dec_value s)))"
  using assms digits_plain_head [OF assms]
  by (simp add: py_int_ascii_def scan_digits_dec)

lemma py_int_ascii_neg_digits:
  assumes "all_digits09 s" and "s \<noteq> []"
  shows "py_int_ascii 10 (45 # s) =
    (if int_max_str_digits < length s then Inl ValueError else Inr (- int (dec_value s)))"
  using assms digits_plain_head [OF assms]
  by (simp add: py_int_ascii_def scan_digits_dec int_sign_def c_space_def)

lemma py_int_ascii_only: "is_ascii s \<Longrightarrow> py_int udec b s = py_int_ascii b s"
  by (simp add: py_int_def to_ascii_def)

end
