(* ===== verification/Errors.thy ===== *)
theory Errors
  imports PyText
begin

text \<open>
  \<open>errors.py\<close>: the session error codes, the send types, the connection flags and the two
  connection exceptions. \<open>SessionError\<close> is an \<open>IntEnum\<close>, so it is ordered by its code;
  \<open>session_error_of_int\<close> is the call \<open>SessionError(code)\<close>, which raises \<open>ValueError\<close> on
  a number that is no member.
\<close>

section \<open>SessionError\<close>

datatype session_error =
    E_NONE | E_DESTINATION_NOT_LOGGED_IN | E_NEGOTIATION_TIMEOUT | E_WRONG_TRANSPORT_VERSION
  | E_FAILED_TO_CREATE_PEER_CONNECTION | E_ICE | E_CONNECT_REQUEST | E_CONNECT_RESPONSE
  | E_CANDIDATE_ADD | E_INACTIVITY_TIMEOUT | E_FAILED_TO_CREATE_OFFER
  | E_FAILED_TO_CREATE_ANSWER | E_FAILED_TO_SET_LOCAL_DESCRIPTION
  | E_FAILED_TO_SET_REMOTE_DESCRIPTION | E_NEGOTIATION_TIMEOUT_WAITING_FOR_RESPONSE
  | E_NEGOTIATION_TIMEOUT_WAITING_FOR_ACCEPT | E_INCOMING_CONNECTION_IGNORED
  | E_SIGNALING_PARSING_FAILURE | E_SIGNALING_UNKNOWN_ERROR
  | E_SIGNALING_UNICAST_MESSAGE_DELIVERY_FAILED | E_SIGNALING_BROADCAST_DELIVERY_FAILED
  | E_SIGNALING_MESSAGE_DELIVERY_FAILED | E_SIGNALING_TURN_AUTH_FAILED
  | E_SIGNALING_FALLBACK_TO_BEST_EFFORT_DELIVERY | E_NO_SIGNALING_CHANNEL | E_NOT_LOGGED_IN
  | E_SIGNALING_FAILED_TO_SEND | E_RELAY_SERVER_CONFIGURATION_RESULT_FAILURE
  | E_RELAY_SERVER_CONFIG_PARSING_ERROR_NO_URLS
  | E_RELAY_SERVER_CONFIG_PARSING_ERROR_NO_CREDS
  | E_RELAY_SERVER_CONFIG_PARSING_ERROR_NO_SERVERS
  | E_RELAY_SERVER_CONFIG_PARSING_ERROR_NO_EXPIRATION | E_DATA_CHANNEL_CLOSED
  | E_INTERNAL_ERROR_JSON_SERIALIZATION | E_INVALID_ARGUMENT | E_GENERIC_FAILURE
  | E_FAILED_TO_CREATE_IDENTITY_ASSERTION | E_IDENTITY_NOT_ALLOWED

fun error_code :: "session_error \<Rightarrow> int" where
  "error_code E_NONE = 0"
| "error_code E_DESTINATION_NOT_LOGGED_IN = 1"
| "error_code E_NEGOTIATION_TIMEOUT = 2"
| "error_code E_WRONG_TRANSPORT_VERSION = 3"
| "error_code E_FAILED_TO_CREATE_PEER_CONNECTION = 4"
| "error_code E_ICE = 5"
| "error_code E_CONNECT_REQUEST = 6"
| "error_code E_CONNECT_RESPONSE = 7"
| "error_code E_CANDIDATE_ADD = 8"
| "error_code E_INACTIVITY_TIMEOUT = 9"
| "error_code E_FAILED_TO_CREATE_OFFER = 10"
| "error_code E_FAILED_TO_CREATE_ANSWER = 11"
| "error_code E_FAILED_TO_SET_LOCAL_DESCRIPTION = 12"
| "error_code E_FAILED_TO_SET_REMOTE_DESCRIPTION = 13"
| "error_code E_NEGOTIATION_TIMEOUT_WAITING_FOR_RESPONSE = 14"
| "error_code E_NEGOTIATION_TIMEOUT_WAITING_FOR_ACCEPT = 15"
| "error_code E_INCOMING_CONNECTION_IGNORED = 16"
| "error_code E_SIGNALING_PARSING_FAILURE = 17"
| "error_code E_SIGNALING_UNKNOWN_ERROR = 18"
| "error_code E_SIGNALING_UNICAST_MESSAGE_DELIVERY_FAILED = 19"
| "error_code E_SIGNALING_BROADCAST_DELIVERY_FAILED = 20"
| "error_code E_SIGNALING_MESSAGE_DELIVERY_FAILED = 21"
| "error_code E_SIGNALING_TURN_AUTH_FAILED = 22"
| "error_code E_SIGNALING_FALLBACK_TO_BEST_EFFORT_DELIVERY = 23"
| "error_code E_NO_SIGNALING_CHANNEL = 24"
| "error_code E_NOT_LOGGED_IN = 25"
| "error_code E_SIGNALING_FAILED_TO_SEND = 26"
| "error_code E_RELAY_SERVER_CONFIGURATION_RESULT_FAILURE = 27"
| "error_code E_RELAY_SERVER_CONFIG_PARSING_ERROR_NO_URLS = 28"
| "error_code E_RELAY_SERVER_CONFIG_PARSING_ERROR_NO_CREDS = 29"
| "error_code E_RELAY_SERVER_CONFIG_PARSING_ERROR_NO_SERVERS = 30"
| "error_code E_RELAY_SERVER_CONFIG_PARSING_ERROR_NO_EXPIRATION = 31"
| "error_code E_DATA_CHANNEL_CLOSED = 32"
| "error_code E_INTERNAL_ERROR_JSON_SERIALIZATION = 33"
| "error_code E_INVALID_ARGUMENT = 34"
| "error_code E_GENERIC_FAILURE = 35"
| "error_code E_FAILED_TO_CREATE_IDENTITY_ASSERTION = 36"
| "error_code E_IDENTITY_NOT_ALLOWED = 37"

definition all_session_errors :: "session_error list" where
  "all_session_errors =
    [E_NONE, E_DESTINATION_NOT_LOGGED_IN, E_NEGOTIATION_TIMEOUT, E_WRONG_TRANSPORT_VERSION,
     E_FAILED_TO_CREATE_PEER_CONNECTION, E_ICE, E_CONNECT_REQUEST, E_CONNECT_RESPONSE,
     E_CANDIDATE_ADD, E_INACTIVITY_TIMEOUT, E_FAILED_TO_CREATE_OFFER,
     E_FAILED_TO_CREATE_ANSWER, E_FAILED_TO_SET_LOCAL_DESCRIPTION,
     E_FAILED_TO_SET_REMOTE_DESCRIPTION, E_NEGOTIATION_TIMEOUT_WAITING_FOR_RESPONSE,
     E_NEGOTIATION_TIMEOUT_WAITING_FOR_ACCEPT, E_INCOMING_CONNECTION_IGNORED,
     E_SIGNALING_PARSING_FAILURE, E_SIGNALING_UNKNOWN_ERROR,
     E_SIGNALING_UNICAST_MESSAGE_DELIVERY_FAILED, E_SIGNALING_BROADCAST_DELIVERY_FAILED,
     E_SIGNALING_MESSAGE_DELIVERY_FAILED, E_SIGNALING_TURN_AUTH_FAILED,
     E_SIGNALING_FALLBACK_TO_BEST_EFFORT_DELIVERY, E_NO_SIGNALING_CHANNEL, E_NOT_LOGGED_IN,
     E_SIGNALING_FAILED_TO_SEND, E_RELAY_SERVER_CONFIGURATION_RESULT_FAILURE,
     E_RELAY_SERVER_CONFIG_PARSING_ERROR_NO_URLS,
     E_RELAY_SERVER_CONFIG_PARSING_ERROR_NO_CREDS,
     E_RELAY_SERVER_CONFIG_PARSING_ERROR_NO_SERVERS,
     E_RELAY_SERVER_CONFIG_PARSING_ERROR_NO_EXPIRATION, E_DATA_CHANNEL_CLOSED,
     E_INTERNAL_ERROR_JSON_SERIALIZATION, E_INVALID_ARGUMENT, E_GENERIC_FAILURE,
     E_FAILED_TO_CREATE_IDENTITY_ASSERTION, E_IDENTITY_NOT_ALLOWED]"

definition session_error_of_int :: "int \<Rightarrow> session_error result" where
  "session_error_of_int n =
     (case List.find (\<lambda>e. error_code e = n) all_session_errors of
        None \<Rightarrow> Inl ValueError | Some e \<Rightarrow> Inr e)"

lemma all_session_errors_complete: "e \<in> set all_session_errors"
  by (cases e) (simp_all add: all_session_errors_def)

lemma error_codes: "map error_code all_session_errors = [0..37]"
  by (simp add: all_session_errors_def upto.simps)

lemma error_code_range: "0 \<le> error_code e \<and> error_code e \<le> 37"
  by (cases e) simp_all

lemma error_code_inject [simp]: "error_code d = error_code e \<longleftrightarrow> d = e"
proof
  have "distinct (map error_code all_session_errors)"
    by (simp add: error_codes)
  then show "error_code d = error_code e \<Longrightarrow> d = e"
    using all_session_errors_complete by (auto simp: distinct_map dest: inj_onD)
qed simp

lemma session_error_of_code [simp]: "session_error_of_int (error_code e) = Inr e"
  by (cases e) (simp_all add: session_error_of_int_def all_session_errors_def)

lemma session_error_of_int_Inr: "session_error_of_int n = Inr e \<longleftrightarrow> n = error_code e"
proof
  assume "session_error_of_int n = Inr e"
  then show "n = error_code e"
    by (auto simp: session_error_of_int_def find_Some_iff split: option.splits)
qed simp

text \<open>The members are exactly the codes 0 to 37.\<close>

lemma session_error_of_int_range: "is_ok (session_error_of_int n) \<longleftrightarrow> 0 \<le> n \<and> n \<le> 37"
proof -
  have "is_ok (session_error_of_int n) \<longleftrightarrow> (\<exists>e. n = error_code e)"
    by (simp add: is_ok_iff session_error_of_int_Inr)
  also have "\<dots> \<longleftrightarrow> n \<in> set (map error_code all_session_errors)"
    using all_session_errors_complete by auto
  also have "\<dots> \<longleftrightarrow> 0 \<le> n \<and> n \<le> 37"
    by (simp add: error_codes del: set_map)
  finally show ?thesis .
qed

instantiation session_error :: linorder
begin

definition less_eq_session_error :: "session_error \<Rightarrow> session_error \<Rightarrow> bool" where
  "less_eq_session_error d e \<longleftrightarrow> error_code d \<le> error_code e"

definition less_session_error :: "session_error \<Rightarrow> session_error \<Rightarrow> bool" where
  "less_session_error d e \<longleftrightarrow> error_code d < error_code e"

instance
  by standard (auto simp: less_eq_session_error_def less_session_error_def)

end

section \<open>SendType and ConnectionFlags\<close>

datatype send_type = Unreliable | Reliable

fun send_type_code :: "send_type \<Rightarrow> int" where
  "send_type_code Unreliable = 0"
| "send_type_code Reliable = 1"

datatype connection_flag =
    RelayOnly | NoTcpCandidates | NoLocalCandidates | NoServerReflexiveCandidates
  | NoPeerReflexiveCandidates | NoRelayCandidates

fun flag_value :: "connection_flag \<Rightarrow> int" where
  "flag_value RelayOnly = 1"
| "flag_value NoTcpCandidates = 2"
| "flag_value NoLocalCandidates = 4"
| "flag_value NoServerReflexiveCandidates = 8"
| "flag_value NoPeerReflexiveCandidates = 16"
| "flag_value NoRelayCandidates = 32"

lemma flag_value_disjoint: "f \<noteq> g \<Longrightarrow> flag_value f AND flag_value g = 0"
  by (cases f; cases g) simp_all

section \<open>Properties\<close>

text \<open>
  \<open>SessionError(n)\<close> gives a member exactly for the codes 0 to 37, and then the member with
  that code, so the enumeration and the wire codes determine each other.
\<close>

theorem session_error_codes:
  "(session_error_of_int n = Inr e \<longleftrightarrow> n = error_code e) \<and>
   (is_ok (session_error_of_int n) \<longleftrightarrow> 0 \<le> n \<and> n \<le> 37)"
  by (simp only: session_error_of_int_Inr session_error_of_int_range)

end
