(* ===== verification/NetworkId.thy ===== *)
theory NetworkId
  imports PyText
begin

text \<open>
  \<open>network_id.py\<close>: the peer identity. A \<open>NetworkID\<close> is a P2P \<open>u64\<close>, a Realms UUID or
  unset; \<open>parse_network_id\<close> is \<open>NetworkID.parse\<close>, \<open>str_network_id\<close> is \<open>__str__\<close>.
  The UUID parser and printer are those of Python's \<open>uuid\<close> module, which the code calls:
  a \<open>uuid.UUID\<close> is its 128-bit integer.
\<close>

section \<open>Hexadecimal text\<close>

definition hex_char :: "nat \<Rightarrow> nat" where
  "hex_char d = (if d < 10 then 48 + d else 87 + d)"

text \<open>\<open>width\<close> lower-case hexadecimal digits, as \<open>%032x\<close> and \<open>:04x\<close> print a value that fits.\<close>

fun fmt_hex :: "nat \<Rightarrow> nat \<Rightarrow> pystr" where
  "fmt_hex 0 n = []"
| "fmt_hex (Suc w) n = fmt_hex w (n div 16) @ [hex_char (n mod 16)]"

lemma length_fmt_hex [simp]: "length (fmt_hex w n) = w"
  by (induction w arbitrary: n) simp_all

lemma digit_value_hex_char: "d < 16 \<Longrightarrow> digit_value (hex_char d) = d"
  by (auto simp: digit_value_def hex_char_def)

lemma fmt_hex_chars: "c \<in> set (fmt_hex w n) \<Longrightarrow> is_digit09 c \<or> (97 \<le> c \<and> c \<le> 102)"
proof (induction w arbitrary: n)
  case (Suc w)
  have "n mod 16 < 16" by simp
  with Suc show ?case by (auto simp: hex_char_def is_digit09_def split: if_splits)
qed simp

lemma fmt_hex_value: "n < 16 ^ w \<Longrightarrow> digits_value 16 0 (map digit_value (fmt_hex w n)) = n"
proof (induction w arbitrary: n)
  case (Suc w)
  then have "n div 16 < 16 ^ w" by (simp add: div_less_iff_less_mult)
  with Suc.IH show ?case by (simp add: digits_value_append digit_value_hex_char)
qed simp

section \<open>uuid.UUID\<close>

type_synonym uuid = "128 word"

text \<open>\<open>text.replace(pat, '')\<close> for a non-empty \<open>pat\<close>.\<close>

fun replace_empty :: "pystr \<Rightarrow> pystr \<Rightarrow> pystr" where
  "replace_empty pat [] = []"
| "replace_empty pat (c # cs) =
     (if starts_with pat (c # cs) then replace_empty pat (drop (length pat - 1) cs)
      else c # replace_empty pat cs)"

definition strip_braces :: "pystr \<Rightarrow> pystr" where
  "strip_braces s =
     rev (dropWhile (\<lambda>c. c = 123 \<or> c = 125) (rev (dropWhile (\<lambda>c. c = 123 \<or> c = 125) s)))"

text \<open>The constructor \<open>UUID(text)\<close>.\<close>

definition uuid_parse :: "(nat \<Rightarrow> nat option) \<Rightarrow> pystr \<Rightarrow> uuid result" where
  "uuid_parse udec text =
     (let hex = filter (\<lambda>c. c \<noteq> 45)
                  (strip_braces (replace_empty (lit ''uuid:'') (replace_empty (lit ''urn:'') text))) in
      if length hex \<noteq> 32 then Inl ValueError
      else case py_int udec 16 hex of
          Inl e \<Rightarrow> Inl e
        | Inr i \<Rightarrow> if 0 \<le> i \<and> i < 2 ^ 128 then Inr (word_of_int i) else Inl ValueError)"

definition str_uuid :: "uuid \<Rightarrow> pystr" where
  "str_uuid u =
     (let hex = fmt_hex 32 (unat u) in
      slice 0 8 hex @ [45] @ slice 8 12 hex @ [45] @ slice 12 16 hex @ [45] @ slice 16 20 hex
      @ [45] @ drop 20 hex)"

section \<open>NetworkID\<close>

datatype network_id_type = UNSET | P2P | REALMS

record network_id =
  nid_type :: network_id_type
  nid_value :: int
  nid_uuid :: "uuid option"

definition U64_MAX :: int where "U64_MAX = 0xFFFFFFFFFFFFFFFF"

definition mk_p2p :: "int \<Rightarrow> network_id" where
  "mk_p2p value = \<lparr>nid_type = P2P, nid_value = value, nid_uuid = None\<rparr>"

definition p2p :: "int \<Rightarrow> network_id result" where
  "p2p value = (if \<not> (0 \<le> value \<and> value \<le> U64_MAX) then Inl ValueError else Inr (mk_p2p value))"

definition realms :: "uuid \<Rightarrow> network_id" where
  "realms u = \<lparr>nid_type = REALMS, nid_value = 0, nid_uuid = Some u\<rparr>"

definition unset :: network_id where
  "unset = \<lparr>nid_type = UNSET, nid_value = 0, nid_uuid = None\<rparr>"

text \<open>
  \<open>NetworkID.parse\<close>. The call of \<open>int\<close> stands outside the \<open>try\<close>, so what it raises
  leaves the function; what \<open>UUID\<close> raises is caught.
\<close>

definition parse_as_uuid :: "(nat \<Rightarrow> nat option) \<Rightarrow> pystr \<Rightarrow> network_id result" where
  "parse_as_uuid udec text =
     (case uuid_parse udec text of Inr u \<Rightarrow> Inr (realms u) | Inl _ \<Rightarrow> Inr unset)"

definition parse_network_id :: "(nat \<Rightarrow> nat option) \<Rightarrow> pystr \<Rightarrow> network_id result" where
  "parse_network_id udec text =
     (if text \<noteq> [] \<and> all_digits09 text
      then case py_int udec 10 text of
          Inl e \<Rightarrow> Inl e
        | Inr value \<Rightarrow> if value \<le> U64_MAX then p2p value else parse_as_uuid udec text
      else parse_as_uuid udec text)"

definition is_valid :: "network_id \<Rightarrow> bool" where
  "is_valid nid \<longleftrightarrow> nid_type nid \<noteq> UNSET"

definition none_text :: pystr where "none_text = lit ''None''"

definition str_network_id :: "network_id \<Rightarrow> pystr" where
  "str_network_id nid =
     (case nid_type nid of
        P2P \<Rightarrow> str_of_int (nid_value nid)
      | REALMS \<Rightarrow> (case nid_uuid nid of None \<Rightarrow> none_text | Some u \<Rightarrow> str_uuid u)
      | UNSET \<Rightarrow> [])"

definition correlation_id :: "network_id \<Rightarrow> pystr result" where
  "correlation_id nid =
     (if nid_type nid \<noteq> P2P then Inl ValueError
      else let words = map (\<lambda>shift. drop_bit shift (nid_value nid) AND 0xFFFF) [48, 32, 16, 0];
               texts = map (\<lambda>w. fmt_hex 4 (nat w)) words in
        Inr (lit ''<nethernet>'' @ texts ! 0 @ [45] @ texts ! 1 @ [45] @ texts ! 2 @ [45] @ texts ! 3))"

text \<open>\<open>secrets.randbits(64)\<close>: any 64 random bits, read as an integer.\<close>

definition new_connection_id :: "64 word \<Rightarrow> int" where
  "new_connection_id bits = uint bits"

section \<open>Round trips\<close>

lemma replace_empty_absent: "p \<notin> set s \<Longrightarrow> replace_empty (p # ps) s = s"
  by (induction s) (auto simp: starts_with_def)

lemma strip_braces_absent:
  assumes "123 \<notin> set s" and "125 \<notin> set s"
  shows "strip_braces s = s"
proof -
  have id: "dropWhile (\<lambda>c. c = 123 \<or> c = 125) t = t" if "123 \<notin> set t" "125 \<notin> set t" for t :: pystr
    using that by (intro dropWhile_id) metis
  have "dropWhile (\<lambda>c. c = 123 \<or> c = 125) (rev s) = rev s"
    using assms by (intro id) simp_all
  then show ?thesis using id [OF assms] by (simp only: strip_braces_def rev_rev_ident)
qed

lemma str_uuid_chars: "c \<in> set (str_uuid u) \<Longrightarrow> is_digit09 c \<or> (97 \<le> c \<and> c \<le> 102) \<or> c = 45"
  using fmt_hex_chars [of c 32 "unat u"]
  by (auto simp: str_uuid_def slice_def Let_def dest: in_set_takeD in_set_dropD)

lemma filter_dash_fmt_hex: "c \<in> set (fmt_hex w n) \<Longrightarrow> c \<noteq> 45"
  using fmt_hex_chars [of c w n] by (auto simp: is_digit09_def)

lemma str_uuid_hex: "filter (\<lambda>c. c \<noteq> 45) (str_uuid u) = fmt_hex 32 (unat u)"
proof -
  let ?h = "fmt_hex 32 (unat u)"
  have no_dash: "filter (\<lambda>c. c \<noteq> 45) xs = xs" if "set xs \<subseteq> set ?h" for xs
    using that filter_dash_fmt_hex by (intro filter_True) blast
  have sub: "set (slice a b ?h) \<subseteq> set ?h" "set (drop a ?h) \<subseteq> set ?h" for a b
    by (auto simp: slice_def dest: in_set_takeD in_set_dropD)
  have "filter (\<lambda>c. c \<noteq> 45) (str_uuid u) =
      slice 0 8 ?h @ slice 8 12 ?h @ slice 12 16 ?h @ slice 16 20 ?h @ drop 20 ?h"
    by (simp add: str_uuid_def Let_def no_dash sub)
  also have "\<dots> = drop 0 ?h"
    using slice_step [of 0 8 ?h] slice_step [of 8 4 ?h] slice_step [of 12 4 ?h] slice_step [of 16 4 ?h]
    by simp
  finally show ?thesis by simp
qed

lemma py_int_hex:
  assumes "n < 16 ^ w" and "0 < w"
  shows "py_int udec 16 (fmt_hex w n) = Inr (int n)"
proof -
  let ?h = "fmt_hex w n"
  have chars: "c \<in> set ?h \<Longrightarrow> is_digit09 c \<or> (97 \<le> c \<and> c \<le> 102)" for c by (rule fmt_hex_chars)
  then have range: "c \<in> set ?h \<Longrightarrow> 48 \<le> c \<and> c \<le> 102 \<and> c \<noteq> 95 \<and> c \<noteq> 88" for c
    by (fastforce simp: is_digit09_def)
  have ascii: "is_ascii ?h" using range by (fastforce simp: is_ascii_def list_all_iff)
  have "list_all (\<lambda>c. c \<noteq> 95 \<and> digit_value c < 16) ?h"
    using chars by (fastforce simp: list_all_iff is_digit09_def digit_value_def)
  then have scan: "scan_digits 16 False 0 0 ?h = Some (n, w, [])"
    by (simp add: scan_digits_all fmt_hex_value [OF assms(1)])
  have ne: "?h \<noteq> []" using assms(2) by (metis length_fmt_hex length_0_conv not_less0)
  have range': "\<forall>c \<in> set ?h. 48 \<le> c \<and> c \<le> 102 \<and> c \<noteq> 95 \<and> c \<noteq> 88" using range by blast
  have h48: "48 \<le> hd ?h" and h95: "hd ?h \<noteq> 95" using range [OF hd_in_set [OF ne]] by blast+
  have "\<not> c_space (hd ?h)" using h48 by (auto simp: c_space_def)
  then have plain: "dropWhile c_space ?h = ?h" "int_sign ?h = (1, ?h)" "int_prefix 16 ?h = ?h"
    using range' by (auto simp: dropWhile_eq_self_iff int_sign_def int_prefix_def split: list.split)
  show ?thesis
    using h95 ne scan assms(2) by (simp add: py_int_ascii_only [OF ascii] py_int_ascii_def plain)
qed

lemma uuid_parse_str: "uuid_parse udec (str_uuid u) = Inr u"
proof -
  let ?s = "str_uuid u"
  have none: "117 \<notin> set ?s" "123 \<notin> set ?s" "125 \<notin> set ?s"
    using str_uuid_chars by (fastforce simp: is_digit09_def)+
  have "replace_empty (lit ''uuid:'') (replace_empty (lit ''urn:'') ?s) = ?s"
    using none(1) by (simp add: lit_def replace_empty_absent)
  then have hex: "filter (\<lambda>c. c \<noteq> 45)
      (strip_braces (replace_empty (lit ''uuid:'') (replace_empty (lit ''urn:'') ?s))) = fmt_hex 32 (unat u)"
    using none(2,3) by (simp add: strip_braces_absent str_uuid_hex)
  have "unat u < 16 ^ 32" using unsigned_less [of u, where ?'a = nat] by simp
  then have int: "py_int udec 16 (fmt_hex 32 (unat u)) = Inr (uint u)"
    by (simp add: py_int_hex)
  have range: "uint u < 2 ^ 128" using uint_lt2p [of u] by simp
  show ?thesis
    unfolding uuid_parse_def hex by (simp only: Let_def length_fmt_hex int sum.case range) simp
qed

text \<open>The identities the program can hold: what the three constructors build.\<close>

definition wf_network_id :: "network_id \<Rightarrow> bool" where
  "wf_network_id nid \<longleftrightarrow>
     (case nid_type nid of
        P2P \<Rightarrow> 0 \<le> nid_value nid \<and> nid_value nid \<le> U64_MAX \<and> nid_uuid nid = None
      | REALMS \<Rightarrow> nid_value nid = 0 \<and> nid_uuid nid \<noteq> None
      | UNSET \<Rightarrow> nid_value nid = 0 \<and> nid_uuid nid = None)"

lemma wf_network_id_cases:
  assumes "wf_network_id nid"
  obtains v where "nid = mk_p2p v" "0 \<le> v" "v \<le> U64_MAX" | u where "nid = realms u" | "nid = unset"
  using assms
  by (cases nid)
    (auto simp: wf_network_id_def mk_p2p_def realms_def unset_def split: network_id_type.splits)

lemma wf_constructors:
  "0 \<le> v \<Longrightarrow> v \<le> U64_MAX \<Longrightarrow> wf_network_id (mk_p2p v)"
  "wf_network_id (realms u)" "wf_network_id unset"
  by (simp_all add: wf_network_id_def mk_p2p_def realms_def unset_def)

lemma parse_str_p2p:
  assumes "0 \<le> v" and "v \<le> U64_MAX"
  shows "parse_network_id udec (str_of_int v) = Inr (mk_p2p v)"
proof -
  let ?s = "dec_of_nat (nat v)"
  have "nat v < 2 ^ 64" using assms by (simp add: U64_MAX_def nat_less_iff)
  then have "length ?s \<le> 20" by (rule length_dec_of_u64)
  then have "py_int udec 10 ?s = Inr v"
    using assms by (simp add: py_int_ascii_only digits_ascii py_int_ascii_digits int_max_str_digits_def)
  with assms show ?thesis by (simp add: parse_network_id_def str_of_int_def p2p_def)
qed

lemma parse_str_realms: "parse_network_id udec (str_uuid u) = Inr (realms u)"
proof -
  have "45 \<in> set (str_uuid u)" by (simp add: str_uuid_def Let_def)
  then have "\<not> all_digits09 (str_uuid u)"
    by (force simp: all_digits09_def list_all_iff is_digit09_def)
  then show ?thesis by (simp add: parse_network_id_def parse_as_uuid_def uuid_parse_str)
qed

lemma parse_str_unset: "parse_network_id udec [] = Inr unset"
  by (simp add: parse_network_id_def parse_as_uuid_def uuid_parse_def strip_braces_def)

lemma parse_str_network_id:
  "wf_network_id nid \<Longrightarrow> parse_network_id udec (str_network_id nid) = Inr nid"
  by (erule wf_network_id_cases)
    (simp_all add: str_network_id_def mk_p2p_def realms_def unset_def
      parse_str_p2p [unfolded mk_p2p_def] parse_str_realms [unfolded realms_def]
      parse_str_unset [unfolded unset_def])

lemma parse_network_id_wf: "parse_network_id udec s = Inr nid \<Longrightarrow> wf_network_id nid"
  by (auto simp: parse_network_id_def parse_as_uuid_def p2p_def wf_constructors
      split: if_splits sum.splits)

interpretation network_id_text: codec
  "\<lambda>nid s. str_network_id nid = s" "\<lambda>s nid. parse_network_id udec s = Inr nid" wf_network_id
  for udec
  by unfold_locales (auto simp: parse_str_network_id)

section \<open>Properties\<close>

text \<open>
  Printing an identity and parsing the text gives the identity back, for every identity
  the constructors build (a \<open>u64\<close>, a UUID, or unset).
\<close>

theorem network_id_round_trip:
  assumes "wf_network_id nid"
  shows "parse_network_id udec (str_network_id nid) = Inr nid"
proof -
  from network_id_text.round_trip [OF assms, of udec] show ?thesis by auto
qed

theorem network_id_round_trip_witness:
  "parse_network_id (\<lambda>_. None) (str_network_id (realms 42)) = Inr (realms 42)"
  by (rule network_id_round_trip) (simp add: wf_network_id_def realms_def)

text \<open>
  \<open>NetworkID.parse\<close> is meant to return an identity for every text, the unset one if the text is none.
  It raises exactly on decimal texts of more than 4300 digits, where Python's \<open>int\<close> refuses
  the conversion; on every other text it returns a well-formed identity.
\<close>

theorem network_id_parse_raises:
  "(parse_network_id udec s = Inl e \<longleftrightarrow>
      e = ValueError \<and> all_digits09 s \<and> int_max_str_digits < length s) \<and>
   (case parse_network_id udec s of Inl _ \<Rightarrow> True | Inr nid \<Rightarrow> wf_network_id nid)"
proof
  have ascii: "all_digits09 s \<Longrightarrow> py_int udec 10 s = py_int_ascii 10 s"
    by (simp add: py_int_ascii_only digits_ascii)
  show "parse_network_id udec s = Inl e \<longleftrightarrow>
      e = ValueError \<and> all_digits09 s \<and> int_max_str_digits < length s"
    using ascii by (cases "s = []")
      (auto simp: parse_network_id_def parse_as_uuid_def p2p_def py_int_ascii_digits U64_MAX_def
        int_max_str_digits_def split: sum.splits if_splits)
  show "case parse_network_id udec s of Inl _ \<Rightarrow> True | Inr nid \<Rightarrow> wf_network_id nid"
    by (auto split: sum.splits dest: parse_network_id_wf)
qed

end
