(* ===== verification/Messages.thy ===== *)
theory Messages
  imports Errors NetworkId
begin

text \<open>
  \<open>signaling/messages.py\<close>: the four signaling messages, their serialisation and their
  parser. A message is \<open>IDENTIFIER connectionId data\<close>; only the first two spaces split.
  The error of a \<open>CONNECTERROR\<close> is a \<open>SessionError\<close> when its code is a member and the
  bare number otherwise. \<open>parse_signaling\<close> returns \<open>Inr None\<close> where the code returns \<open>None\<close> and
  \<open>Inl ValueError\<close> where a call of \<open>int\<close> raises.
\<close>

section \<open>Messages and their text\<close>

datatype wire_error = Known session_error | Unknown int

fun wire_error_int :: "wire_error \<Rightarrow> int" where
  "wire_error_int (Known e) = error_code e"
| "wire_error_int (Unknown n) = n"

datatype signaling_message =
    ConnectRequest (connection_id: int) (sdp: pystr)
  | ConnectResponse (connection_id: int) (sdp: pystr)
  | CandidateAdd (connection_id: int) (candidate: pystr)
  | ConnectError (connection_id: int) (error: wire_error)

definition id_request :: pystr where "id_request = lit ''CONNECTREQUEST''"
definition id_response :: pystr where "id_response = lit ''CONNECTRESPONSE''"
definition id_candidate :: pystr where "id_candidate = lit ''CANDIDATEADD''"
definition id_error :: pystr where "id_error = lit ''CONNECTERROR''"

lemmas identifier_defs = id_request_def id_response_def id_candidate_def id_error_def

fun msg_identifier :: "signaling_message \<Rightarrow> pystr" where
  "msg_identifier (ConnectRequest _ _) = id_request"
| "msg_identifier (ConnectResponse _ _) = id_response"
| "msg_identifier (CandidateAdd _ _) = id_candidate"
| "msg_identifier (ConnectError _ _) = id_error"

fun message_data :: "signaling_message \<Rightarrow> pystr" where
  "message_data (ConnectRequest _ s) = s"
| "message_data (ConnectResponse _ s) = s"
| "message_data (CandidateAdd _ c) = c"
| "message_data (ConnectError _ e) = str_of_int (wire_error_int e)"

definition serialize_signaling :: "signaling_message \<Rightarrow> pystr" where
  "serialize_signaling m = msg_identifier m @ 32 # str_of_int (connection_id m) @ 32 # message_data m"

section \<open>The parser\<close>

definition parse_u64 :: "pystr \<Rightarrow> int option result" where
  "parse_u64 token =
     (if token = [] \<or> \<not> is_ascii token \<or> \<not> all_digits09 token then Inr None
      else case py_int_ascii 10 token of
          Inl e \<Rightarrow> Inl e
        | Inr value \<Rightarrow> Inr (if value \<le> U64_MAX then Some value else None))"

definition parse_int :: "pystr \<Rightarrow> int option result" where
  "parse_int token =
     (let body = (if take 1 token = [45] then drop 1 token else token) in
      if body = [] \<or> \<not> all_digits09 body then Inr None
      else case py_int_ascii 10 token of Inl e \<Rightarrow> Inl e | Inr n \<Rightarrow> Inr (Some n))"

definition tokenize :: "pystr \<Rightarrow> (pystr \<times> pystr \<times> pystr) option" where
  "tokenize message =
     (case find_char 32 0 message of
        None \<Rightarrow> None
      | Some first \<Rightarrow>
          (case find_char 32 (first + 1) message of
             None \<Rightarrow> None
           | Some second \<Rightarrow>
               Some (take first message, slice (first + 1) second message, drop (second + 1) message)))"

datatype message_class = CRequest | CResponse | CCandidate | CError

definition by_identifier :: "pystr \<Rightarrow> message_class option" where
  "by_identifier = map_of
     [(id_request, CRequest), (id_response, CResponse), (id_candidate, CCandidate),
      (id_error, CError)]"

text \<open>The last lines of \<open>parse_signaling\<close>: build the message of the class.\<close>

definition build_message :: "message_class \<Rightarrow> int \<Rightarrow> pystr \<Rightarrow> signaling_message option result" where
  "build_message cls cid data =
     (case cls of
        CError \<Rightarrow>
          (case parse_int data of
             Inl e \<Rightarrow> Inl e
           | Inr None \<Rightarrow> Inr None
           | Inr (Some n) \<Rightarrow>
               Inr (Some (ConnectError cid
                 (case session_error_of_int n of Inl _ \<Rightarrow> Unknown n | Inr e \<Rightarrow> Known e))))
      | CRequest \<Rightarrow> Inr (Some (ConnectRequest cid data))
      | CResponse \<Rightarrow> Inr (Some (ConnectResponse cid data))
      | CCandidate \<Rightarrow> Inr (Some (CandidateAdd cid data)))"

definition parse_signaling :: "pystr \<Rightarrow> signaling_message option result" where
  "parse_signaling message =
     (case tokenize message of
        None \<Rightarrow> Inr None
      | Some (ident, connection_token, data) \<Rightarrow>
          (case by_identifier ident of
             None \<Rightarrow> Inr None
           | Some cls \<Rightarrow>
               (case parse_u64 connection_token of
                  Inl e \<Rightarrow> Inl e
                | Inr None \<Rightarrow> Inr None
                | Inr (Some cid) \<Rightarrow> build_message cls cid data)))"

section \<open>Tokens\<close>

lemma identifiers_no_space: "32 \<notin> set (msg_identifier m)"
  by (cases m) (simp_all add: identifier_defs lit_def)

lemma str_of_int_no_space: "32 \<notin> set (str_of_int i)"
  using all_digits09_dec_of_nat digit_not_space by (auto simp: str_of_int_def)

lemma tokenize_three:
  assumes "32 \<notin> set a" and "32 \<notin> set b"
  shows "tokenize (a @ 32 # b @ 32 # c) = Some (a, b, c)"
proof -
  have first: "find_char 32 0 (a @ 32 # b @ 32 # c) = Some (length a)"
    using assms(1) by (rule find_char_append)
  have "find_char 32 (length (a @ [32])) ((a @ [32]) @ b @ 32 # c) = Some (length a + 1 + length b)"
    using assms(2) unfolding find_char_skip by (simp add: find_char_append)
  then have second: "find_char 32 (Suc (length a)) (a @ 32 # b @ 32 # c) = Some (Suc (length a + length b))"
    by simp
  show ?thesis
    by (simp add: tokenize_def first second slice_def Suc_diff_le)
qed

lemma tokenize_shape:
  assumes "tokenize s = Some (a, b, c)"
  shows "s = a @ 32 # b @ 32 # c \<and> 32 \<notin> set a \<and> 32 \<notin> set b"
proof -
  from assms obtain i j where i: "find_char 32 0 s = Some i" and j: "find_char 32 (i + 1) s = Some j"
    and abc: "a = take i s" "b = slice (i + 1) j s" "c = drop (j + 1) s"
    by (auto simp: tokenize_def split: option.splits)
  from i have si: "i < length s" "s ! i = 32" "32 \<notin> set (take i s)" by (auto simp: find_char_Some)
  define t where "t = drop (i + 1) s"
  have s: "s = take (i + 1) s @ t" and len: "length (take (i + 1) s) = i + 1"
    using si by (simp_all add: t_def)
  from j have "map_option ((+) (i + 1)) (find_char 32 0 t) = Some j"
    by (metis s len find_char_skip)
  then obtain k where k: "find_char 32 0 t = Some k" and jk: "j = i + 1 + k" by auto
  from k have tk: "k < length t" "t ! k = 32" "32 \<notin> set (take k t)" by (auto simp: find_char_Some)
  have "t = take k t @ 32 # drop (k + 1) t" using tk id_take_nth_drop by fastforce
  moreover have "s = take i s @ 32 # t" using si id_take_nth_drop t_def by fastforce
  moreover have "b = take k t" and "c = drop (k + 1) t"
    by (simp_all add: abc jk slice_def t_def add.commute)
  ultimately show ?thesis using abc si tk by metis
qed

lemma by_identifier_simps [codec_simps]:
  "by_identifier id_request = Some CRequest" "by_identifier id_response = Some CResponse"
  "by_identifier id_candidate = Some CCandidate" "by_identifier id_error = Some CError"
  by (simp_all add: by_identifier_def identifier_defs lit_def)

fun class_identifier :: "message_class \<Rightarrow> pystr" where
  "class_identifier CRequest = id_request"
| "class_identifier CResponse = id_response"
| "class_identifier CCandidate = id_candidate"
| "class_identifier CError = id_error"

lemma by_identifier_Some: "by_identifier i = Some c \<longleftrightarrow> i = class_identifier c"
  by (cases c) (auto simp: codec_simps, auto simp: by_identifier_def split: if_splits)

section \<open>Numbers\<close>

lemma parse_u64_Some:
  "parse_u64 t = Inr (Some n) \<longleftrightarrow>
   t \<noteq> [] \<and> all_digits09 t \<and> length t \<le> int_max_str_digits \<and> n = int (dec_value t) \<and> n \<le> U64_MAX"
  by (auto simp: parse_u64_def digits_ascii py_int_ascii_digits)

lemma parse_u64_raises:
  "parse_u64 t = Inl e \<longleftrightarrow> e = ValueError \<and> all_digits09 t \<and> int_max_str_digits < length t"
  by (auto simp: parse_u64_def digits_ascii py_int_ascii_digits int_max_str_digits_def)

lemma parse_u64_str_of_int:
  assumes "0 \<le> n" and "n \<le> U64_MAX"
  shows "parse_u64 (str_of_int n) = Inr (Some n)"
proof -
  have "nat n < 2 ^ 64" using assms by (simp add: U64_MAX_def nat_less_iff)
  then have "length (dec_of_nat (nat n)) \<le> 20" by (rule length_dec_of_u64)
  with assms show ?thesis by (simp add: parse_u64_Some str_of_int_def int_max_str_digits_def)
qed

definition digit_count :: "int \<Rightarrow> nat" where
  "digit_count n = length (dec_of_nat (nat \<bar>n\<bar>))"

lemma head_not_minus: "all_digits09 s \<Longrightarrow> take 1 s \<noteq> [45]"
  by (cases s) (auto simp: all_digits09_def is_digit09_def)

lemma parse_int_unsigned:
  "all_digits09 s \<Longrightarrow> s \<noteq> [] \<Longrightarrow> parse_int s =
    (if int_max_str_digits < length s then Inl ValueError else Inr (Some (int (dec_value s))))"
  using head_not_minus [of s] by (simp add: parse_int_def py_int_ascii_digits)

lemma parse_int_signed:
  "all_digits09 s \<Longrightarrow> s \<noteq> [] \<Longrightarrow> parse_int (45 # s) =
    (if int_max_str_digits < length s then Inl ValueError else Inr (Some (- int (dec_value s))))"
  by (simp add: parse_int_def py_int_ascii_neg_digits)

lemma parse_int_str_of_int:
  "digit_count n \<le> int_max_str_digits \<Longrightarrow> parse_int (str_of_int n) = Inr (Some n)"
  by (cases "n < 0") (simp_all add: str_of_int_def digit_count_def parse_int_unsigned parse_int_signed)

lemma parse_int_cases:
  assumes "parse_int s = Inr (Some n)"
  obtains "all_digits09 s" "s \<noteq> []" "length s \<le> int_max_str_digits" "n = int (dec_value s)"
  | t where "s = 45 # t" "all_digits09 t" "t \<noteq> []" "length t \<le> int_max_str_digits"
      "n = - int (dec_value t)"
proof (cases "take 1 s = [45]")
  case True
  then obtain t where s: "s = 45 # t" by (cases s) auto
  with assms have "all_digits09 t" "t \<noteq> []" by (auto simp: parse_int_def split: if_splits)
  with assms s that(2) show ?thesis by (auto simp: parse_int_signed split: if_splits)
next
  case False
  with assms have "all_digits09 s" "s \<noteq> []" by (auto simp: parse_int_def Let_def split: if_splits)
  with assms that(1) show ?thesis by (auto simp: parse_int_unsigned split: if_splits)
qed

lemma digits_value_less: "all_digits09 s \<Longrightarrow> dec_value s < 10 ^ length s"
proof (induction s rule: rev_induct)
  case Nil
  then show ?case by (simp add: dec_value_def)
next
  case (snoc c s)
  from snoc.prems have c: "c - 48 < 10" and s: "all_digits09 s"
    by (auto simp: all_digits09_def is_digit09_def)
  from snoc.IH [OF s] c have "dec_value s * 10 + (c - 48) < 10 ^ length s * 10" by linarith
  then show ?case by (simp add: dec_value_def digits_value_append mult.commute)
qed

lemma parse_int_digit_count: "parse_int s = Inr (Some n) \<Longrightarrow> digit_count n \<le> int_max_str_digits"
proof (erule parse_int_cases)
  show "all_digits09 s \<Longrightarrow> s \<noteq> [] \<Longrightarrow> length s \<le> int_max_str_digits \<Longrightarrow> n = int (dec_value s) \<Longrightarrow>
      digit_count n \<le> int_max_str_digits"
    using length_dec_of_nat [OF digits_value_less, of s] by (simp add: digit_count_def)
next
  show "s = 45 # t \<Longrightarrow> all_digits09 t \<Longrightarrow> t \<noteq> [] \<Longrightarrow> length t \<le> int_max_str_digits \<Longrightarrow>
      n = - int (dec_value t) \<Longrightarrow> digit_count n \<le> int_max_str_digits" for t
    using length_dec_of_nat [OF digits_value_less, of t] by (simp add: digit_count_def)
qed

section \<open>The parser inverts the serialiser\<close>

text \<open>
  The messages the program sends: the session id is a \<open>u64\<close>, and an error is a member of
  \<open>SessionError\<close> or a number outside it that \<open>int\<close> can read back.
\<close>

fun normal_error :: "wire_error \<Rightarrow> bool" where
  "normal_error (Known e) \<longleftrightarrow> True"
| "normal_error (Unknown n) \<longleftrightarrow> \<not> (0 \<le> n \<and> n \<le> 37) \<and> digit_count n \<le> int_max_str_digits"

definition wire_message :: "signaling_message \<Rightarrow> bool" where
  "wire_message m \<longleftrightarrow> 0 \<le> connection_id m \<and> connection_id m \<le> U64_MAX \<and>
     (case m of ConnectError _ e \<Rightarrow> normal_error e | _ \<Rightarrow> True)"

lemma class_of_message: "\<exists>c. by_identifier (msg_identifier m) = Some c"
  by (cases m) (simp_all add: codec_simps)

lemma digit_count_code: "digit_count (error_code e) \<le> int_max_str_digits"
proof -
  have "nat \<bar>error_code e\<bar> < 10 ^ 2" using error_code_range [of e] by (simp add: nat_less_iff)
  then have "digit_count (error_code e) \<le> 2" unfolding digit_count_def by (rule length_dec_of_nat) simp
  then show ?thesis by (simp add: int_max_str_digits_def)
qed

lemma build_error_normal:
  assumes "normal_error e"
  shows "build_message CError cid (str_of_int (wire_error_int e)) = Inr (Some (ConnectError cid e))"
proof (cases e)
  case (Known d)
  then show ?thesis by (simp add: build_message_def parse_int_str_of_int digit_count_code)
next
  case (Unknown n)
  with assms have "\<not> is_ok (session_error_of_int n)" by (simp add: session_error_of_int_range)
  then obtain x where "session_error_of_int n = Inl x" by (auto simp: is_ok_iff) (metis sumE)
  with Unknown assms show ?thesis by (simp add: build_message_def parse_int_str_of_int)
qed

lemma parse_signaling_parts:
  assumes "by_identifier i = Some c" and "parse_u64 t = Inr (Some cid)" and "32 \<notin> set i"
  shows "parse_signaling (i @ 32 # t @ 32 # d) = build_message c cid d"
proof -
  have "32 \<notin> set t" using assms(2) digit_not_space by (simp add: parse_u64_Some)
  with assms show ?thesis by (simp add: parse_signaling_def tokenize_three)
qed

lemma parse_serialize:
  assumes "wire_message m"
  shows "parse_signaling (serialize_signaling m) = Inr (Some m)"
proof -
  obtain c where c: "by_identifier (msg_identifier m) = Some c" using class_of_message by blast
  have "parse_u64 (str_of_int (connection_id m)) = Inr (Some (connection_id m))"
    using assms by (simp add: wire_message_def parse_u64_str_of_int)
  then have "parse_signaling (serialize_signaling m) = build_message c (connection_id m) (message_data m)"
    unfolding serialize_signaling_def by (intro parse_signaling_parts c identifiers_no_space)
  with c assms show ?thesis
    by (cases m) (auto simp: codec_simps build_error_normal wire_message_def, auto simp: build_message_def)
qed

text \<open>Everything the parser accepts has the shape of the wire format.\<close>

lemma parse_signaling_Some:
  assumes "parse_signaling s = Inr (Some m)"
  obtains c t d where "s = class_identifier c @ 32 # t @ 32 # d" and "parse_u64 t = Inr (Some (connection_id m))"
    and "build_message c (connection_id m) d = Inr (Some m)"
proof -
  from assms obtain i t d c cid where tok: "tokenize s = Some (i, t, d)" and c: "by_identifier i = Some c"
    and cid: "parse_u64 t = Inr (Some cid)" and b: "build_message c cid d = Inr (Some m)"
    by (auto simp: parse_signaling_def split: option.splits sum.splits)
  from b have "connection_id m = cid"
    by (auto simp: build_message_def split: message_class.splits option.splits sum.splits)
  with that tokenize_shape [OF tok] c cid b show ?thesis by (auto simp: by_identifier_Some)
qed

lemma build_message_normal:
  assumes "build_message c cid d = Inr (Some m)" and "0 \<le> cid" and "cid \<le> U64_MAX"
  shows "wire_message m \<and> msg_identifier m = class_identifier c"
proof (cases c)
  case CError
  with assms obtain n where n: "parse_int d = Inr (Some n)"
    and m: "m = ConnectError cid (case session_error_of_int n of Inl _ \<Rightarrow> Unknown n | Inr e \<Rightarrow> Known e)"
    by (auto simp: build_message_def split: option.splits sum.splits)
  have "\<not> (0 \<le> n \<and> n \<le> 37)" if "session_error_of_int n = Inl x" for x
    using that session_error_of_int_range [of n] by simp
  with m CError assms parse_int_digit_count [OF n] show ?thesis
    by (auto simp: wire_message_def split: sum.splits)
qed (use assms in \<open>auto simp: build_message_def wire_message_def\<close>)

lemma parse_signaling_wire: "parse_signaling s = Inr (Some m) \<Longrightarrow> wire_message m"
  by (erule parse_signaling_Some) (auto simp: parse_u64_Some dest: build_message_normal)

interpretation signaling: codec
  "\<lambda>m s. serialize_signaling m = s" "\<lambda>s m. parse_signaling s = Inr (Some m)" wire_message
  by unfold_locales (auto simp: parse_serialize)

lemma parse_int_raises:
  "parse_int d = Inl e \<longleftrightarrow> e = ValueError \<and>
    (let body = if take 1 d = [45] then drop 1 d else d in
      all_digits09 body \<and> int_max_str_digits < length body)"
proof (cases "take 1 d = [45]")
  case True
  then obtain t where d: "d = 45 # t" by (cases d) auto
  then show ?thesis
    by (cases "all_digits09 t \<and> t \<noteq> []")
      (auto simp: parse_int_signed int_max_str_digits_def, auto simp: parse_int_def)
next
  case False
  then show ?thesis
    by (cases "all_digits09 d \<and> d \<noteq> []")
      (auto simp: parse_int_unsigned int_max_str_digits_def, auto simp: parse_int_def)
qed

lemma build_message_raises:
  "build_message c cid d = Inl e \<longleftrightarrow> c = CError \<and> parse_int d = Inl e"
  by (auto simp: build_message_def split: message_class.splits option.splits sum.splits)

lemma parse_signaling_Inl:
  "parse_signaling s = Inl e \<longleftrightarrow> e = ValueError \<and>
    (\<exists>i t d c. tokenize s = Some (i, t, d) \<and> by_identifier i = Some c \<and>
      (all_digits09 t \<and> int_max_str_digits < length t \<or>
       (\<exists>n. parse_u64 t = Inr (Some n)) \<and> c = CError \<and>
         (let body = if take 1 d = [45] then drop 1 d else d in
           all_digits09 body \<and> int_max_str_digits < length body)))"
proof (cases "tokenize s")
  case None
  then show ?thesis by (simp add: parse_signaling_def)
next
  case (Some x)
  obtain i t d where x: "x = (i, t, d)" by (cases x)
  show ?thesis
  proof (cases "by_identifier i")
    case None
    with Some x show ?thesis by (simp add: parse_signaling_def)
  next
    fix c assume c: "by_identifier i = Some c"
    have "parse_signaling s = Inl e \<longleftrightarrow> parse_u64 t = Inl e \<or>
        (\<exists>n. parse_u64 t = Inr (Some n) \<and> c = CError \<and> parse_int d = Inl e)"
      using Some x c build_message_raises
      by (auto simp: parse_signaling_def split: sum.splits option.splits)
    then show ?thesis
      using Some x c by (auto simp: parse_u64_raises parse_int_raises)
  qed
qed

section \<open>Properties\<close>

text \<open>
  C32: parsing a serialised message gives it back, whatever spaces and line breaks its SDP or
  candidate text holds.
\<close>

theorem signaling_round_trip:
  assumes "wire_message m"
  shows "parse_signaling (serialize_signaling m) = Inr (Some m)"
proof -
  from signaling.round_trip [OF assms] show ?thesis by auto
qed

theorem signaling_round_trip_witness:
  "parse_signaling (serialize_signaling (ConnectError 7 (Unknown 99))) = Inr (Some (ConnectError 7 (Unknown 99)))"
  by (rule signaling_round_trip) (simp add: wire_message_def U64_MAX_def, code_simp)

text \<open>
  C40: what the parser accepts is an identifier, a space, ASCII digits that denote the
  connection id, a space, and the data; the id fits 64 bits.
\<close>

theorem parse_signaling_accepts:
  assumes "parse_signaling s = Inr (Some m)"
  shows "wire_message m \<and>
    (\<exists>c t d. s = class_identifier c @ 32 # t @ 32 # d \<and> t \<noteq> [] \<and> all_digits09 t \<and>
      connection_id m = int (dec_value t) \<and> build_message c (connection_id m) d = Inr (Some m))"
proof -
  obtain c t d where "s = class_identifier c @ 32 # t @ 32 # d" "parse_u64 t = Inr (Some (connection_id m))"
      "build_message c (connection_id m) d = Inr (Some m)"
    using assms by (rule parse_signaling_Some)
  with parse_signaling_wire [OF assms] show ?thesis by (metis parse_u64_Some)
qed

theorem parse_signaling_accepts_witness:
  "wire_message (CandidateAdd 12 (lit ''a b''))"
proof -
  have "parse_signaling (lit ''CANDIDATEADD 012 a b'') = Inr (Some (CandidateAdd 12 (lit ''a b'')))"
    by code_simp
  then show ?thesis by (rule parse_signaling_accepts [THEN conjunct1])
qed

text \<open>
  C33: the parser is meant to return \<open>None\<close> for what it rejects. It raises exactly when the
  connection id, or the code of a CONNECTERROR, is a decimal of more than 4300 digits.
\<close>

theorem parse_signaling_raises:
  "parse_signaling s = Inl e \<longleftrightarrow> e = ValueError \<and>
    (\<exists>i t d c. tokenize s = Some (i, t, d) \<and> by_identifier i = Some c \<and>
      (all_digits09 t \<and> int_max_str_digits < length t \<or>
       (\<exists>n. parse_u64 t = Inr (Some n)) \<and> c = CError \<and>
         (let body = if take 1 d = [45] then drop 1 d else d in
           all_digits09 body \<and> int_max_str_digits < length body)))"
  by (simp add: parse_signaling_Inl)

end
