(* ===== verification/Framing.thy ===== *)
theory Framing
  imports Errors
begin

text \<open>
  \<open>transport/framing.py\<close>: \<open>PacketQueue\<close> cuts outbound packets into fragments
  \<open>[header][payload]\<close> and puts inbound fragments together again. The send callbacks are the
  list of \<open>(channel, fragment)\<close> pairs that \<open>push\<close> returns, in the order of the calls.
\<close>

definition FRAGMENT_SIZE :: nat where "FRAGMENT_SIZE = 0x3FFFF"
definition MAX_PACKET_SIZE :: nat where "MAX_PACKET_SIZE = 0x3FBFF01"

record packet_queue =
  reassembly :: bytes
  received :: "bytes list"

definition new_queue :: packet_queue where
  "new_queue = \<lparr>reassembly = [], received = []\<rparr>"

section \<open>Sending\<close>

text \<open>\<open>bytes((header,))\<close> raises on a header that is no byte.\<close>

definition send_fragment :: "nat \<Rightarrow> bytes \<Rightarrow> send_type \<Rightarrow> (send_type \<times> bytes) result" where
  "send_fragment header payload t =
     (if header < 256 then Inr (t, of_nat header # payload) else Inl ValueError)"

text \<open>The \<open>while fragments\<close> loop; its counter counts down to 0.\<close>

fun push_loop :: "nat \<Rightarrow> nat \<Rightarrow> bytes \<Rightarrow> (send_type \<times> bytes) list result" where
  "push_loop 0 offset data = Inr []"
| "push_loop (Suc fragments) offset data =
     rbind (send_fragment fragments (slice offset (offset + FRAGMENT_SIZE) data) Reliable) (\<lambda>f.
     rbind (push_loop fragments (offset + FRAGMENT_SIZE) data) (\<lambda>fs. Inr (f # fs)))"

definition push :: "bytes \<Rightarrow> send_type \<Rightarrow> (bool \<times> (send_type \<times> bytes) list) result" where
  "push data t =
     (let size = length data in
      if size < FRAGMENT_SIZE + 1 then rbind (send_fragment 0 data t) (\<lambda>f. Inr (True, [f]))
      else if MAX_PACKET_SIZE < size then Inr (False, [])
      else if t \<noteq> Reliable then Inr (False, [])
      else rbind (push_loop ((size - 1) div FRAGMENT_SIZE + 1) 0 data) (\<lambda>fs. Inr (True, fs)))"

section \<open>Receiving\<close>

definition on_reliable_message :: "bytes \<Rightarrow> packet_queue \<Rightarrow> packet_queue" where
  "on_reliable_message data q =
     (case data of
        [] \<Rightarrow> q
      | header # payload \<Rightarrow>
          (let q1 = q\<lparr>reassembly := reassembly q @ payload\<rparr> in
           if header = 0
           then q1\<lparr>received := received q1 @ [reassembly q1], reassembly := []\<rparr>
           else q1))"

definition on_unreliable_message :: "bytes \<Rightarrow> packet_queue \<Rightarrow> packet_queue" where
  "on_unreliable_message data q =
     (case data of [] \<Rightarrow> q | _ # payload \<Rightarrow> q\<lparr>received := received q @ [payload]\<rparr>)"

definition peek :: "packet_queue \<Rightarrow> nat option" where
  "peek q = (case received q of [] \<Rightarrow> None | head # _ \<Rightarrow> Some (length head))"

text \<open>A Python slice bound: negative bounds count from the end.\<close>

definition py_bound :: "nat \<Rightarrow> int \<Rightarrow> nat" where
  "py_bound n i = (if i < 0 then nat (max 0 (int n + i)) else nat i)"

definition read :: "int option \<Rightarrow> packet_queue \<Rightarrow> bytes option \<times> packet_queue" where
  "read max_size q =
     (case received q of
        [] \<Rightarrow> (None, q)
      | head # rest \<Rightarrow>
          (case max_size of
             None \<Rightarrow> (Some head, q\<lparr>received := rest\<rparr>)
           | Some m \<Rightarrow>
               if int (length head) \<le> m then (Some head, q\<lparr>received := rest\<rparr>)
               else (Some (take (py_bound (length head) m) head),
                     q\<lparr>received := drop (py_bound (length head) m) head # rest\<rparr>)))"

text \<open>The events of a queue's receiving side, for runs.\<close>

datatype rx_event = RxReliable bytes | RxUnreliable bytes | RxRead "int option"

fun rx_step :: "packet_queue \<Rightarrow> rx_event \<Rightarrow> packet_queue" where
  "rx_step q (RxReliable d) = on_reliable_message d q"
| "rx_step q (RxUnreliable d) = on_unreliable_message d q"
| "rx_step q (RxRead m) = snd (read m q)"

section \<open>The sender's fragments\<close>

lemma FRAGMENT_SIZE_pos [simp]: "0 < FRAGMENT_SIZE"
  by (simp add: FRAGMENT_SIZE_def)

lemma max_packet_is_255_fragments: "MAX_PACKET_SIZE = 255 * FRAGMENT_SIZE"
  by (simp add: MAX_PACKET_SIZE_def FRAGMENT_SIZE_def)

text \<open>The chunks that a countdown from \<open>n\<close> cuts, and the fragments made of them.\<close>

fun chunks :: "nat \<Rightarrow> nat \<Rightarrow> bytes \<Rightarrow> bytes list" where
  "chunks 0 offset data = []"
| "chunks (Suc n) offset data =
     slice offset (offset + FRAGMENT_SIZE) data # chunks n (offset + FRAGMENT_SIZE) data"

lemma length_chunks [simp]: "length (chunks n off data) = n"
  by (induction n arbitrary: off) simp_all

lemma concat_chunks: "length data \<le> off + n * FRAGMENT_SIZE \<Longrightarrow> concat (chunks n off data) = drop off data"
  by (induction n arbitrary: off) (simp_all add: slice_step algebra_simps)

lemma chunk_size: "c \<in> set (chunks n off data) \<Longrightarrow> length c \<le> FRAGMENT_SIZE"
  by (induction n arbitrary: off) auto

definition countdown_fragments :: "bytes list \<Rightarrow> bytes list" where
  "countdown_fragments cs = map2 (\<lambda>h c. of_nat h # c) (rev [0..<length cs]) cs"

lemma countdown_Nil [simp]: "countdown_fragments [] = []"
  by (simp add: countdown_fragments_def)

lemma countdown_Cons [simp]:
  "countdown_fragments (c # cs) = (of_nat (length cs) # c) # countdown_fragments cs"
  by (simp add: countdown_fragments_def)

lemma push_loop_chunks:
  "n \<le> 256 \<Longrightarrow> push_loop n off data = Inr (map (Pair Reliable) (countdown_fragments (chunks n off data)))"
  by (induction n arbitrary: off) (simp_all add: send_fragment_def)

text \<open>Every packet that \<open>push\<close> accepts, cut as the sender cuts it.\<close>

definition packet_chunks :: "bytes \<Rightarrow> bytes list" where
  "packet_chunks data = chunks ((length data - 1) div FRAGMENT_SIZE + 1) 0 data"

definition accepted :: "bytes \<Rightarrow> send_type \<Rightarrow> bool" where
  "accepted data t \<longleftrightarrow> length data \<le> FRAGMENT_SIZE \<or> (length data \<le> MAX_PACKET_SIZE \<and> t = Reliable)"

lemma packet_chunks_count:
  assumes "length data \<le> MAX_PACKET_SIZE"
  shows "(length data - 1) div FRAGMENT_SIZE + 1 \<le> 255"
proof -
  have "length data - 1 < 255 * FRAGMENT_SIZE"
    using assms FRAGMENT_SIZE_pos unfolding max_packet_is_255_fragments by linarith
  then have "(length data - 1) div FRAGMENT_SIZE < 255" by (simp add: div_less_iff_less_mult)
  then show ?thesis by simp
qed

lemma concat_packet_chunks: "concat (packet_chunks data) = data"
proof -
  let ?k = "(length data - 1) div FRAGMENT_SIZE"
  have "length data - 1 < (?k + 1) * FRAGMENT_SIZE"
    using dividend_less_times_div [of FRAGMENT_SIZE "length data - 1"] by (simp add: algebra_simps)
  then have "length data \<le> 0 + (?k + 1) * FRAGMENT_SIZE" by linarith
  then show ?thesis unfolding packet_chunks_def by (simp only: concat_chunks drop_0)
qed

lemma packet_chunks_short: "length data \<le> FRAGMENT_SIZE \<Longrightarrow> packet_chunks data = [data]"
proof -
  assume short: "length data \<le> FRAGMENT_SIZE"
  have "length data - 1 < FRAGMENT_SIZE" using short FRAGMENT_SIZE_pos by linarith
  with short show ?thesis by (simp add: packet_chunks_def slice_def)
qed

lemma push_accepted:
  assumes "accepted data t"
  shows "push data t = Inr (True, map (Pair t) (countdown_fragments (packet_chunks data)))"
proof (cases "length data \<le> FRAGMENT_SIZE")
  case True
  then show ?thesis by (simp add: push_def send_fragment_def packet_chunks_short)
next
  case False
  with assms have "length data \<le> MAX_PACKET_SIZE" "t = Reliable" by (auto simp: accepted_def)
  moreover from this packet_chunks_count [of data]
  have "push_loop ((length data - 1) div FRAGMENT_SIZE + 1) 0 data =
      Inr (map (Pair Reliable) (countdown_fragments (packet_chunks data)))"
    unfolding packet_chunks_def by (intro push_loop_chunks) simp
  ultimately show ?thesis using False by (simp add: push_def Let_def)
qed

lemma push_rejected: "\<not> accepted data t \<Longrightarrow> push data t = Inr (False, [])"
  by (auto simp: push_def accepted_def Let_def)

section \<open>The receiver\<close>

abbreviation receive_all :: "packet_queue \<Rightarrow> bytes list \<Rightarrow> packet_queue" where
  "receive_all q fs \<equiv> foldl (\<lambda>q f. on_reliable_message f q) q fs"

lemma header_nonzero: "0 < h \<Longrightarrow> h < 256 \<Longrightarrow> (of_nat h :: byte) \<noteq> 0"
proof
  assume h: "0 < h" "h < 256" and z: "(of_nat h :: byte) = 0"
  have "unat (of_nat h :: byte) = h" using h(2) by (simp add: unat_of_nat)
  with h(1) z show False by (simp only: unsigned_0)
qed

lemma receive_countdown:
  "cs \<noteq> [] \<Longrightarrow> length cs \<le> 256 \<Longrightarrow>
   receive_all q (countdown_fragments cs) =
     q\<lparr>received := received q @ [reassembly q @ concat cs], reassembly := []\<rparr>"
proof (induction cs arbitrary: q)
  case Nil
  then show ?case by simp
next
  case (Cons c cs)
  show ?case
  proof (cases cs)
    case Nil
    then show ?thesis by (simp add: on_reliable_message_def)
  next
    case (Cons d ds)
    then have "(of_nat (length cs) :: byte) \<noteq> 0"
      using Cons.prems by (intro header_nonzero) simp_all
    then have "on_reliable_message (of_nat (length cs) # c) q = q\<lparr>reassembly := reassembly q @ c\<rparr>"
      by (simp add: on_reliable_message_def)
    then have "receive_all q (countdown_fragments (c # cs)) =
        receive_all (q\<lparr>reassembly := reassembly q @ c\<rparr>) (countdown_fragments cs)"
      by (simp only: countdown_Cons foldl_Cons)
    also have "\<dots> = q\<lparr>received := received q @ [reassembly q @ c @ concat cs], reassembly := []\<rparr>"
      using Cons.IH [of "q\<lparr>reassembly := reassembly q @ c\<rparr>"] Cons.prems \<open>cs = d # ds\<close> by simp
    finally show ?thesis by simp
  qed
qed

lemma packet_chunks_nonempty [simp]: "packet_chunks data \<noteq> []"
  by (simp add: packet_chunks_def)

lemma length_packet_chunks: "accepted data t \<Longrightarrow> length (packet_chunks data) \<le> 255"
proof -
  assume "accepted data t"
  moreover have "FRAGMENT_SIZE \<le> MAX_PACKET_SIZE" by (simp add: FRAGMENT_SIZE_def MAX_PACKET_SIZE_def)
  ultimately have "length data \<le> MAX_PACKET_SIZE" by (auto simp: accepted_def)
  then show ?thesis unfolding packet_chunks_def length_chunks by (rule packet_chunks_count)
qed

text \<open>One packet, sent and received while no packet is half-received.\<close>

lemma receive_packet:
  assumes "accepted data t" and "reassembly q = []"
  shows "receive_all q (countdown_fragments (packet_chunks data)) = q\<lparr>received := received q @ [data]\<rparr>"
  using assms length_packet_chunks [OF assms(1)]
  by (simp add: receive_countdown concat_packet_chunks)

text \<open>A sequence of reliable packets, as one stream of fragments.\<close>

fun push_all :: "bytes list \<Rightarrow> (send_type \<times> bytes) list result" where
  "push_all [] = Inr []"
| "push_all (d # ds) =
     rbind (push d Reliable) (\<lambda>(_, fs). rbind (push_all ds) (\<lambda>gs. Inr (fs @ gs)))"

lemma push_all_accepted:
  "\<forall>d \<in> set ds. accepted d Reliable \<Longrightarrow>
   push_all ds = Inr (map (Pair Reliable) (concat (map (\<lambda>d. countdown_fragments (packet_chunks d)) ds)))"
  by (induction ds) (simp_all add: push_accepted)

lemma receive_packets:
  "\<forall>d \<in> set ds. accepted d Reliable \<Longrightarrow> reassembly q = [] \<Longrightarrow>
   receive_all q (concat (map (\<lambda>d. countdown_fragments (packet_chunks d)) ds)) =
     q\<lparr>received := received q @ ds\<rparr>"
  by (induction ds arbitrary: q) (simp_all add: receive_packet [where t = Reliable])

section \<open>The receive queue is a FIFO\<close>

lemma read_simps [simp]:
  "received q = [] \<Longrightarrow> read m q = (None, q)"
  "received q = x # xs \<Longrightarrow> read None q = (Some x, q\<lparr>received := xs\<rparr>)"
  by (simp_all add: read_def)

interpretation rx: fifo
  "\<lambda>p q. q\<lparr>received := received q @ [p]\<rparr>" "read None" received
  by unfold_locales simp_all

text \<open>Bytes queued for the reader, packet borders forgotten.\<close>

definition queued_bytes :: "packet_queue \<Rightarrow> bytes" where
  "queued_bytes q = concat (received q)"

lemma read_some_bytes:
  "read m q = (Some b, q') \<Longrightarrow> b @ queued_bytes q' = queued_bytes q \<and> reassembly q' = reassembly q"
  by (auto simp: read_def queued_bytes_def split: list.splits option.splits if_splits)

lemma peek_read: "peek q = Some n \<longleftrightarrow> (\<exists>b. fst (read None q) = Some b \<and> length b = n)"
  by (auto simp: peek_def read_def split: list.splits)

section \<open>Properties\<close>

text \<open>
  C28: \<open>push\<close> never raises; it accepts exactly the packets of one fragment and, on the
  reliable channel, those of up to 255 fragments, and cuts an accepted packet into 1 to 255
  chunks of at most 262143 bytes that make up the packet, with headers counting down to 0.
\<close>

theorem push_fragments:
  "push data t =
     (if accepted data t then Inr (True, map (Pair t) (countdown_fragments (packet_chunks data)))
      else Inr (False, [])) \<and>
   concat (packet_chunks data) = data \<and> list_all (\<lambda>c. length c \<le> FRAGMENT_SIZE) (packet_chunks data) \<and>
   (accepted data t \<longrightarrow> 1 \<le> length (packet_chunks data) \<and> length (packet_chunks data) \<le> 255)"
proof -
  have "list_all (\<lambda>c. length c \<le> FRAGMENT_SIZE) (packet_chunks data)"
    by (auto simp: packet_chunks_def list_all_iff simp del: chunks.simps dest: chunk_size)
  moreover have "1 \<le> length (packet_chunks data)" by (simp add: Suc_le_eq)
  ultimately show ?thesis
    using push_accepted [of data t] push_rejected [of data t] length_packet_chunks [of data t]
    by (simp add: concat_packet_chunks)
qed

theorem push_fragments_witness:
  "push [1, 2] Unreliable = Inr (True, [(Unreliable, [0, 1, 2])]) \<and> length (packet_chunks [1, 2]) \<le> 255"
  using push_fragments [of "[1, 2]" Unreliable]
  by (simp add: accepted_def FRAGMENT_SIZE_def packet_chunks_def slice_def)

text \<open>
  \<open>read\<close> neither loses nor invents bytes: what it returns, followed by what stays queued,
  is what was queued; with a bound it returns at most that many bytes, and it returns \<open>None\<close>
  only on an empty queue.
\<close>

theorem read_conserves:
  assumes "read m q = (r, q')"
  shows "(case r of None \<Rightarrow> [] | Some b \<Rightarrow> b) @ queued_bytes q' = queued_bytes q \<and>
    reassembly q' = reassembly q \<and> (r = None \<longleftrightarrow> received q = []) \<and>
    (\<forall>n b. m = Some n \<and> 0 \<le> n \<and> r = Some b \<longrightarrow> int (length b) \<le> n)"
  using assms read_some_bytes [of m q _ q']
  by (auto simp: read_def py_bound_def queued_bytes_def min_def split: list.splits option.splits if_splits)

theorem read_conserves_witness:
  "[7] @ queued_bytes \<lparr>reassembly = [], received = [[8, 9]]\<rparr> = queued_bytes \<lparr>reassembly = [], received = [[7, 8, 9]]\<rparr>"
  using read_conserves [of "Some 1" "\<lparr>reassembly = [], received = [[7, 8, 9]]\<rparr>" "Some [7]"
      "\<lparr>reassembly = [], received = [[8, 9]]\<rparr>"]
  by (simp add: read_def py_bound_def)

end
