(* ===== verification/Sdp.thy ===== *)
theory Sdp
  imports PyText
begin

text \<open>
  The text functions of \<open>transport/peer_connection.py\<close> on SDP blobs: splitting off the ICE
  candidates, the relay-only filter, the \<open>max-message-size\<close> attribute and the prefix of a
  \<open>CANDIDATEADD\<close>. They rest on \<open>str.splitlines(keepends=True)\<close>, \<open>str.strip\<close> and one
  \<open>re.sub\<close>. Removing lines can join a carriage return with a line feed that stood on the next
  line, so the lemmas say what splitting the result again gives (\<open>resplit\<close>).
\<close>

section \<open>splitlines and strip\<close>

definition is_linebreak :: "nat \<Rightarrow> bool" where
  "is_linebreak c \<longleftrightarrow> (10 \<le> c \<and> c \<le> 13) \<or> (28 \<le> c \<and> c \<le> 30) \<or> c = 133 \<or> c = 8232 \<or> c = 8233"

fun splitlines :: "pystr \<Rightarrow> pystr list" where
  "splitlines [] = []"
| "splitlines [c] = [[c]]"
| "splitlines (c # d # cs) =
     (if c = 13 \<and> d = 10 then [c, d] # splitlines cs
      else if is_linebreak c then [c] # splitlines (d # cs)
      else (case splitlines (d # cs) of [] \<Rightarrow> [[c]] | l # ls \<Rightarrow> (c # l) # ls))"

definition strip :: "pystr \<Rightarrow> pystr" where
  "strip s = rev (dropWhile uni_space (rev (dropWhile uni_space s)))"

section \<open>The SDP functions\<close>

definition candidate_line :: pystr where "candidate_line = lit ''a=candidate:''"
definition end_of_candidates :: pystr where "end_of_candidates = lit ''a=end-of-candidates''"
definition relay_text :: pystr where "relay_text = lit '' typ relay''"
definition size_attr :: pystr where "size_attr = lit ''a=max-message-size:''"
definition sctp_port_attr :: pystr where "sctp_port_attr = lit ''a=sctp-port:''"
definition candidate_prefix :: pystr where "candidate_prefix = lit ''candidate:''"

lemmas sdp_texts = candidate_line_def end_of_candidates_def relay_text_def size_attr_def
  sctp_port_attr_def candidate_prefix_def

definition strip_candidates :: "pystr \<Rightarrow> pystr \<times> pystr list" where
  "strip_candidates sdp =
     (let step = (\<lambda>(kept, candidates) line.
            let stripped = strip line in
            if starts_with candidate_line stripped then (kept, candidates @ [drop 2 stripped])
            else if stripped = end_of_candidates then (kept, candidates)
            else (kept @ [line], candidates));
          (kept, candidates) = foldl step ([], []) (splitlines sdp)
      in (concat kept, candidates))"

definition keep_only_relay_candidates :: "pystr \<Rightarrow> pystr" where
  "keep_only_relay_candidates sdp =
     concat (filter (\<lambda>line. \<not> (starts_with candidate_line line \<and> \<not> contains relay_text line))
       (splitlines sdp))"

text \<open>
  \<open>re.sub(r"a=max-message-size:\d+", repl, sdp)\<close>; \<open>\d\<close> also matches the decimal digits of
  other scripts, which \<open>udec\<close> knows.
\<close>

definition re_digit :: "(nat \<Rightarrow> nat option) \<Rightarrow> nat \<Rightarrow> bool" where
  "re_digit udec c \<longleftrightarrow> is_digit09 c \<or> (128 \<le> c \<and> udec c \<noteq> None)"

definition size_match :: "(nat \<Rightarrow> bool) \<Rightarrow> pystr \<Rightarrow> bool" where
  "size_match dig s \<longleftrightarrow> starts_with size_attr s \<and>
     (case drop (length size_attr) s of [] \<Rightarrow> False | c # _ \<Rightarrow> dig c)"

function sub_size :: "(nat \<Rightarrow> bool) \<Rightarrow> pystr \<Rightarrow> pystr \<Rightarrow> pystr" where
  "sub_size dig repl [] = []"
| "sub_size dig repl (c # cs) =
     (if size_match dig (c # cs)
      then repl @ sub_size dig repl (dropWhile dig (drop (length size_attr - 1) cs))
      else c # sub_size dig repl cs)"
  by pat_completeness auto
termination
  by (relation "measure (\<lambda>(_, _, s). length s)")
    (auto simp: less_Suc_eq_le intro!: le_trans [OF length_dropWhile_le])

definition MAX_MESSAGE_SIZE :: nat where "MAX_MESSAGE_SIZE = 262144"

definition ends_with :: "pystr \<Rightarrow> pystr \<Rightarrow> bool" where
  "ends_with p s \<longleftrightarrow> starts_with (rev p) (rev s)"

definition set_max_message_size :: "(nat \<Rightarrow> nat option) \<Rightarrow> nat \<Rightarrow> pystr \<Rightarrow> pystr" where
  "set_max_message_size udec value sdp =
     (let attr = size_attr @ dec_of_nat value in
      if contains size_attr sdp then sub_size (re_digit udec) attr sdp
      else concat (map (\<lambda>line.
             if starts_with sctp_port_attr line
             then line @ attr @ (if ends_with [13, 10] line then [13, 10] else [10])
             else line) (splitlines sdp)))"

text \<open>
  \<open>candidate_from_sdp\<close> and \<open>candidate_to_sdp\<close> are aiortc's: the parameters \<open>from_sdp\<close>
  (\<open>None\<close> when it raises) and \<open>to_sdp\<close>. The pair's second part is \<open>sdpMLineIndex\<close>.
\<close>

definition candidate_to_message :: "('c \<Rightarrow> pystr) \<Rightarrow> 'c \<Rightarrow> pystr" where
  "candidate_to_message to_sdp c = candidate_prefix @ to_sdp c"

definition candidate_from_message :: "(pystr \<Rightarrow> 'c option) \<Rightarrow> pystr \<Rightarrow> ('c \<times> nat) option" where
  "candidate_from_message from_sdp text =
     (let value = (if starts_with candidate_prefix text then drop (length candidate_prefix) text else text)
      in map_option (\<lambda>c. (c, 0)) (from_sdp value))"

section \<open>Lines\<close>

lemma concat_splitlines [simp]: "concat (splitlines s) = s"
proof (induction s rule: splitlines.induct)
  case (3 c d cs)
  then show ?case
    by (cases "c = 13 \<and> d = 10"; cases "is_linebreak c") (auto split: list.splits)
qed simp_all

lemma splitlines_Nil_iff [simp]: "splitlines s = [] \<longleftrightarrow> s = []"
  by (induction s rule: splitlines.induct) (auto split: list.splits)

text \<open>A complete line: no break inside, one break at its end.\<close>

definition line_end :: "pystr \<Rightarrow> bool" where
  "line_end b \<longleftrightarrow> b = [13, 10] \<or> (\<exists>c. b = [c] \<and> is_linebreak c)"

definition complete_line :: "pystr \<Rightarrow> bool" where
  "complete_line l \<longleftrightarrow> (\<exists>x b. l = x @ b \<and> (\<forall>c \<in> set x. \<not> is_linebreak c) \<and> line_end b)"

definition open_line :: "pystr \<Rightarrow> bool" where
  "open_line l \<longleftrightarrow> l \<noteq> [] \<and> (\<forall>c \<in> set l. \<not> is_linebreak c)"

text \<open>What \<open>splitlines\<close> produces: complete lines, and perhaps one unfinished line at the end.\<close>

fun line_list :: "pystr list \<Rightarrow> bool" where
  "line_list [] \<longleftrightarrow> True"
| "line_list [l] \<longleftrightarrow> complete_line l \<or> open_line l"
| "line_list (l # ls) \<longleftrightarrow> complete_line l \<and> line_list ls"

lemma complete_line_Cons: "\<not> is_linebreak c \<Longrightarrow> complete_line l \<Longrightarrow> complete_line (c # l)"
  unfolding complete_line_def by (metis Cons_eq_appendI set_ConsD)

lemma linebreak_chars [simp]: "is_linebreak 13" "is_linebreak 10"
  by (simp_all add: is_linebreak_def)

lemma complete_line_single: "line_end b \<Longrightarrow> complete_line b"
  unfolding complete_line_def by (metis append_Nil empty_iff empty_set)

lemma line_list_Cons: "line_list (l # ls) \<longleftrightarrow> (complete_line l \<or> (ls = [] \<and> open_line l)) \<and> line_list ls"
  by (cases ls) auto

lemma line_list_splitlines: "line_list (splitlines s)"
proof (induction s rule: splitlines.induct)
  case 1
  then show ?case by simp
next
  case (2 c)
  then show ?case
    by (cases "is_linebreak c") (auto simp: open_line_def line_end_def intro: complete_line_single)
next
  case (3 c d cs)
  consider (crlf) "c = 13" "d = 10" | (break) "\<not> (c = 13 \<and> d = 10)" "is_linebreak c"
    | (plain) "\<not> is_linebreak c" "\<not> (c = 13 \<and> d = 10)" by auto
  then show ?case
  proof cases
    case crlf
    with 3 show ?thesis by (simp add: line_list_Cons line_end_def complete_line_single)
  next
    case break
    with 3 show ?thesis by (auto simp: line_list_Cons line_end_def intro: complete_line_single)
  next
    case plain
    obtain l ls where l: "splitlines (d # cs) = l # ls" by (cases "splitlines (d # cs)") auto
    with 3 plain have "line_list (l # ls)" by simp
    then have "line_list ((c # l) # ls)"
      using plain by (auto simp: line_list_Cons open_line_def complete_line_Cons)
    with plain l show ?thesis by auto
  qed
qed

lemma line_list_filter: "line_list ls \<Longrightarrow> line_list (filter P ls)"
  by (induction ls) (auto simp: line_list_Cons)

section \<open>Splitting a text again after lines were removed\<close>

fun rejoin :: "pystr list \<Rightarrow> pystr list" where
  "rejoin [] = []"
| "rejoin [l] = [l]"
| "rejoin (l # m # ls) =
     (if last l = 13 \<and> m = [10] then (l @ [10]) # rejoin ls else l # rejoin (m # ls))"

lemma splitlines_plain_append:
  "\<forall>c \<in> set x. \<not> is_linebreak c \<Longrightarrow> splitlines s = m # ms \<Longrightarrow> splitlines (x @ s) = (x @ m) # ms"
proof (induction x)
  case Nil
  then show ?case by simp
next
  case (Cons c x)
  then have IH: "splitlines (x @ s) = (x @ m) # ms" and c: "\<not> is_linebreak c" by auto
  then have "c \<noteq> 13" by auto
  moreover obtain d ds where "x @ s = d # ds" using IH by (cases "x @ s") auto
  ultimately show ?case using IH c by simp
qed

lemma splitlines_open: "open_line l \<Longrightarrow> splitlines l = [l]"
proof -
  assume l: "open_line l"
  then have "splitlines (butlast l @ [last l]) = [butlast l @ [last l]]"
    by (intro splitlines_plain_append) (auto simp: open_line_def dest: in_set_butlastD)
  with l show ?thesis by (simp add: open_line_def)
qed

lemma splitlines_break:
  assumes "line_end b" and "\<not> (b = [13] \<and> (\<exists>r. s = 10 # r))"
  shows "splitlines (b @ s) = b # splitlines s"
proof (cases "b = [13, 10]")
  case True
  then show ?thesis by simp
next
  case False
  with assms(1) obtain c where b: "b = [c]" "is_linebreak c" by (auto simp: line_end_def)
  show ?thesis
  proof (cases s)
    case (Cons d ds)
    with assms(2) b have "\<not> (c = 13 \<and> d = 10)" by auto
    with b Cons show ?thesis by (simp only: append.simps splitlines.simps if_False if_True)
  qed (simp add: b)
qed

lemma splitlines_complete:
  assumes "complete_line l" and "\<not> (last l = 13 \<and> (\<exists>r. s = 10 # r))"
  shows "splitlines (l @ s) = l # splitlines s"
proof -
  from assms(1) obtain x b where l: "l = x @ b" and x: "\<forall>c \<in> set x. \<not> is_linebreak c" and b: "line_end b"
    by (auto simp: complete_line_def)
  have "splitlines (b @ s) = b # splitlines s"
    using assms(2) b by (intro splitlines_break) (auto simp: l)
  with x show ?thesis unfolding l append_assoc by (rule splitlines_plain_append)
qed

lemma splitlines_join:
  assumes "complete_line l" and "last l = 13"
  shows "splitlines (l @ 10 # s) = (l @ [10]) # splitlines s"
proof -
  from assms(1) obtain x b where l: "l = x @ b" and x: "\<forall>c \<in> set x. \<not> is_linebreak c" and b: "line_end b"
    by (auto simp: complete_line_def)
  have "b = [13]" using b assms(2) by (auto simp: l line_end_def)
  then have "splitlines (x @ [13, 10] @ s) = (x @ [13, 10]) # splitlines s"
    using x by (intro splitlines_plain_append) simp_all
  with l \<open>b = [13]\<close> show ?thesis by simp
qed

lemma line_starting_lf: "complete_line m \<or> open_line m \<Longrightarrow> m = 10 # r \<Longrightarrow> m = [10]"
proof -
  assume m: "complete_line m \<or> open_line m" "m = 10 # r"
  then obtain x b where "m = x @ b" "\<forall>c \<in> set x. \<not> is_linebreak c" "line_end b"
    by (auto simp: complete_line_def open_line_def)
  with m(2) show ?thesis by (cases x) (auto simp: line_end_def)
qed

lemma resplit: "line_list ls \<Longrightarrow> splitlines (concat ls) = rejoin ls"
proof (induction ls rule: rejoin.induct)
  case 1
  then show ?case by simp
next
  case (2 l)
  then show ?case using splitlines_complete [of l "[]"] splitlines_open by auto
next
  case (3 l m ls)
  then have l: "complete_line l" and m: "complete_line m \<or> open_line m" and rest: "line_list (m # ls)"
    by (auto simp: line_list_Cons)
  show ?case
  proof (cases "last l = 13 \<and> m = [10]")
    case True
    moreover have "line_list ls" using rest by (simp add: line_list_Cons)
    ultimately show ?thesis using "3.IH"(1) l by (simp add: splitlines_join)
  next
    case False
    obtain c r where mc: "m = c # r"
      using m by (cases m) (auto simp: complete_line_def open_line_def line_end_def)
    have "\<not> (last l = 13 \<and> (\<exists>r. concat (m # ls) = 10 # r))"
    proof
      assume a: "last l = 13 \<and> (\<exists>r. concat (m # ls) = 10 # r)"
      with mc have "m = 10 # r" by auto
      with line_starting_lf [OF m] a False show False by blast
    qed
    with l have "splitlines (concat (l # m # ls)) = l # splitlines (concat (m # ls))"
      by (simp add: splitlines_complete)
    also have "splitlines (concat (m # ls)) = rejoin (m # ls)" using "3.IH"(2) False rest by blast
    finally show ?thesis using False by auto
  qed
qed

lemma rejoin_all:
  "(\<And>l. P l \<Longrightarrow> P (l @ [10])) \<Longrightarrow> \<forall>l \<in> set ls. P l \<Longrightarrow> \<forall>l \<in> set (rejoin ls). P l"
  by (induction ls rule: rejoin.induct) auto

text \<open>Filtering the lines of a text by a predicate that a line feed does not change.\<close>

lemma splitlines_filtered:
  assumes "\<And>l. P l \<Longrightarrow> P (l @ [10])" and "l \<in> set (splitlines (concat (filter P (splitlines s))))"
  shows "P l"
proof -
  have "splitlines (concat (filter P (splitlines s))) = rejoin (filter P (splitlines s))"
    by (intro resplit line_list_filter line_list_splitlines)
  moreover have "\<forall>l \<in> set (rejoin (filter P (splitlines s))). P l"
    by (rule rejoin_all) (use assms(1) in \<open>simp_all\<close>)
  ultimately show ?thesis using assms(2) by simp
qed

section \<open>Stripping candidates\<close>

lemma strip_line_feed [simp]: "strip (l @ [10]) = strip l"
proof -
  have "uni_space 10" by (simp add: uni_space_def)
  then show ?thesis
    by (cases "\<forall>c \<in> set l. uni_space c") (auto simp: strip_def dropWhile_append dest: set_dropWhileD)
qed

definition kept_line :: "pystr \<Rightarrow> bool" where
  "kept_line l \<longleftrightarrow> \<not> starts_with candidate_line (strip l) \<and> strip l \<noteq> end_of_candidates"

definition candidate_texts :: "pystr list \<Rightarrow> pystr list" where
  "candidate_texts ls = map (drop 2) (filter (starts_with candidate_line) (map strip ls))"

lemma strip_candidates_fold:
  "foldl (\<lambda>(kept, candidates) line.
        let stripped = strip line in
        if starts_with candidate_line stripped then (kept, candidates @ [drop 2 stripped])
        else if stripped = end_of_candidates then (kept, candidates)
        else (kept @ [line], candidates)) (k, c) ls =
   (k @ filter kept_line ls, c @ candidate_texts ls)"
  by (induction ls arbitrary: k c) (auto simp: kept_line_def candidate_texts_def Let_def)

lemma strip_candidates_eq:
  "strip_candidates sdp = (concat (filter kept_line (splitlines sdp)), candidate_texts (splitlines sdp))"
  unfolding strip_candidates_def by (simp only: Let_def strip_candidates_fold [unfolded Let_def]) simp

lemma candidate_texts_none: "\<forall>l \<in> set ls. kept_line l \<Longrightarrow> candidate_texts ls = []"
  by (auto simp: candidate_texts_def kept_line_def filter_empty_conv)

lemma kept_lines_of_stripped: "l \<in> set (splitlines (fst (strip_candidates sdp))) \<Longrightarrow> kept_line l"
  unfolding strip_candidates_eq fst_conv
  by (rule splitlines_filtered [of kept_line]) (simp_all add: kept_line_def)

lemma strip_candidates_again: "strip_candidates (fst (strip_candidates sdp)) = (fst (strip_candidates sdp), [])"
proof -
  let ?ls = "splitlines (fst (strip_candidates sdp))"
  have "\<forall>l \<in> set ?ls. kept_line l" using kept_lines_of_stripped by blast
  then have "filter kept_line ?ls = ?ls" and "candidate_texts ?ls = []"
    by (simp_all add: filter_id_conv candidate_texts_none)
  then show ?thesis by (simp add: strip_candidates_eq [of "fst (strip_candidates sdp)"])
qed

lemma candidate_texts_prefix: "c \<in> set (candidate_texts ls) \<Longrightarrow> starts_with candidate_prefix c"
  by (auto simp: candidate_texts_def starts_with_def sdp_texts lit_def take_drop)

section \<open>The relay filter\<close>

definition direct_candidate :: "pystr \<Rightarrow> bool" where
  "direct_candidate l \<longleftrightarrow> starts_with candidate_line l \<and> \<not> contains relay_text l"

lemma starts_with_line_feed: "10 \<notin> set p \<Longrightarrow> starts_with p (l @ [10]) \<Longrightarrow> starts_with p l"
proof -
  assume p: "10 \<notin> set p" "starts_with p (l @ [10])"
  then obtain t where "l @ [10] = p @ t" by (auto simp: starts_with_iff)
  with p(1) show ?thesis by (cases t rule: rev_cases) (auto simp: starts_with_iff)
qed

lemma contains_append_left: "contains p l \<Longrightarrow> contains p (l @ r)"
proof (induction l)
  case Nil
  then show ?case by (cases r) (simp_all add: starts_with_def)
next
  case (Cons c cs)
  then show ?case by (auto simp: starts_with_iff) (metis append_Cons append_assoc)
qed

lemma direct_candidate_line_feed: "\<not> direct_candidate l \<Longrightarrow> \<not> direct_candidate (l @ [10])"
proof -
  have "10 \<notin> set candidate_line" by (simp add: sdp_texts lit_def)
  then show "\<not> direct_candidate l \<Longrightarrow> \<not> direct_candidate (l @ [10])"
    using starts_with_line_feed contains_append_left unfolding direct_candidate_def by blast
qed

lemma relay_lines_only:
  "l \<in> set (splitlines (keep_only_relay_candidates sdp)) \<Longrightarrow> \<not> direct_candidate l"
  unfolding keep_only_relay_candidates_def direct_candidate_def [symmetric]
  by (rule splitlines_filtered [of "\<lambda>l. \<not> direct_candidate l"]) (simp_all add: direct_candidate_line_feed)

section \<open>max-message-size\<close>

lemma sub_size_present:
  "size_match dig t \<Longrightarrow> contains repl (sub_size dig repl (x @ t))"
proof (induction dig repl "x @ t" arbitrary: x rule: sub_size.induct)
  case (1 dig repl)
  then show ?case by (simp add: size_match_def starts_with_def sdp_texts lit_def)
next
  case (2 dig repl c cs)
  show ?case
  proof (cases "size_match dig (c # cs)")
    case True
    then show ?thesis using contains_append [of repl "[]"] "2.hyps"(3) [symmetric] by simp
  next
    case False
    then obtain x' where x: "x = c # x'" "cs = x' @ t" using "2.hyps"(3) "2.prems" by (cases x) auto
    with "2.hyps"(2) False "2.prems" have "contains repl (sub_size dig repl cs)" by simp
    with False x show ?thesis by simp
  qed
qed

lemma contains_concat: "l \<in> set ls \<Longrightarrow> contains p l \<Longrightarrow> contains p (concat ls)"
proof (induction ls)
  case (Cons a ls)
  have right: "contains p (concat ls) \<Longrightarrow> contains p (a @ concat ls)"
    by (induction a) auto
  from Cons show ?case using right contains_append_left by auto
qed simp

section \<open>Properties\<close>

text \<open>
  \<open>strip_candidates\<close> splits the lines of an SDP, each in its order: the candidate lines
  become the candidate texts, end-of-candidates goes, all other lines stay as they are; what
  is left holds no candidate, so stripping it again changes nothing.
\<close>

theorem strip_candidates_partition:
  "strip_candidates desc =
     (concat (filter kept_line (splitlines desc)), candidate_texts (splitlines desc)) \<and>
   strip_candidates (fst (strip_candidates desc)) = (fst (strip_candidates desc), []) \<and>
   list_all (starts_with candidate_prefix) (snd (strip_candidates desc))"
  using strip_candidates_again [of desc]
  by (auto simp: strip_candidates_eq list_all_iff dest: candidate_texts_prefix)

text \<open>
  With RelayOnly no line of the advertised SDP is a candidate that is not a relay.
\<close>

theorem relay_only_advertises_relays:
  "list_all (\<lambda>l. \<not> direct_candidate l) (splitlines (keep_only_relay_candidates desc))"
  by (auto simp: list_all_iff dest: relay_lines_only)

end
