(* ===== verification/Utf8.thy ===== *)
theory Utf8
  imports PyText
begin

text \<open>
  \<open>str.encode("utf-8")\<close> and \<open>bytes.decode("utf-8")\<close> in strict mode, as \<open>discovery/lan.py\<close>
  and the data channels use them. Encoding raises on a lone surrogate; decoding rejects
  overlong forms, surrogates, values above 0x10FFFF and truncated sequences (\<open>None\<close>).
\<close>

section \<open>Encoding and decoding\<close>

definition surrogate :: "nat \<Rightarrow> bool" where
  "surrogate c \<longleftrightarrow> 0xD800 \<le> c \<and> c \<le> 0xDFFF"

definition cont :: "nat \<Rightarrow> bool" where
  "cont b \<longleftrightarrow> 128 \<le> b \<and> b < 192"

definition enc_char :: "nat \<Rightarrow> nat list result" where
  "enc_char c =
     (if c < 0x80 then Inr [c]
      else if c < 0x800 then Inr [192 + c div 64, 128 + c mod 64]
      else if surrogate c then Inl UnicodeEncodeError
      else if c < 0x10000 then Inr [224 + c div 4096, 128 + c div 64 mod 64, 128 + c mod 64]
      else if c < 0x110000 then
        Inr [240 + c div 262144, 128 + c div 4096 mod 64, 128 + c div 64 mod 64, 128 + c mod 64]
      else Inl UnicodeEncodeError)"

fun enc_text :: "pystr \<Rightarrow> nat list result" where
  "enc_text [] = Inr []"
| "enc_text (c # cs) = rbind (enc_char c) (\<lambda>bs. rbind (enc_text cs) (\<lambda>r. Inr (bs @ r)))"

definition utf8_encode :: "pystr \<Rightarrow> bytes result" where
  "utf8_encode s = rbind (enc_text s) (\<lambda>bs. Inr (map of_nat bs))"

fun dec_text :: "nat list \<Rightarrow> pystr option" where
  "dec_text [] = Some []"
| "dec_text (b0 # r) =
     (if b0 < 128 then map_option ((#) b0) (dec_text r)
      else if 194 \<le> b0 \<and> b0 \<le> 223 then
        (case r of
           b1 # r1 \<Rightarrow>
             if cont b1 then map_option ((#) ((b0 - 192) * 64 + (b1 - 128))) (dec_text r1) else None
         | _ \<Rightarrow> None)
      else if 224 \<le> b0 \<and> b0 \<le> 239 then
        (case r of
           b1 # b2 # r2 \<Rightarrow>
             (let c = (b0 - 224) * 4096 + (b1 - 128) * 64 + (b2 - 128) in
              if cont b1 \<and> cont b2 \<and> 0x800 \<le> c \<and> \<not> surrogate c
              then map_option ((#) c) (dec_text r2) else None)
         | _ \<Rightarrow> None)
      else if 240 \<le> b0 \<and> b0 \<le> 244 then
        (case r of
           b1 # b2 # b3 # r3 \<Rightarrow>
             (let c = (b0 - 240) * 262144 + (b1 - 128) * 4096 + (b2 - 128) * 64 + (b3 - 128) in
              if cont b1 \<and> cont b2 \<and> cont b3 \<and> 0x10000 \<le> c \<and> c < 0x110000
              then map_option ((#) c) (dec_text r3) else None)
         | _ \<Rightarrow> None)
      else None)"

definition utf8_decode :: "bytes \<Rightarrow> pystr option" where
  "utf8_decode b = dec_text (map unat b)"

section \<open>Round trips\<close>

lemma split64: "(c :: nat) = c div 64 * 64 + c mod 64" by simp

lemma split4096: "(c :: nat) = c div 4096 * 4096 + c div 64 mod 64 * 64 + c mod 64"
proof -
  have "c div 64 div 64 = c div 4096" by (simp add: div_mult2_eq [symmetric])
  with split64 [of c] split64 [of "c div 64"] show ?thesis by linarith
qed

lemma split262144:
  "(c :: nat) = c div 262144 * 262144 + c div 4096 mod 64 * 4096 + c div 64 mod 64 * 64 + c mod 64"
proof -
  have "c div 4096 div 64 = c div 262144" by (simp add: div_mult2_eq [symmetric])
  with split4096 [of c] split64 [of "c div 4096"] show ?thesis by linarith
qed

lemma join64: "y < 64 \<Longrightarrow> (x * 64 + y) div 64 = x \<and> (x * 64 + y) mod 64 = (y :: nat)"
  by simp

lemma join4096:
  assumes "y < 64" and "z < 64" and "c = x * 4096 + y * 64 + (z :: nat)"
  shows "c div 4096 = x \<and> c div 64 mod 64 = y \<and> c mod 64 = z"
proof -
  have c: "c = (x * 64 + y) * 64 + z" using assms(3) by simp
  then have "c div 64 = x * 64 + y" "c mod 64 = z" using join64 [OF assms(2), of "x * 64 + y"] by simp_all
  moreover have "c div 4096 = c div 64 div 64" by (simp add: div_mult2_eq [symmetric])
  ultimately show ?thesis using join64 [OF assms(1), of x] by simp
qed

lemma join262144:
  assumes "y < 64" and "z < 64" and "w < 64" and "c = x * 262144 + y * 4096 + z * 64 + (w :: nat)"
  shows "c div 262144 = x \<and> c div 4096 mod 64 = y \<and> c div 64 mod 64 = z \<and> c mod 64 = w"
proof -
  have "c = (x * 64 + y) * 4096 + z * 64 + w" using assms(4) by simp
  from join4096 [OF assms(2,3) this] have "c div 4096 = x * 64 + y" "c div 64 mod 64 = z" "c mod 64 = w"
    by simp_all
  moreover have "c div 262144 = c div 4096 div 64" by (simp add: div_mult2_eq [symmetric])
  ultimately show ?thesis using join64 [OF assms(1), of x] by simp
qed

lemma cont_mod64 [simp]: "cont (128 + c mod 64)"
  by (simp add: cont_def)

lemma dec_enc_char:
  assumes "enc_char c = Inr bs"
  shows "dec_text (bs @ r) = map_option ((#) c) (dec_text r)"
proof -
  consider (one) "c < 0x80" | (two) "0x80 \<le> c" "c < 0x800"
    | (three) "0x800 \<le> c" "c < 0x10000" "\<not> surrogate c"
    | (four) "0x10000 \<le> c" "c < 0x110000" "\<not> surrogate c"
    using assms by (auto simp: enc_char_def split: if_splits)
  then show ?thesis
  proof cases
    case one
    then show ?thesis using assms by (auto simp: enc_char_def)
  next
    case two
    moreover have "2 \<le> c div 64" "c div 64 < 32" using two by auto
    ultimately show ?thesis using assms split64 [of c] by (auto simp: enc_char_def)
  next
    case three
    moreover have "c div 4096 < 16" using three by auto
    moreover have "\<not> c < 0x800" "\<not> c < 0x80" using three by auto
    ultimately show ?thesis using assms split4096 [of c] by (auto simp: enc_char_def Let_def)
  next
    case four
    moreover have "c div 262144 \<le> 4" using four by auto
    moreover have "\<not> c < 0x10000" "\<not> c < 0x800" "\<not> c < 0x80" using four by auto
    ultimately show ?thesis using assms split262144 [of c] by (auto simp: enc_char_def Let_def)
  qed
qed

lemma dec_enc_text: "enc_text s = Inr bs \<Longrightarrow> dec_text bs = Some s"
  by (induction s arbitrary: bs) (auto simp: rbind_eq_Inr dec_enc_char)

lemma enc_char_bytes: "enc_char c = Inr bs \<Longrightarrow> \<forall>b \<in> set bs. b < 256"
  by (auto simp: enc_char_def split: if_splits)

lemma enc_text_bytes: "enc_text s = Inr bs \<Longrightarrow> \<forall>b \<in> set bs. b < 256"
  by (induction s arbitrary: bs) (use enc_char_bytes in \<open>fastforce simp: rbind_eq_Inr\<close>)+

lemma unat_of_nat_bytes: "\<forall>b \<in> set bs. b < 256 \<Longrightarrow> map unat (map of_nat bs :: bytes) = bs"
  by (induction bs) (simp_all add: unat_of_nat)

lemma utf8_decode_encode: "utf8_encode s = Inr b \<Longrightarrow> utf8_decode b = Some s"
  by (auto simp: utf8_encode_def utf8_decode_def rbind_eq_Inr unat_of_nat_bytes [OF enc_text_bytes, simplified]
      dec_enc_text)

lemma enc_two:
  assumes "cont b1" and "194 \<le> b0" and "b0 \<le> 223" and "c = (b0 - 192) * 64 + (b1 - 128)"
  shows "enc_char c = Inr [b0, b1]"
proof -
  have b1: "b1 - 128 < 64" using assms(1) by (auto simp: cont_def)
  then have "c div 64 = b0 - 192" "c mod 64 = b1 - 128" using join64 [OF b1] by (simp_all only: assms(4))
  moreover have "0x80 \<le> c" "c < 0x800" using assms(2-4) b1 by linarith+
  ultimately show ?thesis using assms(1-3) by (simp add: enc_char_def cont_def)
qed

lemma enc_three:
  assumes "cont b1" and "cont b2" and "224 \<le> b0" and "b0 \<le> 239"
    and "c = (b0 - 224) * 4096 + (b1 - 128) * 64 + (b2 - 128)" and "0x800 \<le> c" and "\<not> surrogate c"
  shows "enc_char c = Inr [b0, b1, b2]"
proof -
  have "b1 - 128 < 64" "b2 - 128 < 64" using assms(1,2) by (auto simp: cont_def)
  from join4096 [OF this assms(5)] have "c div 4096 = b0 - 224" "c div 64 mod 64 = b1 - 128" "c mod 64 = b2 - 128"
    by simp_all
  moreover have "c < 0x10000" using assms by (auto simp: cont_def)
  ultimately show ?thesis using assms(1-4,6,7) by (simp add: enc_char_def cont_def)
qed

lemma enc_four:
  assumes "cont b1" and "cont b2" and "cont b3" and "240 \<le> b0" and "b0 \<le> 244"
    and "c = (b0 - 240) * 262144 + (b1 - 128) * 4096 + (b2 - 128) * 64 + (b3 - 128)"
    and "0x10000 \<le> c" and "c < 0x110000"
  shows "enc_char c = Inr [b0, b1, b2, b3]"
proof -
  have "b1 - 128 < 64" "b2 - 128 < 64" "b3 - 128 < 64" using assms(1-3) by (auto simp: cont_def)
  from join262144 [OF this assms(6)] have "c div 262144 = b0 - 240" "c div 4096 mod 64 = b1 - 128"
      "c div 64 mod 64 = b2 - 128" "c mod 64 = b3 - 128"
    by simp_all
  with assms(1-5,7,8) show ?thesis by (simp add: enc_char_def cont_def surrogate_def)
qed

lemma enc_dec_text: "dec_text bs = Some s \<Longrightarrow> enc_text s = Inr bs"
proof (induction bs arbitrary: s rule: dec_text.induct)
  case 1
  then show ?case by simp
next
  case (2 b0 r)
  consider (one) "b0 < 128" | (two) "194 \<le> b0" "b0 \<le> 223" | (three) "224 \<le> b0" "b0 \<le> 239"
    | (four) "240 \<le> b0" "b0 \<le> 244"
    using "2.prems" by (auto split: if_splits)
  then show ?case
  proof cases
    case one
    with "2.prems" obtain t where "dec_text r = Some t" "s = b0 # t" by auto
    with one "2.IH"(1) show ?thesis by (simp add: enc_char_def)
  next
    case two
    with "2.prems" obtain b1 r1 t where r: "r = b1 # r1" "cont b1" "dec_text r1 = Some t"
      and s: "s = ((b0 - 192) * 64 + (b1 - 128)) # t"
      by (auto split: list.splits if_splits)
    have "enc_text t = Inr r1" using "2.IH"(2) two r by auto
    then show ?thesis unfolding s r enc_text.simps enc_two [OF r(2) two refl] by simp
  next
    case three
    with "2.prems" obtain b1 b2 r2 t where r: "r = b1 # b2 # r2" "dec_text r2 = Some t"
      and c: "cont b1" "cont b2" "0x800 \<le> (b0 - 224) * 4096 + (b1 - 128) * 64 + (b2 - 128)"
        "\<not> surrogate ((b0 - 224) * 4096 + (b1 - 128) * 64 + (b2 - 128))"
      and s: "s = ((b0 - 224) * 4096 + (b1 - 128) * 64 + (b2 - 128)) # t"
      by (auto simp: Let_def split: list.splits if_splits)
    have "enc_text t = Inr r2" using "2.IH"(3) three r c by auto
    then show ?thesis unfolding s r enc_text.simps enc_three [OF c(1,2) three refl c(3,4)] by simp
  next
    case four
    with "2.prems" obtain b1 b2 b3 r3 t where r: "r = b1 # b2 # b3 # r3" "dec_text r3 = Some t"
      and c: "cont b1" "cont b2" "cont b3"
        "0x10000 \<le> (b0 - 240) * 262144 + (b1 - 128) * 4096 + (b2 - 128) * 64 + (b3 - 128)"
        "(b0 - 240) * 262144 + (b1 - 128) * 4096 + (b2 - 128) * 64 + (b3 - 128) < 0x110000"
      and s: "s = ((b0 - 240) * 262144 + (b1 - 128) * 4096 + (b2 - 128) * 64 + (b3 - 128)) # t"
      by (auto simp: Let_def split: list.splits if_splits)
    have "enc_text t = Inr r3" using "2.IH"(4) four r c by auto
    then show ?thesis unfolding s r enc_text.simps enc_four [OF c(1-3) four refl c(4,5)] by simp
  qed
qed

lemma utf8_encode_decode: "utf8_decode b = Some s \<Longrightarrow> utf8_encode s = Inr b"
  by (auto simp: utf8_encode_def utf8_decode_def dest!: enc_dec_text)
    (simp add: o_def)

interpretation utf8: strict_codec
  "\<lambda>s b. utf8_encode s = Inr b" "\<lambda>b s. utf8_decode b = Some s" "\<lambda>s. is_ok (utf8_encode s)"
  by unfold_locales (auto simp: is_ok_iff utf8_decode_encode dest: utf8_encode_decode)

text \<open>ASCII text is its own encoding, byte for character.\<close>

lemma enc_text_ascii: "is_ascii s \<Longrightarrow> enc_text s = Inr s"
  by (induction s) (auto simp: is_ascii_def enc_char_def)

lemma utf8_encode_ascii: "is_ascii s \<Longrightarrow> utf8_encode s = Inr (map of_nat s)"
  by (simp add: utf8_encode_def enc_text_ascii)

section \<open>Properties\<close>

text \<open>
  Python's strict UTF-8 decoder accepts exactly the bytes that encoding a text gives, and
  returns that text; no byte string is the encoding of two texts.
\<close>

theorem utf8_decode_exact:
  "utf8_decode b = Some s \<longleftrightarrow> utf8_encode s = Inr b"
  using utf8.decodes_iff [of b s] by auto

end
