(* ===== verification/PeerConnection.thy ===== *)
theory PeerConnection
  imports Framing Sdp Utf8
begin

text \<open>
  The class \<open>PeerConnection\<close> of \<open>transport/peer_connection.py\<close>: two data channels, the packet
  queue behind them, and the buffering of fragments and remote candidates. aiortc's objects
  are not modelled: a data channel is a number, and what the class asks aiortc or its owner to
  do is the list of \<open>pc_call\<close>s a method makes, in order. A coroutine is cut at its awaits; the
  pieces between two awaits are the functions here, and \<open>Session\<close> puts them together.
\<close>

section \<open>State\<close>

datatype 'c pc_call =
    ChannelSend bool nat bytes     \<comment> \<open>\<open>channel.send(fragment)\<close>: reliable?, channel, fragment\<close>
  | AddIceCandidate "'c \<times> nat"
  | SetRemoteDescription pystr pystr
  | ChannelsOpenCb
  | PacketCb bytes

record 'c peer_connection =
  relay_only :: bool
  has_on_packet :: bool
  has_on_channels_open :: bool
  packets :: packet_queue
  reliable_channel :: "nat option"
  unreliable_channel :: "nat option"
  reliable_open :: bool
  unreliable_open :: bool
  pending_reliable :: "bytes list"
  pending_unreliable :: "bytes list"
  channels_open_fired :: bool
  remote_description_set :: bool
  pending_remote_candidates :: "('c \<times> nat) list"

type_synonym 'c pc_result = "'c pc_call list \<times> 'c peer_connection"

definition RELIABLE_LABEL :: pystr where "RELIABLE_LABEL = lit ''ReliableDataChannel''"
definition UNRELIABLE_LABEL :: pystr where "UNRELIABLE_LABEL = lit ''UnreliableDataChannel''"

definition channel_of :: "bool \<Rightarrow> 'c peer_connection \<Rightarrow> nat option" where
  "channel_of rel pc = (if rel then reliable_channel pc else unreliable_channel pc)"

definition is_open :: "bool \<Rightarrow> 'c peer_connection \<Rightarrow> bool" where
  "is_open rel pc = (if rel then reliable_open pc else unreliable_open pc)"

definition pending_of :: "bool \<Rightarrow> 'c peer_connection \<Rightarrow> bytes list" where
  "pending_of rel pc = (if rel then pending_reliable pc else pending_unreliable pc)"

definition set_channel :: "bool \<Rightarrow> nat \<Rightarrow> 'c peer_connection \<Rightarrow> 'c peer_connection" where
  "set_channel rel ch pc =
     (if rel then pc\<lparr>reliable_channel := Some ch\<rparr> else pc\<lparr>unreliable_channel := Some ch\<rparr>)"

definition set_open :: "bool \<Rightarrow> 'c peer_connection \<Rightarrow> 'c peer_connection" where
  "set_open rel pc = (if rel then pc\<lparr>reliable_open := True\<rparr> else pc\<lparr>unreliable_open := True\<rparr>)"

definition set_pending :: "bool \<Rightarrow> bytes list \<Rightarrow> 'c peer_connection \<Rightarrow> 'c peer_connection" where
  "set_pending rel fs pc =
     (if rel then pc\<lparr>pending_reliable := fs\<rparr> else pc\<lparr>pending_unreliable := fs\<rparr>)"

lemmas channel_accessors =
  channel_of_def is_open_def pending_of_def set_channel_def set_open_def set_pending_def

section \<open>Data channels\<close>

definition channel_send :: "bool \<Rightarrow> bytes \<Rightarrow> 'c peer_connection \<Rightarrow> 'c pc_result" where
  "channel_send rel fragment pc =
     (case channel_of rel pc of
        Some ch \<Rightarrow>
          if is_open rel pc then ([ChannelSend rel ch fragment], pc)
          else ([], set_pending rel (pending_of rel pc @ [fragment]) pc)
      | None \<Rightarrow> ([], set_pending rel (pending_of rel pc @ [fragment]) pc))"

fun channel_sends :: "(send_type \<times> bytes) list \<Rightarrow> 'c peer_connection \<Rightarrow> 'c pc_result" where
  "channel_sends [] pc = ([], pc)"
| "channel_sends ((t, f) # fs) pc =
     (let (calls, pc1) = channel_send (t = Reliable) f pc; (calls', pc2) = channel_sends fs pc1
      in (calls @ calls', pc2))"

definition pc_send :: "bytes \<Rightarrow> send_type \<Rightarrow> 'c peer_connection \<Rightarrow> (bool \<times> 'c pc_result) result" where
  "pc_send data t pc = rbind (push data t) (\<lambda>(accepted, fs). Inr (accepted, channel_sends fs pc))"

text \<open>
  \<open>_handle_channel_open\<close>. The flush loop sends on \<open>self._reliable\<close> or \<open>self._unreliable\<close>;
  the method is only called for a registered channel, so that is never \<open>None\<close>.
\<close>

definition flush_calls :: "bool \<Rightarrow> 'c peer_connection \<Rightarrow> 'c pc_call list" where
  "flush_calls rel pc =
     (case channel_of rel pc of None \<Rightarrow> [] | Some ch \<Rightarrow> map (ChannelSend rel ch) (pending_of rel pc))"

definition handle_channel_open :: "bool \<Rightarrow> 'c peer_connection \<Rightarrow> 'c pc_result" where
  "handle_channel_open rel pc =
     (if is_open rel pc then ([], pc)
      else let pc1 = set_open rel pc; sends = flush_calls rel pc1; pc2 = set_pending rel [] pc1 in
        if reliable_open pc2 \<and> unreliable_open pc2 \<and> \<not> channels_open_fired pc2 \<and> has_on_channels_open pc2
        then (sends @ [ChannelsOpenCb], pc2\<lparr>channels_open_fired := True\<rparr>)
        else (sends, pc2))"

definition register_channel :: "nat \<Rightarrow> pystr \<Rightarrow> bool \<Rightarrow> 'c peer_connection \<Rightarrow> 'c pc_result" where
  "register_channel ch label ready_open pc =
     (let rel = (label = RELIABLE_LABEL); pc1 = set_channel rel ch pc in
      if ready_open then handle_channel_open rel pc1 else ([], pc1))"

datatype channel_payload = PBytes bytes | PText pystr

definition payload_bytes :: "channel_payload \<Rightarrow> bytes result" where
  "payload_bytes m = (case m of PBytes b \<Rightarrow> Inr b | PText s \<Rightarrow> utf8_encode s)"

text \<open>\<open>_deliver\<close>: the loop ends when the queue is empty, after one round more than it holds.\<close>

definition deliver :: "'c peer_connection \<Rightarrow> 'c pc_result" where
  "deliver pc =
     (if \<not> has_on_packet pc then ([], pc)
      else let (ps, q) = drain (read None) (Suc (length (received (packets pc)))) (packets pc)
        in (map PacketCb ps, pc\<lparr>packets := q\<rparr>))"

definition handle_channel_message :: "bool \<Rightarrow> channel_payload \<Rightarrow> 'c peer_connection \<Rightarrow> 'c pc_result result" where
  "handle_channel_message rel message pc =
     rbind (payload_bytes message) (\<lambda>data.
       Inr (deliver (pc\<lparr>packets :=
         (if rel then on_reliable_message data (packets pc) else on_unreliable_message data (packets pc))\<rparr>)))"

definition pc_read :: "int option \<Rightarrow> 'c peer_connection \<Rightarrow> bytes option \<times> 'c peer_connection" where
  "pc_read m pc = (let (b, q) = read m (packets pc) in (b, pc\<lparr>packets := q\<rparr>))"

definition pc_peek :: "'c peer_connection \<Rightarrow> nat option" where
  "pc_peek pc = peek (packets pc)"

section \<open>Construction\<close>

definition bare_pc :: "bool \<Rightarrow> bool \<Rightarrow> bool \<Rightarrow> 'c peer_connection" where
  "bare_pc relay on_pkt on_open =
     \<lparr>relay_only = relay, has_on_packet = on_pkt, has_on_channels_open = on_open,
      packets = new_queue, reliable_channel = None, unreliable_channel = None,
      reliable_open = False, unreliable_open = False, pending_reliable = [], pending_unreliable = [],
      channels_open_fired = False, remote_description_set = False, pending_remote_candidates = []\<rparr>"

text \<open>
  \<open>__init__\<close>: the dialer creates channels 0 and 1; a data channel created before the
  negotiation is in the state "connecting", so none is open yet.
\<close>

definition new_pc :: "bool \<Rightarrow> bool \<Rightarrow> bool \<Rightarrow> bool \<Rightarrow> 'c peer_connection" where
  "new_pc dialer relay on_pkt on_open =
     (if dialer
      then snd (register_channel 1 UNRELIABLE_LABEL False
             (snd (register_channel 0 RELIABLE_LABEL False (bare_pc relay on_pkt on_open))))
      else bare_pc relay on_pkt on_open)"

section \<open>Negotiation, between the awaits\<close>

definition local_sdp :: "(nat \<Rightarrow> nat option) \<Rightarrow> 'c peer_connection \<Rightarrow> pystr \<Rightarrow> pystr" where
  "local_sdp udec pc raw =
     (let sdp = set_max_message_size udec MAX_MESSAGE_SIZE raw in
      if relay_only pc then keep_only_relay_candidates sdp else sdp)"

text \<open>\<open>add_remote_candidate\<close>: \<open>None\<close> when aiortc's parser raises.\<close>

definition add_remote_candidate ::
    "(pystr \<Rightarrow> 'c option) \<Rightarrow> pystr \<Rightarrow> 'c peer_connection \<Rightarrow> 'c pc_result option" where
  "add_remote_candidate from_sdp text pc =
     (case candidate_from_message from_sdp text of
        None \<Rightarrow> None
      | Some c \<Rightarrow>
          if remote_description_set pc then Some ([AddIceCandidate c], pc)
          else Some ([], pc\<lparr>pending_remote_candidates := pending_remote_candidates pc @ [c]\<rparr>))"

text \<open>
  \<open>_flush_remote_candidates\<close>: \<open>flush_begin\<close> up to the loop, \<open>flush_next i\<close> the loop test at
  index \<open>i\<close> of the live list: the next candidate to add, or the end of the loop and the \<open>clear\<close>.
\<close>

definition flush_begin :: "'c peer_connection \<Rightarrow> 'c peer_connection" where
  "flush_begin pc = pc\<lparr>remote_description_set := True\<rparr>"

definition flush_next :: "nat \<Rightarrow> 'c peer_connection \<Rightarrow> ('c \<times> nat) option \<times> 'c peer_connection" where
  "flush_next i pc =
     (if i < length (pending_remote_candidates pc) then (Some (pending_remote_candidates pc ! i), pc)
      else (None, pc\<lparr>pending_remote_candidates := []\<rparr>))"

section \<open>The channel side as a machine\<close>

datatype pc_event =
    PcSend bytes send_type
  | PcRegister nat pystr bool
  | PcOpen bool                 \<comment> \<open>an \<open>open\<close> event; only a registered channel raises one\<close>
  | PcMessage bool channel_payload

text \<open>The state with the log of the calls made so far; a method that raises changes nothing.\<close>

type_synonym 'c pc_log = "'c peer_connection \<times> 'c pc_call list"

definition logged :: "'c pc_call list \<Rightarrow> 'c pc_result \<Rightarrow> 'c pc_log" where
  "logged log r = (snd r, log @ fst r)"

fun pc_step :: "'c pc_log \<Rightarrow> pc_event \<Rightarrow> 'c pc_log" where
  "pc_step (pc, log) (PcSend d t) =
     (case pc_send d t pc of Inl _ \<Rightarrow> (pc, log) | Inr (_, r) \<Rightarrow> logged log r)"
| "pc_step (pc, log) (PcRegister ch label ready) = logged log (register_channel ch label ready pc)"
| "pc_step (pc, log) (PcOpen rel) =
     (if channel_of rel pc = None then (pc, log) else logged log (handle_channel_open rel pc))"
| "pc_step (pc, log) (PcMessage rel m) =
     (case handle_channel_message rel m pc of Inl _ \<Rightarrow> (pc, log) | Inr r \<Rightarrow> logged log r)"

abbreviation pc_run :: "'c pc_log \<Rightarrow> pc_event list \<Rightarrow> 'c pc_log" where
  "pc_run \<equiv> foldl pc_step"

text \<open>What was sent on the reliable (unreliable) side, and which packets the owner got.\<close>

definition sent :: "bool \<Rightarrow> 'c pc_call list \<Rightarrow> bytes list" where
  "sent rel log = List.map_filter (\<lambda>c. case c of ChannelSend r _ f \<Rightarrow> if r = rel then Some f else None | _ \<Rightarrow> None) log"

definition delivered :: "'c pc_call list \<Rightarrow> bytes list" where
  "delivered log = List.map_filter (\<lambda>c. case c of PacketCb p \<Rightarrow> Some p | _ \<Rightarrow> None) log"

definition open_calls :: "'c pc_call list \<Rightarrow> nat" where
  "open_calls log = length (filter (\<lambda>c. c = ChannelsOpenCb) log)"

lemma sent_append [simp]: "sent rel (a @ b) = sent rel a @ sent rel b"
  by (simp add: sent_def map_filter_def)

lemma delivered_append [simp]: "delivered (a @ b) = delivered a @ delivered b"
  by (simp add: delivered_def map_filter_def)

lemma open_calls_append [simp]: "open_calls (a @ b) = open_calls a + open_calls b"
  by (simp add: open_calls_def)

lemma log_simps [simp]:
  "sent rel [] = []" "delivered [] = []" "open_calls [] = 0"
  "sent rel (ChannelSend r ch f # l) = (if r = rel then f # sent rel l else sent rel l)"
  "sent rel (ChannelsOpenCb # l) = sent rel l" "sent rel (PacketCb p # l) = sent rel l"
  "delivered (ChannelSend r ch f # l) = delivered l" "delivered (ChannelsOpenCb # l) = delivered l"
  "delivered (PacketCb p # l) = p # delivered l"
  "open_calls (ChannelSend r ch f # l) = open_calls l" "open_calls (ChannelsOpenCb # l) = Suc (open_calls l)"
  "open_calls (PacketCb p # l) = open_calls l"
  by (simp_all add: sent_def delivered_def open_calls_def map_filter_def)

lemma mapped_sends [simp]:
  "sent rel (map (ChannelSend r ch) fs) = (if r = rel then fs else [])"
  "delivered (map (ChannelSend r ch) fs) = []" "open_calls (map (ChannelSend r ch) fs) = 0"
  by (cases "r = rel"; induction fs; simp)+

lemma mapped_packets [simp]:
  "sent rel (map PacketCb ps) = []" "delivered (map PacketCb ps) = ps" "open_calls (map PacketCb ps) = 0"
  by (induction ps; simp)+

section \<open>The invariant of the channels\<close>

text \<open>
  An open channel exists and has nothing pending; the packet callback leaves no packet in the
  queue; the owner was told once that both channels are open, exactly when both are.
\<close>

definition channels_ok :: "'c peer_connection \<Rightarrow> bool" where
  "channels_ok pc \<longleftrightarrow>
     (reliable_open pc \<longrightarrow> reliable_channel pc \<noteq> None \<and> pending_reliable pc = []) \<and>
     (unreliable_open pc \<longrightarrow> unreliable_channel pc \<noteq> None \<and> pending_unreliable pc = []) \<and>
     (has_on_packet pc \<longrightarrow> received (packets pc) = []) \<and>
     (channels_open_fired pc \<longleftrightarrow> reliable_open pc \<and> unreliable_open pc \<and> has_on_channels_open pc)"

definition pc_inv :: "'c pc_log \<Rightarrow> bool" where
  "pc_inv = (\<lambda>(pc, log). channels_ok pc \<and> open_calls log = of_bool (channels_open_fired pc))"

text \<open>The fields a channel operation leaves alone.\<close>

definition same_config :: "'c peer_connection \<Rightarrow> 'c peer_connection \<Rightarrow> bool" where
  "same_config pc pc' \<longleftrightarrow>
     relay_only pc' = relay_only pc \<and> has_on_packet pc' = has_on_packet pc \<and>
     has_on_channels_open pc' = has_on_channels_open pc \<and>
     remote_description_set pc' = remote_description_set pc \<and>
     pending_remote_candidates pc' = pending_remote_candidates pc"

lemma same_config_trans: "same_config a b \<Longrightarrow> same_config b c \<Longrightarrow> same_config a c"
  by (simp add: same_config_def)

lemma channel_send_spec:
  assumes "channels_ok pc" and "channel_send rel f pc = (calls, pc')"
  shows "channels_ok pc' \<and> same_config pc pc' \<and> open_calls calls = 0 \<and> delivered calls = [] \<and>
    channels_open_fired pc' = channels_open_fired pc \<and> is_open r pc' = is_open r pc \<and>
    packets pc' = packets pc \<and>
    sent r calls @ pending_of r pc' = pending_of r pc @ (if r = rel then [f] else [])"
proof (cases "channel_of rel pc \<noteq> None \<and> is_open rel pc")
  case True
  then have "calls = [ChannelSend rel (the (channel_of rel pc)) f]" "pc' = pc" "pending_of rel pc = []"
    using assms by (auto simp: channel_send_def channels_ok_def channel_accessors split: if_splits)
  with assms(1) show ?thesis by (auto simp: same_config_def)
next
  case False
  then have out: "calls = []" "pc' = set_pending rel (pending_of rel pc @ [f]) pc"
    using assms by (auto simp: channel_send_def split: option.splits)
  from False assms(1) have closed: "\<not> is_open rel pc"
    by (cases rel) (auto simp: channels_ok_def channel_accessors)
  show ?thesis
  proof (cases rel)
    case True
    with closed assms(1) show ?thesis
      unfolding out by (simp add: channels_ok_def same_config_def channel_accessors)
  next
    case False
    with closed assms(1) show ?thesis
      unfolding out by (simp add: channels_ok_def same_config_def channel_accessors)
  qed
qed

lemma channel_sends_spec:
  assumes "channels_ok pc" and "channel_sends fs pc = (calls, pc')"
  shows "channels_ok pc' \<and> same_config pc pc' \<and> open_calls calls = 0 \<and> delivered calls = [] \<and>
    channels_open_fired pc' = channels_open_fired pc \<and> is_open r pc' = is_open r pc \<and>
    packets pc' = packets pc \<and>
    sent r calls @ pending_of r pc' = pending_of r pc @ map snd (filter (\<lambda>(t, _). (t = Reliable) = r) fs)"
  using assms
proof (induction fs arbitrary: pc calls pc')
  case Nil
  then show ?case by (simp add: same_config_def)
next
  case (Cons tf fs)
  obtain t f where tf: "tf = (t, f)" by (cases tf)
  obtain c1 pc1 where one: "channel_send (t = Reliable) f pc = (c1, pc1)" by fastforce
  obtain c2 pc2 where two: "channel_sends fs pc1 = (c2, pc2)" by fastforce
  have out: "calls = c1 @ c2" "pc' = pc2" using Cons.prems one two by (simp_all add: tf)
  note spec1 = channel_send_spec [OF Cons.prems(1) one, of r]
  note spec2 = Cons.IH [OF conjunct1 [OF spec1] two]
  have "sent r calls @ pending_of r pc' = sent r c1 @ (sent r c2 @ pending_of r pc2)" by (simp add: out)
  also have "\<dots> = (sent r c1 @ pending_of r pc1) @ map snd (filter (\<lambda>(t, _). (t = Reliable) = r) fs)"
    using spec2 out by simp
  also have "\<dots> = pending_of r pc @ map snd (filter (\<lambda>(t, _). (t = Reliable) = r) (tf # fs))"
    using spec1 by (simp add: tf)
  finally show ?case using spec1 spec2 same_config_trans [of pc pc1 pc2] by (simp add: out)
qed

lemma open_side_spec:
  assumes "channels_ok pc" and "channel_of rel pc = Some ch" and "\<not> is_open rel pc"
    and "pc2 = set_pending rel [] (set_open rel pc)"
  shows "same_config pc pc2" and "packets pc2 = packets pc"
    and "channels_open_fired pc2 = channels_open_fired pc" and "\<not> channels_open_fired pc"
    and "is_open rel pc2" and "is_open (\<not> rel) pc2 = is_open (\<not> rel) pc"
    and "flush_calls rel (set_open rel pc) = map (ChannelSend rel ch) (pending_of rel pc)"
    and "pending_of rel pc2 = []" and "pending_of (\<not> rel) pc2 = pending_of (\<not> rel) pc"
    and "channel_of r pc2 = channel_of r pc"
proof -
  note defs = channels_ok_def same_config_def channel_accessors flush_calls_def
  have rel: "rel = True \<or> rel = False" by simp
  then show "same_config pc pc2" "packets pc2 = packets pc"
      "channels_open_fired pc2 = channels_open_fired pc" "is_open rel pc2"
      "pending_of rel pc2 = []" "flush_calls rel (set_open rel pc) = map (ChannelSend rel ch) (pending_of rel pc)"
    using assms(2,4) by (elim disjE; simp add: defs)+
  from rel show "\<not> channels_open_fired pc" using assms(1,3) by (elim disjE; simp add: defs)
  from rel show "is_open (\<not> rel) pc2 = is_open (\<not> rel) pc" "pending_of (\<not> rel) pc2 = pending_of (\<not> rel) pc"
      "channel_of r pc2 = channel_of r pc"
    using assms(4) by (elim disjE; simp add: defs)+
qed

lemma open_side_ok:
  assumes "channels_ok pc" and "channel_of rel pc = Some ch" and "\<not> is_open rel pc"
    and "pc2 = set_pending rel [] (set_open rel pc)"
    and "fire = (reliable_open pc2 \<and> unreliable_open pc2 \<and> has_on_channels_open pc2)"
  shows "channels_ok (if fire then pc2\<lparr>channels_open_fired := True\<rparr> else pc2)"
proof (cases rel)
  case True
  with assms(2,3) have "reliable_channel pc = Some ch" "\<not> reliable_open pc" by (simp_all add: channel_accessors)
  then show ?thesis using assms(1) unfolding assms(4,5) by (simp add: True channels_ok_def channel_accessors)
next
  case False
  with assms(2,3) have "unreliable_channel pc = Some ch" "\<not> unreliable_open pc" by (simp_all add: channel_accessors)
  then show ?thesis using assms(1) unfolding assms(4,5) by (simp add: False channels_ok_def channel_accessors)
qed

lemma handle_channel_open_spec:
  assumes "channels_ok pc" and "channel_of rel pc \<noteq> None" and "handle_channel_open rel pc = (calls, pc')"
  shows "channels_ok pc' \<and> same_config pc pc' \<and> delivered calls = [] \<and> is_open rel pc' \<and>
    packets pc' = packets pc \<and>
    of_bool (channels_open_fired pc) + open_calls calls = (of_bool (channels_open_fired pc') :: nat) \<and>
    sent r calls @ pending_of r pc' = pending_of r pc"
proof (cases "is_open rel pc")
  case True
  with assms show ?thesis by (simp add: handle_channel_open_def same_config_def)
next
  case False
  obtain ch where ch: "channel_of rel pc = Some ch" using assms(2) by blast
  define pc2 where "pc2 = set_pending rel [] (set_open rel pc)"
  note side = open_side_spec [OF assms(1) ch False pc2_def]
  define fire where "fire = (reliable_open pc2 \<and> unreliable_open pc2 \<and> has_on_channels_open pc2)"
  have out: "calls = map (ChannelSend rel ch) (pending_of rel pc) @ (if fire then [ChannelsOpenCb] else [])"
      "pc' = (if fire then pc2\<lparr>channels_open_fired := True\<rparr> else pc2)"
    using assms(3) False side(3,4,7) by (auto simp: handle_channel_open_def fire_def pc2_def Let_def)
  have "channels_ok pc'"
    using out(2) open_side_ok [OF assms(1) ch False pc2_def fire_def] by simp
  moreover have "sent r calls @ pending_of r pc' = pending_of r pc"
    using side(8,9) by (cases rel; cases r) (simp_all add: out pending_of_def)
  ultimately show ?thesis
    using side by (simp add: out same_config_def is_open_def)
qed

lemma set_channel_ok:
  "channels_ok pc \<Longrightarrow> channels_ok (set_channel rel ch pc) \<and> same_config pc (set_channel rel ch pc) \<and>
    channels_open_fired (set_channel rel ch pc) = channels_open_fired pc \<and>
    packets (set_channel rel ch pc) = packets pc \<and>
    channel_of rel (set_channel rel ch pc) = Some ch \<and> pending_of r (set_channel rel ch pc) = pending_of r pc"
  by (cases rel; cases r) (auto simp: channels_ok_def same_config_def channel_accessors)

lemma register_channel_spec:
  assumes "channels_ok pc" and "register_channel ch label ready pc = (calls, pc')"
  shows "channels_ok pc' \<and> same_config pc pc' \<and> delivered calls = [] \<and> packets pc' = packets pc \<and>
    of_bool (channels_open_fired pc) + open_calls calls = (of_bool (channels_open_fired pc') :: nat) \<and>
    sent r calls @ pending_of r pc' = pending_of r pc"
proof -
  define rel where "rel = (label = RELIABLE_LABEL)"
  note set = set_channel_ok [OF assms(1), of rel ch r]
  show ?thesis
  proof (cases ready)
    case True
    with assms(2) have "handle_channel_open rel (set_channel rel ch pc) = (calls, pc')"
      by (simp add: register_channel_def rel_def Let_def)
    from handle_channel_open_spec [OF _ _ this, of r] set same_config_trans show ?thesis by auto
  next
    case False
    with assms(2) set show ?thesis by (auto simp: register_channel_def rel_def Let_def)
  qed
qed

lemma deliver_spec:
  assumes "deliver pc = (calls, pc')"
  shows "open_calls calls = 0 \<and> sent r calls = [] \<and>
    pc' = pc\<lparr>packets := packets pc'\<rparr> \<and>
    (has_on_packet pc \<longrightarrow> delivered calls = received (packets pc) \<and> received (packets pc') = []) \<and>
    (\<not> has_on_packet pc \<longrightarrow> calls = [] \<and> pc' = pc)"
proof (cases "has_on_packet pc")
  case True
  obtain q where q: "drain (read None) (Suc (length (received (packets pc)))) (packets pc)
      = (received (packets pc), q)" "received q = []"
    using rx.drain_all [of "packets pc" "Suc (length (received (packets pc)))"] by auto
  with True assms show ?thesis by (auto simp: deliver_def)
next
  case False
  with assms show ?thesis by (auto simp: deliver_def)
qed

lemma packets_update_ok:
  "channels_ok pc \<Longrightarrow> (has_on_packet pc \<longrightarrow> received q = []) \<Longrightarrow>
    channels_ok (pc\<lparr>packets := q\<rparr>) \<and> same_config pc (pc\<lparr>packets := q\<rparr>)"
  by (auto simp: channels_ok_def same_config_def channel_accessors)

lemma packets_update_only:
  "pc' = pc\<lparr>packets := q\<rparr> \<Longrightarrow> pending_of r pc' = pending_of r pc \<and>
    channels_open_fired pc' = channels_open_fired pc"
  by (simp add: pending_of_def)

lemma handle_channel_message_spec:
  assumes "channels_ok pc" and "handle_channel_message rel m pc = Inr (calls, pc')"
  shows "channels_ok pc' \<and> same_config pc pc' \<and> open_calls calls = 0 \<and>
    channels_open_fired pc' = channels_open_fired pc \<and>
    sent r calls = [] \<and> pending_of r pc' = pending_of r pc"
proof -
  from assms(2) obtain data where "deliver (pc\<lparr>packets :=
      (if rel then on_reliable_message data (packets pc) else on_unreliable_message data (packets pc))\<rparr>) = (calls, pc')"
    by (auto simp: handle_channel_message_def rbind_eq_Inr)
  note d = deliver_spec [OF this, of r]
  show ?thesis
  proof (cases "has_on_packet pc")
    case True
    with d have eq: "pc' = pc\<lparr>packets := packets pc'\<rparr>" and "received (packets pc') = []" by auto
    with packets_update_ok [OF assms(1), of "packets pc'"] have "channels_ok pc'" "same_config pc pc'" by auto
    with packets_update_only [OF eq, of r] d show ?thesis by simp
  next
    case False
    with d packets_update_ok [OF assms(1)] show ?thesis by (auto simp: channel_accessors)
  qed
qed

section \<open>Runs of channel events\<close>

text \<open>What \<open>pc_send\<close> asks to be sent on a side, whether or not the side is open yet.\<close>

fun requested_by :: "bool \<Rightarrow> pc_event \<Rightarrow> bytes list" where
  "requested_by rel (PcSend d t) =
     (case push d t of Inl _ \<Rightarrow> [] | Inr (_, fs) \<Rightarrow> map snd (filter (\<lambda>(t, _). (t = Reliable) = rel) fs))"
| "requested_by rel _ = []"

definition requested :: "bool \<Rightarrow> pc_event list \<Rightarrow> bytes list" where
  "requested rel es = concat (map (requested_by rel) es)"

lemma requested_simps [simp]:
  "requested rel [] = []" "requested rel (e # es) = requested_by rel e @ requested rel es"
  by (simp_all add: requested_def)

text \<open>One event: the invariant, what is left alone, and the order of the fragments.\<close>

lemma pc_step_spec:
  assumes "channels_ok pc" and "pc_step (pc, log) e = (pc', log')"
  shows "channels_ok pc' \<and> same_config pc pc' \<and>
    (\<exists>calls. log' = log @ calls \<and>
      of_bool (channels_open_fired pc) + open_calls calls = (of_bool (channels_open_fired pc') :: nat) \<and>
      sent r calls @ pending_of r pc' = pending_of r pc @ requested_by r e)"
proof (cases e)
  case (PcSend d t)
  show ?thesis
  proof (cases "push d t")
    case (Inl x)
    with PcSend assms show ?thesis by (simp add: pc_send_def same_config_def)
  next
    case (Inr y)
    obtain a fs where y: "y = (a, fs)" by (cases y)
    obtain calls where c: "channel_sends fs pc = (calls, pc')" "log' = log @ calls"
      using assms(2) PcSend Inr y by (auto simp: pc_send_def logged_def prod_eq_iff)
    from channel_sends_spec [OF assms(1) c(1), of r] c PcSend Inr y show ?thesis by simp
  qed
next
  case (PcRegister ch label ready)
  obtain calls where c: "register_channel ch label ready pc = (calls, pc')" "log' = log @ calls"
    using assms(2) PcRegister by (auto simp: logged_def prod_eq_iff)
  from register_channel_spec [OF assms(1) c(1), of r] c PcRegister show ?thesis by simp
next
  case (PcOpen rel)
  show ?thesis
  proof (cases "channel_of rel pc = None")
    case True
    with PcOpen assms show ?thesis by (simp add: same_config_def)
  next
    case False
    obtain calls where c: "handle_channel_open rel pc = (calls, pc')" "log' = log @ calls"
      using assms(2) PcOpen False by (auto simp: logged_def prod_eq_iff)
    from handle_channel_open_spec [OF assms(1) False c(1), of r] c PcOpen show ?thesis by simp
  qed
next
  case (PcMessage rel m)
  show ?thesis
  proof (cases "handle_channel_message rel m pc")
    case (Inl x)
    with PcMessage assms show ?thesis by (simp add: same_config_def)
  next
    case (Inr y)
    obtain calls where c: "y = (calls, pc')" "log' = log @ calls"
      using assms(2) PcMessage Inr by (auto simp: logged_def prod_eq_iff)
    from handle_channel_message_spec [OF assms(1) Inr [unfolded c(1)], of r] c PcMessage show ?thesis by simp
  qed
qed

lemma new_pc_ok: "channels_ok (new_pc dialer relay on_pkt on_open)"
  by (simp add: new_pc_def bare_pc_def register_channel_def set_channel_def channels_ok_def
      new_queue_def Let_def)

lemma new_pc_pending [simp]: "pending_of r (new_pc dialer relay on_pkt on_open) = []"
  by (simp add: new_pc_def bare_pc_def register_channel_def set_channel_def pending_of_def Let_def)

definition fresh_pc :: "'c pc_log \<Rightarrow> bool" where
  "fresh_pc s \<longleftrightarrow> (\<exists>dialer relay on_pkt on_open. s = (new_pc dialer relay on_pkt on_open, []))"

lemma new_pc_closed [simp]: "\<not> channels_open_fired (new_pc dialer relay on_pkt on_open)"
  by (simp add: new_pc_def bare_pc_def register_channel_def set_channel_def Let_def)

interpretation pc_machine: state_machine pc_step fresh_pc pc_inv
proof unfold_locales
  fix s :: "'a pc_log"
  assume "fresh_pc s"
  then show "pc_inv s" by (auto simp: fresh_pc_def pc_inv_def new_pc_ok)
next
  fix s :: "'a pc_log" and e
  assume inv: "pc_inv s"
  obtain pc log pc' log' where s: "s = (pc, log)" "pc_step (pc, log) e = (pc', log')"
    by (cases s) fastforce
  from inv s pc_step_spec [of pc log e pc' log' True] show "pc_inv (pc_step s e)"
    by (auto simp: pc_inv_def)
qed

lemma sent_run:
  assumes "channels_ok pc" and "pc_run (pc, log) es = (pc', log')"
  shows "sent rel log' @ pending_of rel pc' = sent rel log @ pending_of rel pc @ requested rel es"
  using assms
proof (induction es arbitrary: pc log)
  case Nil
  then show ?case by simp
next
  case (Cons e es)
  obtain pc1 log1 where one: "pc_step (pc, log) e = (pc1, log1)" by fastforce
  from pc_step_spec [OF Cons.prems(1) one, of rel] obtain calls where
    c: "channels_ok pc1" "log1 = log @ calls"
      "sent rel calls @ pending_of rel pc1 = pending_of rel pc @ requested_by rel e" by blast
  have "sent rel log' @ pending_of rel pc' = sent rel log1 @ pending_of rel pc1 @ requested rel es"
    using Cons.IH [OF c(1), of log1] Cons.prems(2) one by simp
  also have "\<dots> = sent rel log @ (sent rel calls @ pending_of rel pc1) @ requested rel es"
    by (simp add: c(2))
  finally show ?case by (simp add: c(3))
qed

section \<open>The receiving side\<close>

text \<open>Reassembly does not look at the packets already queued.\<close>

lemma on_reliable_message_append:
  "on_reliable_message f (q\<lparr>received := []\<rparr>) =
     (on_reliable_message f q)\<lparr>received := drop (length (received q)) (received (on_reliable_message f q))\<rparr>"
  by (simp add: on_reliable_message_def Let_def split: list.splits)

lemma on_reliable_message_grows:
  "take (length (received q)) (received (on_reliable_message f q)) = received q"
  by (simp add: on_reliable_message_def Let_def split: list.splits)

lemma deliver_all:
  "has_on_packet pc \<Longrightarrow>
    deliver pc = (map PacketCb (received (packets pc)), pc\<lparr>packets := (packets pc)\<lparr>received := []\<rparr>\<rparr>)"
proof -
  assume on: "has_on_packet pc"
  have "length (received q) = n \<Longrightarrow> drain (read None) (Suc n) q = (received q, q\<lparr>received := []\<rparr>)" for q n
  proof (induction n arbitrary: q)
    case 0
    then show ?case by simp
  next
    case (Suc n)
    then obtain x xs where "received q = x # xs" by (cases "received q") auto
    with Suc show ?case by simp
  qed
  with on show ?thesis by (simp add: deliver_def)
qed

lemma reliable_message_step:
  assumes "has_on_packet pc" and "packets pc = q\<lparr>received := []\<rparr>" and "delivered log = pre @ received q"
    and "pc_step (pc, log) (PcMessage True (PBytes f)) = (pc', log')"
  shows "has_on_packet pc' \<and> packets pc' = (on_reliable_message f q)\<lparr>received := []\<rparr> \<and>
    delivered log' = pre @ received (on_reliable_message f q)"
proof -
  let ?q = "on_reliable_message f q"
  have "pc' = pc\<lparr>packets := ?q\<lparr>received := []\<rparr>\<rparr>"
      "log' = log @ map PacketCb (drop (length (received q)) (received ?q))"
    using assms(1,2,4)
    by (simp_all add: handle_channel_message_def payload_bytes_def logged_def deliver_all
        on_reliable_message_append)
  moreover have "received q @ drop (length (received q)) (received ?q) = received ?q"
    by (metis append_take_drop_id on_reliable_message_grows)
  ultimately show ?thesis using assms(1,3) by simp
qed

lemma reliable_messages_run:
  assumes "has_on_packet pc" and "packets pc = q\<lparr>received := []\<rparr>" and "delivered log = pre @ received q"
  shows "delivered (snd (pc_run (pc, log) (map (\<lambda>f. PcMessage True (PBytes f)) fs))) =
    pre @ received (receive_all q fs)"
  using assms
proof (induction fs arbitrary: pc log q)
  case Nil
  then show ?case by simp
next
  case (Cons f fs)
  obtain pc1 log1 where one: "pc_step (pc, log) (PcMessage True (PBytes f)) = (pc1, log1)" by fastforce
  note spec = reliable_message_step [OF Cons.prems one]
  from Cons.IH [of pc1 "on_reliable_message f q" log1] spec one show ?case by simp
qed

text \<open>The reliable packets a run of events sends, without those \<open>push\<close> drops.\<close>

fun reliable_packet :: "pc_event \<Rightarrow> bytes list" where
  "reliable_packet (PcSend d t) = (if t = Reliable \<and> accepted d Reliable then [d] else [])"
| "reliable_packet _ = []"

definition reliable_packets :: "pc_event list \<Rightarrow> bytes list" where
  "reliable_packets es = concat (map reliable_packet es)"

lemma reliable_packets_simps [simp]:
  "reliable_packets [] = []" "reliable_packets (e # es) = reliable_packet e @ reliable_packets es"
  by (simp_all add: reliable_packets_def)

lemma reliable_packets_accepted: "\<forall>d \<in> set (reliable_packets es). accepted d Reliable"
proof (induction es)
  case Nil
  then show ?case by simp
next
  case (Cons e es)
  then show ?case by (cases e) auto
qed

lemma requested_packets:
  "requested True es = concat (map (\<lambda>d. countdown_fragments (packet_chunks d)) (reliable_packets es))"
proof (induction es)
  case Nil
  then show ?case by simp
next
  case (Cons e es)
  have "requested_by True e = concat (map (\<lambda>d. countdown_fragments (packet_chunks d)) (reliable_packet e))"
  proof (cases e)
    case (PcSend d t)
    then show ?thesis
      by (cases t; cases "accepted d t") (simp_all add: push_accepted push_rejected comp_def filter_map)
  qed simp_all
  with Cons show ?case by simp
qed

lemma new_pc_receiver [simp]:
  "has_on_packet (new_pc dialer relay on_pkt on_open) = on_pkt"
  "packets (new_pc dialer relay on_pkt on_open) = new_queue"
  by (simp_all add: new_pc_def bare_pc_def register_channel_def set_channel_def Let_def)

lemma new_pc_receives:
  assumes "\<forall>d \<in> set ds. accepted d Reliable"
  shows "delivered (snd (pc_run (new_pc dialer relay True on_open, [])
      (map (\<lambda>f. PcMessage True (PBytes f)) (concat (map (\<lambda>d. countdown_fragments (packet_chunks d)) ds))))) = ds"
proof -
  have "receive_all new_queue (concat (map (\<lambda>d. countdown_fragments (packet_chunks d)) ds)) =
      new_queue\<lparr>received := received new_queue @ ds\<rparr>"
    by (rule receive_packets [OF assms]) (simp add: new_queue_def)
  then show ?thesis
    by (subst reliable_messages_run [where q = new_queue and pre = "[]"]) (simp_all add: new_queue_def)
qed

lemma labels_differ [simp]: "UNRELIABLE_LABEL \<noteq> RELIABLE_LABEL"
  by (simp add: UNRELIABLE_LABEL_def RELIABLE_LABEL_def lit_def)

lemma short_accepted: "length d \<le> 2 \<Longrightarrow> accepted d t"
  by (simp add: accepted_def FRAGMENT_SIZE_def)

text \<open>The definitions that evaluate short runs.\<close>

lemmas new_pc_run_simps =
  new_pc_def bare_pc_def register_channel_def set_channel_def Let_def pc_send_def push_accepted
  short_accepted packet_chunks_short FRAGMENT_SIZE_def channel_send_def channel_accessors
  handle_channel_open_def flush_calls_def logged_def

lemma new_pc_run_inv: "pc_run (new_pc dialer relay on_pkt on_open, []) es = s \<Longrightarrow> pc_inv s"
  by (erule subst, rule pc_machine.inv_reachable) (auto simp: fresh_pc_def)

lemma new_pc_callbacks [simp]:
  "has_on_channels_open (new_pc dialer relay on_pkt on_open) = on_open"
  by (simp add: new_pc_def bare_pc_def register_channel_def set_channel_def Let_def)

lemma run_config:
  assumes "channels_ok pc" and "pc_run (pc, log) es = (pc', log')"
  shows "same_config pc pc'"
  using assms
proof (induction es arbitrary: pc log)
  case Nil
  then show ?case by (simp add: same_config_def)
next
  case (Cons e es)
  obtain pc1 log1 where one: "pc_step (pc, log) e = (pc1, log1)" by fastforce
  note spec = pc_step_spec [OF Cons.prems(1) one, of True]
  with Cons.IH [of pc1 log1] Cons.prems(2) one same_config_trans [of pc pc1 pc'] show ?case by auto
qed

section \<open>Properties\<close>



text \<open>
  On either side, the fragments sent so far followed by those still pending are the
  fragments of all sends so far, in their order: nothing is lost, repeated or overtaken by the
  opening of a channel, a new registration or inbound messages.
\<close>

theorem fragment_order:
  assumes "pc_run (new_pc dialer relay on_pkt on_open, []) es = (pc, log)"
  shows "sent rel log @ pending_of rel pc = requested rel es \<and>
    (is_open rel pc \<longrightarrow> pending_of rel pc = [])"
proof
  show "sent rel log @ pending_of rel pc = requested rel es"
    using sent_run [OF new_pc_ok assms, of rel] by simp
  have "pc_inv (pc, log)" using assms by (rule new_pc_run_inv)
  then show "is_open rel pc \<longrightarrow> pending_of rel pc = []"
    by (auto simp: pc_inv_def channels_ok_def is_open_def pending_of_def)
qed

theorem fragment_order_witness:
  "sent False [] @ pending_of False (snd (channel_sends [(Unreliable, [0, 5])] (new_pc True False True True))) =
    requested False [PcSend [5] Unreliable]"
proof -
  have "accepted [5] Unreliable" by (simp add: accepted_def FRAGMENT_SIZE_def)
  then have "pc_run (new_pc True False True True, []) [PcSend [5] Unreliable] =
      (snd (channel_sends [(Unreliable, [0, 5])] (new_pc True False True True)), [])"
    by (simp add: pc_send_def push_accepted packet_chunks_short FRAGMENT_SIZE_def logged_def
        new_pc_def bare_pc_def register_channel_def set_channel_def channel_send_def channel_accessors Let_def)
  from fragment_order [OF this, of False, THEN conjunct1] show ?thesis by simp
qed

text \<open>
  The owner is told that the channels are open exactly once, and has been told exactly
  when both are open; a packet handed to the queue never stays there behind the callback.
\<close>

theorem channels_open_once:
  assumes "pc_run (new_pc dialer relay True True, []) es = (pc, log)"
  shows "open_calls log = of_bool (reliable_open pc \<and> unreliable_open pc) \<and> received (packets pc) = []"
proof -
  have "pc_inv (pc, log)" using assms by (rule new_pc_run_inv)
  moreover have "has_on_packet pc \<and> has_on_channels_open pc"
    using run_config [OF new_pc_ok assms] by (simp add: same_config_def)
  ultimately show ?thesis by (simp add: pc_inv_def channels_ok_def)
qed

theorem channels_open_once_witness:
  "open_calls (snd (pc_run (new_pc True False True True, [] :: nat pc_call list)
     [PcOpen True, PcOpen False, PcOpen True])) = 1"
proof -
  let ?r = "pc_run (new_pc True False True True, [] :: nat pc_call list) [PcOpen True, PcOpen False, PcOpen True]"
  have "reliable_open (fst ?r)" "unreliable_open (fst ?r)" by (simp_all add: new_pc_run_simps)
  with channels_open_once [OF surjective_pairing [of ?r]] show ?thesis by simp
qed

end
