(* ===== verification/Session.thy ===== *)
theory Session
  imports Messages PeerConnection
begin

text \<open>
  The class \<open>Session\<close> of \<open>session.py\<close>, driven by events: calls of its owner, inbound signals,
  callbacks of its peer connection, its timer, and the resumption of its suspended coroutines.
  A coroutine that waits for aiortc is a frame in \<open>tasks\<close>, at the index of the call that
  started it; any task may be resumed at any time, with aiortc's result or with a raise (which
  ends it), so the runs of \<open>session_step\<close> are all the interleavings of an event loop. \<open>log\<close> is
  what the session has done to its surroundings, newest last. The injected callbacks return
  and do not call back into the session; whatever the owner does in one is a later event.
\<close>

section \<open>State\<close>

datatype session_state = IDLE | OFFER_SENT | ANSWER_SENT | NEGOTIATING | CONNECTED | CLOSED

text \<open>The four coroutines that wait for a local description, by what they do with it.\<close>

datatype offer_task = KStart | KOffer
datatype answer_task = KRequest | KAnswer

datatype frame =
    FrCreateOffer offer_task                \<comment> \<open>in \<open>create_offer\<close>, for aiortc\<close>
  | FrRemoteOffer answer_task               \<comment> \<open>in \<open>setRemoteDescription(offer)\<close>\<close>
  | FrRemoteAnswer                          \<comment> \<open>in \<open>setRemoteDescription(answer)\<close>\<close>
  | FrFlush "answer_task option" nat        \<comment> \<open>in \<open>addIceCandidate\<close> of a buffered candidate\<close>
  | FrLocalAnswer answer_task               \<comment> \<open>in \<open>createAnswer\<close>/\<open>setLocalDescription\<close>\<close>
  | FrAddCandidate                          \<comment> \<open>in \<open>addIceCandidate\<close> of a trickled candidate\<close>

datatype 'c effect =
    Signal pystr                  \<comment> \<open>\<open>send_signal(...)\<close>\<close>
  | OnOpen
  | OnClose wire_error
  | OnPacket bytes
  | ClosePeer                     \<comment> \<open>\<open>create_task(self._pc.close())\<close>\<close>
  | Result pystr                  \<comment> \<open>the SDP that \<open>offer\<close> or \<open>answer\<close> returns\<close>
  | PeerCall "'c pc_call"

record 'c session =
  cid :: int
  is_dialer :: bool
  has_on_open :: bool
  has_on_close :: bool
  packet_handler :: bool
  state :: session_state
  timer :: "session_error option"
  close_task :: bool
  pc :: "'c peer_connection"
  tasks :: "frame option list"
  log :: "'c effect list"

definition new_session :: "int \<Rightarrow> bool \<Rightarrow> bool \<Rightarrow> bool \<Rightarrow> bool \<Rightarrow> bool \<Rightarrow> 'c session" where
  "new_session conn dialer on_op on_cl on_pkt relay =
     \<lparr>cid = conn, is_dialer = dialer, has_on_open = on_op, has_on_close = on_cl,
      packet_handler = on_pkt, state = IDLE, timer = None, close_task = False,
      pc = new_pc dialer relay True True, tasks = [], log = []\<rparr>"

definition emit :: "'c effect list \<Rightarrow> 'c session \<Rightarrow> 'c session" where
  "emit es s = s\<lparr>log := log s @ es\<rparr>"

section \<open>Timeouts and close\<close>

definition cancel_timeout :: "'c session \<Rightarrow> 'c session" where
  "cancel_timeout s = s\<lparr>timer := None\<rparr>"

definition arm_timeout :: "session_error \<Rightarrow> 'c session \<Rightarrow> 'c session" where
  "arm_timeout e s = (cancel_timeout s)\<lparr>timer := Some e\<rparr>"

definition close :: "wire_error \<Rightarrow> bool \<Rightarrow> 'c session \<Rightarrow> 'c session" where
  "close err notify_remote s =
     (if state s = CLOSED then s
      else let s1 = cancel_timeout (s\<lparr>state := CLOSED\<rparr>);
               s2 = (if notify_remote
                     then emit [Signal (serialize_signaling (ConnectError (cid s1) err))] s1 else s1);
               s3 = (emit [ClosePeer] s2)\<lparr>close_task := True\<rparr>
           in if has_on_close s3 then emit [OnClose err] s3 else s3)"

text \<open>\<open>aclose\<close> up to the wait for the close task; what it waits for is \<open>close_task\<close>.\<close>

definition aclose :: "wire_error \<Rightarrow> 'c session \<Rightarrow> 'c session" where
  "aclose err s = (if state s \<noteq> CLOSED then close err False s else s)"

section \<open>Transport callbacks\<close>

definition handle_channels_open :: "'c session \<Rightarrow> 'c session" where
  "handle_channels_open s =
     (if state s = CONNECTED \<or> state s = CLOSED then s
      else let s1 = cancel_timeout (s\<lparr>state := CONNECTED\<rparr>)
           in if has_on_open s1 then emit [OnOpen] s1 else s1)"

definition handle_connection_state :: "pystr \<Rightarrow> 'c session \<Rightarrow> 'c session" where
  "handle_connection_state st s =
     (if state s = CLOSED then s
      else if st = lit ''failed''
      then close (Known (if state s = CONNECTED then E_DATA_CHANNEL_CLOSED else E_ICE)) False s
      else if st = lit ''closed'' \<and> state s = CONNECTED then close (Known E_DATA_CHANNEL_CLOSED) False s
      else s)"

definition handle_packet :: "bytes \<Rightarrow> 'c session \<Rightarrow> 'c session" where
  "handle_packet data s = (if packet_handler s then emit [OnPacket data] s else s)"

text \<open>
  The peer connection's calls, in their order: the two callbacks run the session's handlers,
  the rest goes to aiortc.
\<close>

fun run_call :: "'c session \<Rightarrow> 'c pc_call \<Rightarrow> 'c session" where
  "run_call s ChannelsOpenCb = handle_channels_open s"
| "run_call s (PacketCb data) = handle_packet data s"
| "run_call s c = emit [PeerCall c] s"

definition run_pc :: "'c pc_result \<Rightarrow> 'c session \<Rightarrow> 'c session" where
  "run_pc r s = foldl run_call (s\<lparr>pc := snd r\<rparr>) (fst r)"

section \<open>Application I/O\<close>

definition session_send :: "bytes \<Rightarrow> send_type \<Rightarrow> 'c session \<Rightarrow> (bool \<times> 'c session) result" where
  "session_send data t s =
     (if state s \<noteq> CONNECTED then Inr (False, s)
      else rbind (pc_send data t (pc s)) (\<lambda>(ok, r). Inr (ok, run_pc r s)))"

definition session_read :: "int option \<Rightarrow> 'c session \<Rightarrow> bytes option \<times> 'c session" where
  "session_read m s = (let (b, p) = pc_read m (pc s) in (b, s\<lparr>pc := p\<rparr>))"

definition session_peek :: "'c session \<Rightarrow> nat option" where
  "session_peek s = pc_peek (pc s)"

section \<open>Coroutines\<close>

text \<open>
  A piece of a coroutine ends at the next await (\<open>Some\<close> frame) or with the coroutine
  (\<open>None\<close>).
\<close>

type_synonym 'c piece = "frame option \<times> 'c session"

definition send_candidates :: "pystr list \<Rightarrow> 'c session \<Rightarrow> 'c session" where
  "send_candidates cands s = emit (map (\<lambda>c. Signal (serialize_signaling (CandidateAdd (cid s) c))) cands) s"

text \<open>The end of \<open>start\<close> and of \<open>offer\<close>, once aiortc has the local description \<open>raw\<close>.\<close>

definition after_offer :: "(nat \<Rightarrow> nat option) \<Rightarrow> offer_task \<Rightarrow> pystr \<Rightarrow> 'c session \<Rightarrow> 'c session" where
  "after_offer udec k raw s =
     (case k of
        KStart \<Rightarrow>
          (let (offer, candidates) = strip_candidates (local_sdp udec (pc s) raw);
               s1 = s\<lparr>state := OFFER_SENT\<rparr>;
               s2 = emit [Signal (serialize_signaling (ConnectRequest (cid s1) offer))] s1
           in arm_timeout E_NEGOTIATION_TIMEOUT_WAITING_FOR_RESPONSE (send_candidates candidates s2))
      | KOffer \<Rightarrow>
          emit [Result (local_sdp udec (pc s) raw)]
            (arm_timeout E_NEGOTIATION_TIMEOUT_WAITING_FOR_RESPONSE (s\<lparr>state := OFFER_SENT\<rparr>)))"

text \<open>The end of \<open>_handle_request\<close> and of \<open>answer\<close>.\<close>

definition after_answer :: "(nat \<Rightarrow> nat option) \<Rightarrow> answer_task \<Rightarrow> pystr \<Rightarrow> 'c session \<Rightarrow> 'c session" where
  "after_answer udec k raw s =
     (case k of
        KRequest \<Rightarrow>
          (let (answer, candidates) = strip_candidates (local_sdp udec (pc s) raw);
               s1 = s\<lparr>state := ANSWER_SENT\<rparr>;
               s2 = emit [Signal (serialize_signaling (ConnectResponse (cid s1) answer))] s1
           in arm_timeout E_NEGOTIATION_TIMEOUT_WAITING_FOR_ACCEPT (send_candidates candidates s2))
      | KAnswer \<Rightarrow>
          emit [Result (local_sdp udec (pc s) raw)]
            (arm_timeout E_NEGOTIATION_TIMEOUT_WAITING_FOR_ACCEPT (s\<lparr>state := ANSWER_SENT\<rparr>)))"

text \<open>
  The loop of \<open>_flush_remote_candidates\<close> from index \<open>i\<close>, and what follows it: the end of
  \<open>set_remote_answer\<close> (\<open>None\<close>) or the local answer of \<open>create_answer\<close>.
\<close>

definition flush_from :: "answer_task option \<Rightarrow> nat \<Rightarrow> 'c session \<Rightarrow> 'c piece" where
  "flush_from k i s =
     (let (next, p) = flush_next i (pc s); s1 = s\<lparr>pc := p\<rparr> in
      case next of
        Some c \<Rightarrow> (Some (FrFlush k i), emit [PeerCall (AddIceCandidate c)] s1)
      | None \<Rightarrow> (map_option FrLocalAnswer k, s1))"

definition begin_flush :: "answer_task option \<Rightarrow> 'c session \<Rightarrow> 'c piece" where
  "begin_flush k s = flush_from k 0 (s\<lparr>pc := flush_begin (pc s)\<rparr>)"

text \<open>A frame, resumed with aiortc's result; only a local description's text matters.\<close>

fun resume_frame :: "(nat \<Rightarrow> nat option) \<Rightarrow> frame \<Rightarrow> pystr \<Rightarrow> 'c session \<Rightarrow> 'c piece" where
  "resume_frame udec (FrCreateOffer k) raw s = (None, after_offer udec k raw s)"
| "resume_frame udec (FrRemoteOffer k) raw s = begin_flush (Some k) s"
| "resume_frame udec FrRemoteAnswer raw s = begin_flush None s"
| "resume_frame udec (FrFlush k i) raw s = flush_from k (Suc i) s"
| "resume_frame udec (FrLocalAnswer k) raw s = (None, after_answer udec k raw s)"
| "resume_frame udec FrAddCandidate raw s = (None, s)"

text \<open>The first pieces of the coroutines.\<close>

definition create_offer :: "offer_task \<Rightarrow> 'c session \<Rightarrow> 'c piece" where
  "create_offer k s = (Some (FrCreateOffer k), s)"

definition create_answer :: "answer_task \<Rightarrow> pystr \<Rightarrow> 'c session \<Rightarrow> 'c piece" where
  "create_answer k remote_offer s =
     (Some (FrRemoteOffer k), emit [PeerCall (SetRemoteDescription remote_offer (lit ''offer''))] s)"

text \<open>\<open>_handle_response\<close> and \<open>accept_answer\<close>, which have the same body.\<close>

definition accept_answer :: "pystr \<Rightarrow> 'c session \<Rightarrow> 'c piece" where
  "accept_answer answer s =
     (if state s \<noteq> OFFER_SENT then (None, s)
      else let s1 = arm_timeout E_NEGOTIATION_TIMEOUT_WAITING_FOR_ACCEPT (s\<lparr>state := NEGOTIATING\<rparr>)
           in (Some FrRemoteAnswer, emit [PeerCall (SetRemoteDescription answer (lit ''answer''))] s1))"

definition handle_request :: "pystr \<Rightarrow> 'c session \<Rightarrow> 'c piece" where
  "handle_request offer s = (if state s \<noteq> IDLE then (None, s) else create_answer KRequest offer s)"

definition handle_connect_error :: "wire_error \<Rightarrow> 'c session \<Rightarrow> 'c session" where
  "handle_connect_error err s =
     (if \<not> is_dialer s \<and> wire_error_int err = error_code E_SIGNALING_UNICAST_MESSAGE_DELIVERY_FAILED
      then s else close err False s)"

definition handle_candidate :: "(pystr \<Rightarrow> 'c option) \<Rightarrow> pystr \<Rightarrow> 'c session \<Rightarrow> 'c piece" where
  "handle_candidate from_sdp text s =
     (case add_remote_candidate from_sdp text (pc s) of
        None \<Rightarrow> (None, s)
      | Some r \<Rightarrow> (if fst r = [] then None else Some FrAddCandidate, run_pc r s))"

definition handle_signal :: "(pystr \<Rightarrow> 'c option) \<Rightarrow> signaling_message \<Rightarrow> 'c session \<Rightarrow> 'c piece" where
  "handle_signal from_sdp m s =
     (if state s = CLOSED then (None, s)
      else case m of
        ConnectError _ err \<Rightarrow> (None, handle_connect_error err s)
      | CandidateAdd _ text \<Rightarrow> handle_candidate from_sdp text s
      | ConnectResponse _ answer \<Rightarrow> if is_dialer s then accept_answer answer s else (None, s)
      | ConnectRequest _ offer \<Rightarrow> if \<not> is_dialer s then handle_request offer s else (None, s))"

section \<open>Events\<close>

datatype session_event =
    Start | OfferCall | AcceptAnswer pystr | AnswerCall pystr
  | HandleSignal signaling_message
  | Resume nat pystr                    \<comment> \<open>task, local description if it waits for one\<close>
  | ResumeRaise nat                     \<comment> \<open>aiortc raises, or the task is cancelled\<close>
  | DataChannel nat pystr bool          \<comment> \<open>the remote peer opened a channel\<close>
  | ChannelOpened bool
  | ChannelMessage bool channel_payload
  | ConnectionState pystr
  | TimerFires
  | CloseCall wire_error bool
  | AcloseCall wire_error
  | SendCall bytes send_type
  | ReadCall "int option"

definition new_task :: "'c piece \<Rightarrow> 'c session" where
  "new_task p = (snd p)\<lparr>tasks := tasks (snd p) @ [fst p]\<rparr>"

definition set_task :: "nat \<Rightarrow> 'c piece \<Rightarrow> 'c session" where
  "set_task i p = (snd p)\<lparr>tasks := (tasks (snd p))[i := fst p]\<rparr>"

definition task_at :: "nat \<Rightarrow> 'c session \<Rightarrow> frame option" where
  "task_at i s = (if i < length (tasks s) then tasks s ! i else None)"

text \<open>An event that cannot happen in a state (no such task, no armed timer) changes nothing.\<close>

fun session_step ::
    "(nat \<Rightarrow> nat option) \<Rightarrow> (pystr \<Rightarrow> 'c option) \<Rightarrow> 'c session \<Rightarrow> session_event \<Rightarrow> 'c session" where
  "session_step udec from_sdp s Start = new_task (create_offer KStart s)"
| "session_step udec from_sdp s OfferCall = new_task (create_offer KOffer s)"
| "session_step udec from_sdp s (AcceptAnswer answer) = new_task (accept_answer answer s)"
| "session_step udec from_sdp s (AnswerCall offer) = new_task (create_answer KAnswer offer s)"
| "session_step udec from_sdp s (HandleSignal m) = new_task (handle_signal from_sdp m s)"
| "session_step udec from_sdp s (Resume i raw) =
     (case task_at i s of None \<Rightarrow> s | Some f \<Rightarrow> set_task i (resume_frame udec f raw s))"
| "session_step udec from_sdp s (ResumeRaise i) = s\<lparr>tasks := (tasks s)[i := None]\<rparr>"
| "session_step udec from_sdp s (DataChannel ch label ready) =
     (if is_dialer s then s else run_pc (register_channel ch label ready (pc s)) s)"
| "session_step udec from_sdp s (ChannelOpened rel) =
     (if channel_of rel (pc s) = None then s else run_pc (handle_channel_open rel (pc s)) s)"
| "session_step udec from_sdp s (ChannelMessage rel m) =
     (case handle_channel_message rel m (pc s) of Inl _ \<Rightarrow> s | Inr r \<Rightarrow> run_pc r s)"
| "session_step udec from_sdp s (ConnectionState st) = handle_connection_state st s"
| "session_step udec from_sdp s TimerFires = (case timer s of None \<Rightarrow> s | Some e \<Rightarrow> close (Known e) False s)"
| "session_step udec from_sdp s (CloseCall err notify) = close err notify s"
| "session_step udec from_sdp s (AcloseCall err) = aclose err s"
| "session_step udec from_sdp s (SendCall data t) =
     (case session_send data t s of Inl _ \<Rightarrow> s | Inr (_, s') \<Rightarrow> s')"
| "session_step udec from_sdp s (ReadCall m) = snd (session_read m s)"

section \<open>What a run has told the owner and the remote peer\<close>

definition signals :: "'c effect list \<Rightarrow> pystr list" where
  "signals l = List.map_filter (\<lambda>e. case e of Signal m \<Rightarrow> Some m | _ \<Rightarrow> None) l"

definition closes :: "'c effect list \<Rightarrow> wire_error list" where
  "closes l = List.map_filter (\<lambda>e. case e of OnClose r \<Rightarrow> Some r | _ \<Rightarrow> None) l"

definition opens :: "'c effect list \<Rightarrow> nat" where
  "opens l = length (filter (\<lambda>e. e = OnOpen) l)"

lemma notices_append [simp]:
  "signals (a @ b) = signals a @ signals b" "closes (a @ b) = closes a @ closes b"
  "opens (a @ b) = opens a + opens b"
  by (simp_all add: signals_def closes_def opens_def map_filter_def)

lemma notices_simps [simp]:
  "signals [] = []" "closes [] = []" "opens [] = 0"
  "signals (Signal m # l) = m # signals l" "signals (OnOpen # l) = signals l"
  "signals (OnClose r # l) = signals l" "signals (OnPacket b # l) = signals l"
  "signals (ClosePeer # l) = signals l" "signals (Result t # l) = signals l"
  "signals (PeerCall c # l) = signals l"
  "closes (Signal m # l) = closes l" "closes (OnOpen # l) = closes l"
  "closes (OnClose r # l) = r # closes l" "closes (OnPacket b # l) = closes l"
  "closes (ClosePeer # l) = closes l" "closes (Result t # l) = closes l"
  "closes (PeerCall c # l) = closes l"
  "opens (Signal m # l) = opens l" "opens (OnOpen # l) = Suc (opens l)"
  "opens (OnClose r # l) = opens l" "opens (OnPacket b # l) = opens l"
  "opens (ClosePeer # l) = opens l" "opens (Result t # l) = opens l"
  "opens (PeerCall c # l) = opens l"
  by (simp_all add: signals_def closes_def opens_def map_filter_def)

lemma signals_mapped [simp]:
  "signals (map (\<lambda>c. Signal (f c)) cs) = map f cs" "closes (map (\<lambda>c. Signal (f c)) cs) = []"
  "opens (map (\<lambda>c. Signal (f c)) cs) = 0"
  by (induction cs; simp)+

lemma emit_simps [simp]:
  "cid (emit es s) = cid s" "is_dialer (emit es s) = is_dialer s" "has_on_open (emit es s) = has_on_open s"
  "has_on_close (emit es s) = has_on_close s" "packet_handler (emit es s) = packet_handler s"
  "state (emit es s) = state s" "timer (emit es s) = timer s" "close_task (emit es s) = close_task s"
  "pc (emit es s) = pc s" "tasks (emit es s) = tasks s" "log (emit es s) = log s @ es"
  by (simp_all add: emit_def)

section \<open>The invariant of every interleaving\<close>

text \<open>The timeout that each state waits under.\<close>

fun timer_for :: "session_state \<Rightarrow> session_error option" where
  "timer_for OFFER_SENT = Some E_NEGOTIATION_TIMEOUT_WAITING_FOR_RESPONSE"
| "timer_for NEGOTIATING = Some E_NEGOTIATION_TIMEOUT_WAITING_FOR_ACCEPT"
| "timer_for ANSWER_SENT = Some E_NEGOTIATION_TIMEOUT_WAITING_FOR_ACCEPT"
| "timer_for _ = None"

definition peer_ok :: "'c peer_connection \<Rightarrow> bool" where
  "peer_ok p \<longleftrightarrow> channels_ok p \<and> has_on_packet p \<and> has_on_channels_open p \<and>
     pending_of True p = [] \<and> pending_of False p = []"

definition session_inv :: "'c session \<Rightarrow> bool" where
  "session_inv s \<longleftrightarrow>
     timer s = timer_for (state s) \<and> (state s = CLOSED \<longrightarrow> close_task s) \<and>
     (state s = CONNECTED \<longrightarrow> channels_open_fired (pc s)) \<and> peer_ok (pc s) \<and>
     opens (log s) \<le> of_bool (channels_open_fired (pc s))"

text \<open>The fields that identify a session never change.\<close>

definition same_session :: "'c session \<Rightarrow> 'c session \<Rightarrow> bool" where
  "same_session s s' \<longleftrightarrow> cid s' = cid s \<and> is_dialer s' = is_dialer s \<and> has_on_open s' = has_on_open s \<and>
     has_on_close s' = has_on_close s \<and> packet_handler s' = packet_handler s"

lemma same_session_refl [simp]: "same_session s s"
  by (simp add: same_session_def)

lemma same_session_trans: "same_session a b \<Longrightarrow> same_session b c \<Longrightarrow> same_session a c"
  by (simp add: same_session_def)

lemma close_spec:
  "session_inv s \<Longrightarrow> session_inv (close err notify s) \<and> same_session s (close err notify s) \<and>
     state (close err notify s) = CLOSED \<and> tasks (close err notify s) = tasks s \<and> pc (close err notify s) = pc s"
  by (simp add: close_def cancel_timeout_def session_inv_def same_session_def Let_def)

lemma close_notices:
  "signals (log (close err notify s)) = signals (log s) @
     (if state s \<noteq> CLOSED \<and> notify then [serialize_signaling (ConnectError (cid s) err)] else [])"
  "closes (log (close err notify s)) = closes (log s) @
     (if state s \<noteq> CLOSED \<and> has_on_close s then [err] else [])"
  by (simp_all add: close_def cancel_timeout_def Let_def)

lemma run_calls_spec:
  "pc (foldl run_call s calls) = pc s \<and> tasks (foldl run_call s calls) = tasks s \<and>
   close_task (foldl run_call s calls) = close_task s \<and> same_session s (foldl run_call s calls) \<and>
   signals (log (foldl run_call s calls)) = signals (log s) \<and>
   closes (log (foldl run_call s calls)) = closes (log s) \<and>
   opens (log (foldl run_call s calls)) \<le> opens (log s) + open_calls calls \<and>
   (state (foldl run_call s calls) = state s \<and> timer (foldl run_call s calls) = timer s \<or>
    state (foldl run_call s calls) = CONNECTED \<and> timer (foldl run_call s calls) = None \<and>
      state s \<noteq> CLOSED \<and> 0 < open_calls calls)"
proof (induction calls arbitrary: s)
  case Nil
  then show ?case by simp
next
  case (Cons c calls)
  note IH = Cons.IH [of "run_call s c"]
  show ?case
  proof (cases c)
    case ChannelsOpenCb
    have "state (run_call s c) = state s \<and> timer (run_call s c) = timer s \<or>
        state (run_call s c) = CONNECTED \<and> timer (run_call s c) = None \<and> state s \<noteq> CLOSED"
      by (simp add: ChannelsOpenCb handle_channels_open_def cancel_timeout_def Let_def)
    moreover have "pc (run_call s c) = pc s" "tasks (run_call s c) = tasks s"
        "close_task (run_call s c) = close_task s" "same_session s (run_call s c)"
        "signals (log (run_call s c)) = signals (log s)" "closes (log (run_call s c)) = closes (log s)"
        "opens (log (run_call s c)) \<le> opens (log s) + 1"
      by (simp_all add: ChannelsOpenCb handle_channels_open_def cancel_timeout_def same_session_def Let_def)
    ultimately show ?thesis
      using IH same_session_trans [of s "run_call s c"] by (auto simp: ChannelsOpenCb)
  next
    case (PacketCb b)
    have "same_session s (run_call s c)" by (simp add: PacketCb handle_packet_def same_session_def)
    then show ?thesis using IH same_session_trans [of s "run_call s c"]
      by (simp add: PacketCb handle_packet_def split: if_splits)
  next
    case (ChannelSend r ch f)
    have "same_session s (run_call s c)" by (simp add: ChannelSend same_session_def)
    then show ?thesis using IH same_session_trans [of s "run_call s c"] by (simp add: ChannelSend)
  next
    case (AddIceCandidate x)
    have "same_session s (run_call s c)" by (simp add: AddIceCandidate same_session_def)
    then show ?thesis using IH same_session_trans [of s "run_call s c"]
      by (simp add: AddIceCandidate open_calls_def)
  next
    case (SetRemoteDescription x y)
    have "same_session s (run_call s c)" by (simp add: SetRemoteDescription same_session_def)
    then show ?thesis using IH same_session_trans [of s "run_call s c"]
      by (simp add: SetRemoteDescription open_calls_def)
  qed
qed

text \<open>Every channel callback of the peer connection keeps the invariant.\<close>

lemma run_pc_inv:
  assumes "session_inv s" and "peer_ok (snd r)"
    and "of_bool (channels_open_fired (pc s)) + open_calls (fst r) = (of_bool (channels_open_fired (snd r)) :: nat)"
  shows "session_inv (run_pc r s)"
proof -
  note spec = run_calls_spec [of "s\<lparr>pc := snd r\<rparr>" "fst r"]
  have fired: "channels_open_fired (pc s) \<or> 0 < open_calls (fst r) \<Longrightarrow> channels_open_fired (snd r)"
    using assms(3) by (cases "channels_open_fired (snd r)") auto
  have "opens (log (run_pc r s)) \<le> opens (log s) + open_calls (fst r)"
    using spec by (simp add: run_pc_def)
  moreover have "opens (log s) \<le> of_bool (channels_open_fired (pc s))" using assms(1) by (simp add: session_inv_def)
  ultimately have "opens (log (run_pc r s)) \<le> of_bool (channels_open_fired (snd r))"
    using assms(3) by linarith
  with assms(1,2) spec fired show ?thesis
    by (auto simp: session_inv_def run_pc_def)
qed

lemma run_pc_spec:
  "pc (run_pc r s) = snd r \<and> tasks (run_pc r s) = tasks s \<and> same_session s (run_pc r s) \<and>
   signals (log (run_pc r s)) = signals (log s) \<and> closes (log (run_pc r s)) = closes (log s) \<and>
   (state s = CLOSED \<longrightarrow> state (run_pc r s) = CLOSED)"
proof -
  have "same_session s (s\<lparr>pc := snd r\<rparr>)" by (simp add: same_session_def)
  then show ?thesis
    using run_calls_spec [of "s\<lparr>pc := snd r\<rparr>" "fst r"] same_session_trans [of s "s\<lparr>pc := snd r\<rparr>"]
    by (auto simp: run_pc_def)
qed

section \<open>Each event keeps the invariant\<close>

text \<open>Negotiation touches the candidate buffer of the peer connection only.\<close>

lemma same_channels [simp]:
  "peer_ok (flush_begin p) = peer_ok p" "channels_open_fired (flush_begin p) = channels_open_fired p"
  "peer_ok (snd (flush_next i p)) = peer_ok p"
  "channels_open_fired (snd (flush_next i p)) = channels_open_fired p"
  "peer_ok (p\<lparr>pending_remote_candidates := cs\<rparr>) = peer_ok p"
  by (simp_all add: flush_begin_def flush_next_def peer_ok_def channels_ok_def pending_of_def)

text \<open>
  A piece of a coroutine that sets no state: what it may change. The setters are the ends of
  \<open>start\<close>, \<open>offer\<close>, \<open>answer\<close> and \<open>_handle_request\<close>.
\<close>

fun setter_frame :: "frame \<Rightarrow> bool" where
  "setter_frame (FrCreateOffer k) = True"
| "setter_frame (FrLocalAnswer k) = True"
| "setter_frame _ = False"

definition calm :: "'c session \<Rightarrow> 'c session \<Rightarrow> bool" where
  "calm s s' \<longleftrightarrow> same_session s s' \<and> state s' = state s \<and> timer s' = timer s \<and>
     close_task s' = close_task s \<and> peer_ok (pc s') = peer_ok (pc s) \<and>
     channels_open_fired (pc s') = channels_open_fired (pc s) \<and> tasks s' = tasks s \<and>
     signals (log s') = signals (log s) \<and> closes (log s') = closes (log s) \<and> opens (log s') = opens (log s)"

lemma calm_inv: "calm s s' \<Longrightarrow> session_inv s \<Longrightarrow> session_inv s'"
  by (simp add: calm_def session_inv_def)

lemma flush_from_calm: "calm s (snd (flush_from k i s))"
proof -
  obtain n p where n: "flush_next i (pc s) = (n, p)" by fastforce
  then have "peer_ok p = peer_ok (pc s)" "channels_open_fired p = channels_open_fired (pc s)"
    using same_channels(3,4) [of i "pc s"] by simp_all
  with n show ?thesis
    by (cases n) (simp_all add: flush_from_def calm_def same_session_def Let_def)
qed

lemma begin_flush_calm: "calm s (snd (begin_flush k s))"
  using flush_from_calm [of "s\<lparr>pc := flush_begin (pc s)\<rparr>" k 0]
  by (simp add: begin_flush_def calm_def same_session_def)

lemma resume_calm: "\<not> setter_frame f \<Longrightarrow> calm s (snd (resume_frame udec f raw s))"
  by (cases f) (simp_all add: begin_flush_calm flush_from_calm, simp add: calm_def)

lemma create_answer_calm: "calm s (snd (create_answer k offer s))"
  by (simp add: create_answer_def calm_def same_session_def)

lemma add_remote_candidate_peer:
  "add_remote_candidate from_sdp text p = Some (calls, p') \<Longrightarrow>
     peer_ok p' = peer_ok p \<and> channels_open_fired p' = channels_open_fired p \<and>
     (calls = [] \<or> (\<exists>c. calls = [AddIceCandidate c]))"
  by (auto simp: add_remote_candidate_def split: option.splits if_splits)

lemma handle_candidate_calm: "calm s (snd (handle_candidate from_sdp text s))"
proof (cases "add_remote_candidate from_sdp text (pc s)")
  case None
  then show ?thesis by (simp add: handle_candidate_def calm_def)
next
  case (Some r)
  obtain calls p' where r: "r = (calls, p')" by (cases r)
  from add_remote_candidate_peer [OF Some [unfolded r]] Some show ?thesis
    by (auto simp: handle_candidate_def r run_pc_def calm_def same_session_def)
qed

text \<open>The pieces that set the state also set its timer.\<close>

lemma after_offer_spec:
  "state (after_offer udec k raw s) = OFFER_SENT \<and> pc (after_offer udec k raw s) = pc s \<and>
   tasks (after_offer udec k raw s) = tasks s \<and> same_session s (after_offer udec k raw s) \<and>
   (session_inv s \<longrightarrow> session_inv (after_offer udec k raw s)) \<and>
   closes (log (after_offer udec k raw s)) = closes (log s)"
  by (cases k)
    (simp_all add: after_offer_def send_candidates_def arm_timeout_def cancel_timeout_def session_inv_def
      same_session_def Let_def split: prod.splits)

lemma after_answer_spec:
  "state (after_answer udec k raw s) = ANSWER_SENT \<and> pc (after_answer udec k raw s) = pc s \<and>
   tasks (after_answer udec k raw s) = tasks s \<and> same_session s (after_answer udec k raw s) \<and>
   (session_inv s \<longrightarrow> session_inv (after_answer udec k raw s)) \<and>
   closes (log (after_answer udec k raw s)) = closes (log s)"
  by (cases k)
    (simp_all add: after_answer_def send_candidates_def arm_timeout_def cancel_timeout_def session_inv_def
      same_session_def Let_def split: prod.splits)

lemma accept_answer_spec:
  "session_inv s \<Longrightarrow> session_inv (snd (accept_answer answer s)) \<and> same_session s (snd (accept_answer answer s)) \<and>
   tasks (snd (accept_answer answer s)) = tasks s \<and>
   signals (log (snd (accept_answer answer s))) = signals (log s) \<and>
   closes (log (snd (accept_answer answer s))) = closes (log s) \<and>
   (state s = OFFER_SENT \<and> state (snd (accept_answer answer s)) = NEGOTIATING \<or>
    state s \<noteq> OFFER_SENT \<and> snd (accept_answer answer s) = s)"
  by (auto simp: accept_answer_def arm_timeout_def cancel_timeout_def session_inv_def same_session_def Let_def)

lemma connect_error_inv:
  "session_inv s \<Longrightarrow> session_inv (handle_connect_error err s) \<and> same_session s (handle_connect_error err s)"
  using close_spec [of s err False] by (simp add: handle_connect_error_def)

lemma handle_signal_inv:
  assumes "session_inv s"
  shows "session_inv (snd (handle_signal from_sdp m s))"
proof -
  note defs = handle_signal_def handle_request_def
  show ?thesis
  proof (cases m)
    case (ConnectRequest c t)
    then show ?thesis using assms by (simp add: defs calm_inv [OF create_answer_calm])
  next
    case (ConnectResponse c t)
    then show ?thesis using assms by (simp add: defs accept_answer_spec)
  next
    case (CandidateAdd c t)
    then show ?thesis using assms by (simp add: defs calm_inv [OF handle_candidate_calm])
  next
    case (ConnectError c e)
    then show ?thesis using assms by (simp add: defs connect_error_inv)
  qed
qed

lemma tasks_inv [simp]: "session_inv (s\<lparr>tasks := t\<rparr>) = session_inv s"
  by (simp add: session_inv_def)

lemma new_task_inv [simp]: "session_inv (new_task p) = session_inv (snd p)"
  by (simp add: new_task_def)

lemma set_task_inv [simp]: "session_inv (set_task i p) = session_inv (snd p)"
  by (simp add: set_task_def)

lemma resume_inv: "session_inv s \<Longrightarrow> session_inv (snd (resume_frame udec f raw s))"
  by (cases "setter_frame f", cases f)
    (simp_all add: after_offer_spec after_answer_spec calm_inv [OF resume_calm])

text \<open>The channel callbacks, with the specifications of the peer connection.\<close>

lemma peer_event_inv:
  assumes "session_inv s" and "channels_ok p' \<and> same_config (pc s) p'"
    and "of_bool (channels_open_fired (pc s)) + open_calls calls = (of_bool (channels_open_fired p') :: nat)"
    and "pending_of True p' = []" and "pending_of False p' = []"
  shows "session_inv (run_pc (calls, p') s)"
  using assms by (intro run_pc_inv) (simp_all add: session_inv_def peer_ok_def same_config_def)

lemma pending_sides:
  assumes "\<And>r. sent r calls @ pending_of r p' = pending_of r p" and "peer_ok p"
  shows "pending_of True p' = []" and "pending_of False p' = []"
  using assms(1) [of True] assms(1) [of False] assms(2) by (simp_all add: peer_ok_def)

lemma register_inv: "session_inv s \<Longrightarrow> session_inv (run_pc (register_channel ch label ready (pc s)) s)"
proof -
  assume inv: "session_inv s"
  then have ok: "channels_ok (pc s)" "peer_ok (pc s)" by (simp_all add: session_inv_def peer_ok_def)
  obtain calls p' where r: "register_channel ch label ready (pc s) = (calls, p')" by fastforce
  note spec = register_channel_spec [OF ok(1) r]
  have "sent t calls @ pending_of t p' = pending_of t (pc s)" for t using spec [of t] by simp
  from peer_event_inv [OF inv _ _ pending_sides [OF this ok(2)]] spec r show ?thesis by simp
qed

lemma opened_inv:
  "session_inv s \<Longrightarrow> channel_of rel (pc s) \<noteq> None \<Longrightarrow> session_inv (run_pc (handle_channel_open rel (pc s)) s)"
proof -
  assume inv: "session_inv s" and ch: "channel_of rel (pc s) \<noteq> None"
  then have ok: "channels_ok (pc s)" "peer_ok (pc s)" by (simp_all add: session_inv_def peer_ok_def)
  obtain calls p' where r: "handle_channel_open rel (pc s) = (calls, p')" by fastforce
  note spec = handle_channel_open_spec [OF ok(1) ch r]
  have "sent t calls @ pending_of t p' = pending_of t (pc s)" for t using spec [of t] by simp
  from peer_event_inv [OF inv _ _ pending_sides [OF this ok(2)]] spec r show ?thesis by simp
qed

lemma message_inv:
  "session_inv s \<Longrightarrow> handle_channel_message rel m (pc s) = Inr r \<Longrightarrow> session_inv (run_pc r s)"
proof -
  assume inv: "session_inv s" and r: "handle_channel_message rel m (pc s) = Inr r"
  then have ok: "channels_ok (pc s)" "peer_ok (pc s)" by (simp_all add: session_inv_def peer_ok_def)
  obtain calls p' where r': "r = (calls, p')" by (cases r)
  note spec = handle_channel_message_spec [OF ok(1) r [unfolded r']]
  have "sent t calls @ pending_of t p' = pending_of t (pc s)" for t using spec [of t] by simp
  from peer_event_inv [OF inv _ _ pending_sides [OF this ok(2)]] spec show ?thesis by (simp add: r')
qed

lemma connected_open: "session_inv s \<Longrightarrow> state s = CONNECTED \<Longrightarrow> is_open r (pc s)"
  by (cases r) (auto simp: session_inv_def peer_ok_def channels_ok_def is_open_def)

lemma send_inv: "session_inv s \<Longrightarrow> session_send data t s = Inr (ok, s') \<Longrightarrow> session_inv s'"
proof -
  assume inv: "session_inv s" and send: "session_send data t s = Inr (ok, s')"
  show ?thesis
  proof (cases "state s = CONNECTED")
    case True
    from send True obtain fs where r: "s' = run_pc (channel_sends fs (pc s)) s"
      by (auto simp: session_send_def pc_send_def rbind_eq_Inr) metis
    obtain calls p' where r': "channel_sends fs (pc s) = (calls, p')" by fastforce
    have ok: "channels_ok (pc s)" using inv by (simp add: session_inv_def peer_ok_def)
    note spec = channel_sends_spec [OF ok r']
    have "is_open t p'" for t using spec [of t] connected_open [OF inv True] by simp
    then have "pending_of t p' = []" for t
      using spec [of t] by (cases t) (auto simp: channels_ok_def is_open_def pending_of_def)
    then show ?thesis using peer_event_inv [OF inv, of p' calls] spec by (simp add: r r')
  next
    case False
    with send inv show ?thesis by (auto simp: session_send_def)
  qed
qed

lemma read_inv: "session_inv s \<Longrightarrow> session_inv (snd (session_read m s))"
  by (auto simp: session_read_def pc_read_def session_inv_def peer_ok_def channels_ok_def pending_of_def
      split: prod.splits)

lemma session_inv_step: "session_inv s \<Longrightarrow> session_inv (session_step udec from_sdp s e)"
proof (cases e)
  case (Resume i raw)
  assume "session_inv s"
  with Resume show ?thesis by (simp add: resume_inv split: option.split)
next
  case (AnswerCall offer)
  assume "session_inv s"
  with AnswerCall show ?thesis by (simp add: calm_inv [OF create_answer_calm])
next
  case (ConnectionState st)
  assume "session_inv s"
  with ConnectionState show ?thesis using close_spec [of s] by (simp add: handle_connection_state_def)
qed (simp_all add: create_offer_def accept_answer_spec handle_signal_inv register_inv opened_inv message_inv
      close_spec aclose_def send_inv read_inv split: option.split sum.split prod.split)

definition fresh_session :: "'c session \<Rightarrow> bool" where
  "fresh_session s \<longleftrightarrow> (\<exists>conn dialer on_op on_cl on_pkt relay. s = new_session conn dialer on_op on_cl on_pkt relay)"

lemma new_session_inv: "session_inv (new_session conn dialer on_op on_cl on_pkt relay)"
  by (simp add: new_session_def session_inv_def peer_ok_def new_pc_ok)

interpretation session_machine: state_machine "session_step udec from_sdp" fresh_session session_inv
  for udec from_sdp
  by unfold_locales (auto simp: fresh_session_def new_session_inv session_inv_step)

section \<open>What each event tells the owner and the remote peer\<close>

text \<open>
  \<open>sound_message\<close>: what a session may send. Offers and answers carry no candidate line; the
  candidates follow one by one.
\<close>

fun sound_message :: "signaling_message \<Rightarrow> bool" where
  "sound_message (ConnectRequest c offer) \<longleftrightarrow> strip_candidates offer = (offer, [])"
| "sound_message (ConnectResponse c answer) \<longleftrightarrow> strip_candidates answer = (answer, [])"
| "sound_message (CandidateAdd c text) \<longleftrightarrow> starts_with candidate_prefix text"
| "sound_message (ConnectError c err) \<longleftrightarrow> normal_error err"

definition own_signal :: "int \<Rightarrow> pystr \<Rightarrow> bool" where
  "own_signal c x \<longleftrightarrow> (\<exists>m. x = serialize_signaling m \<and> connection_id m = c \<and> sound_message m)"

definition normal_event :: "session_event \<Rightarrow> bool" where
  "normal_event e \<longleftrightarrow> (case e of CloseCall err True \<Rightarrow> normal_error err | _ \<Rightarrow> True)"

text \<open>
  One step tells the owner of a close exactly when it goes from another state to \<open>CLOSED\<close>,
  and sends only signals of its own connection.
\<close>

definition notices_rel :: "'c session \<Rightarrow> 'c session \<Rightarrow> bool" where
  "notices_rel s s' \<longleftrightarrow> same_session s s' \<and>
     (if state s \<noteq> CLOSED \<and> state s' = CLOSED \<and> has_on_close s
      then \<exists>err. closes (log s') = closes (log s) @ [err] else closes (log s') = closes (log s)) \<and>
     (\<exists>new. signals (log s') = signals (log s) @ new \<and> (\<forall>x \<in> set new. own_signal (cid s) x))"

lemma calm_notices: "calm s s' \<Longrightarrow> notices_rel s s'"
  by (auto simp: calm_def notices_rel_def)

lemma notices_refl [simp]: "notices_rel s s"
  by (simp add: notices_rel_def)

lemma notices_tasks [simp]: "notices_rel s (s'\<lparr>tasks := t\<rparr>) = notices_rel s s'"
  by (simp add: notices_rel_def same_session_def)

lemma notices_new_task [simp]: "notices_rel s (new_task p) = notices_rel s (snd p)"
  by (simp add: new_task_def)

lemma notices_set_task [simp]: "notices_rel s (set_task i p) = notices_rel s (snd p)"
  by (simp add: set_task_def)

lemma close_notices_rel:
  assumes "notify \<Longrightarrow> normal_error err"
  shows "notices_rel s (close err notify s)"
proof (cases "state s = CLOSED")
  case True
  then show ?thesis by (simp add: close_def)
next
  case False
  have "same_session s (close err notify s)" "state (close err notify s) = CLOSED"
    using False by (simp_all add: close_def cancel_timeout_def same_session_def Let_def)
  moreover have "notify \<Longrightarrow> own_signal (cid s) (serialize_signaling (ConnectError (cid s) err))"
    using assms by (auto simp: own_signal_def intro!: exI [of _ "ConnectError (cid s) err"])
  ultimately show ?thesis
    using False by (auto simp: notices_rel_def close_notices)
qed

lemma candidate_texts_sound: "c \<in> set (snd (strip_candidates desc)) \<Longrightarrow> starts_with candidate_prefix c"
  using candidate_texts_prefix [of c "splitlines desc"] by (simp add: strip_candidates_eq)

lemma sent_description:
  assumes "strip_candidates desc = (text, cands)"
  shows "strip_candidates text = (text, [])" and "\<forall>c \<in> set cands. starts_with candidate_prefix c"
proof -
  show "strip_candidates text = (text, [])" using strip_candidates_again [of desc] assms by simp
  show "\<forall>c \<in> set cands. starts_with candidate_prefix c" using candidate_texts_sound [of _ desc] assms by simp
qed

lemma candidates_own:
  "\<forall>c \<in> set cands. starts_with candidate_prefix c \<Longrightarrow>
   \<forall>x \<in> set (map (\<lambda>c. serialize_signaling (CandidateAdd n c)) cands). own_signal n x"
  by (auto simp: own_signal_def intro!: exI [of _ "CandidateAdd n _"])

text \<open>The signals of \<open>start\<close> and \<open>_handle_request\<close>, in their order.\<close>

lemma after_offer_signals:
  assumes "strip_candidates (local_sdp udec (pc s) raw) = (offer, cands)"
  shows "signals (log (after_offer udec KStart raw s)) = signals (log s) @
    serialize_signaling (ConnectRequest (cid s) offer) #
    map (\<lambda>c. serialize_signaling (CandidateAdd (cid s) c)) cands"
  using assms by (simp add: after_offer_def send_candidates_def arm_timeout_def cancel_timeout_def)

lemma after_answer_signals:
  assumes "strip_candidates (local_sdp udec (pc s) raw) = (answer, cands)"
  shows "signals (log (after_answer udec KRequest raw s)) = signals (log s) @
    serialize_signaling (ConnectResponse (cid s) answer) #
    map (\<lambda>c. serialize_signaling (CandidateAdd (cid s) c)) cands"
  using assms by (simp add: after_answer_def send_candidates_def arm_timeout_def cancel_timeout_def)

lemma description_own:
  assumes "strip_candidates desc = (text, cands)"
  shows "\<forall>x \<in> set (serialize_signaling (ConnectRequest n text) #
      map (\<lambda>c. serialize_signaling (CandidateAdd n c)) cands). own_signal n x"
    and "\<forall>x \<in> set (serialize_signaling (ConnectResponse n text) #
      map (\<lambda>c. serialize_signaling (CandidateAdd n c)) cands). own_signal n x"
proof -
  note sound = sent_description [OF assms]
  have "own_signal n (serialize_signaling (ConnectRequest n text))"
    unfolding own_signal_def by (rule exI [of _ "ConnectRequest n text"]) (simp add: sound(1))
  then show "\<forall>x \<in> set (serialize_signaling (ConnectRequest n text) #
      map (\<lambda>c. serialize_signaling (CandidateAdd n c)) cands). own_signal n x"
    using candidates_own [OF sound(2), of n] by simp
  have "own_signal n (serialize_signaling (ConnectResponse n text))"
    unfolding own_signal_def by (rule exI [of _ "ConnectResponse n text"]) (simp add: sound(1))
  then show "\<forall>x \<in> set (serialize_signaling (ConnectResponse n text) #
      map (\<lambda>c. serialize_signaling (CandidateAdd n c)) cands). own_signal n x"
    using candidates_own [OF sound(2), of n] by simp
qed

lemma after_offer_notices: "notices_rel s (after_offer udec k raw s)"
proof (cases k)
  case KStart
  obtain offer cands where desc: "strip_candidates (local_sdp udec (pc s) raw) = (offer, cands)" by fastforce
  show ?thesis
    using after_offer_spec [of udec k raw s] after_offer_signals [OF desc] description_own(1) [OF desc]
    unfolding notices_rel_def KStart by (auto intro: exI)
next
  case KOffer
  have "signals (log (after_offer udec KOffer raw s)) = signals (log s)"
    by (simp add: after_offer_def arm_timeout_def cancel_timeout_def)
  then show ?thesis using after_offer_spec [of udec k raw s] by (simp add: notices_rel_def KOffer)
qed

lemma after_answer_notices: "notices_rel s (after_answer udec k raw s)"
proof (cases k)
  case KRequest
  obtain answer cands where desc: "strip_candidates (local_sdp udec (pc s) raw) = (answer, cands)" by fastforce
  show ?thesis
    using after_answer_spec [of udec k raw s] after_answer_signals [OF desc] description_own(2) [OF desc]
    unfolding notices_rel_def KRequest by (auto intro: exI)
next
  case KAnswer
  have "signals (log (after_answer udec KAnswer raw s)) = signals (log s)"
    by (simp add: after_answer_def arm_timeout_def cancel_timeout_def)
  then show ?thesis using after_answer_spec [of udec k raw s] by (simp add: notices_rel_def KAnswer)
qed

lemma accept_answer_notices: "notices_rel s (snd (accept_answer answer s))"
  by (auto simp: accept_answer_def arm_timeout_def cancel_timeout_def notices_rel_def same_session_def Let_def)

lemma run_pc_notices: "notices_rel s (run_pc r s)"
proof -
  have "state (run_pc r s) = CLOSED \<Longrightarrow> state s = CLOSED"
    using run_calls_spec [of "s\<lparr>pc := snd r\<rparr>" "fst r"] by (auto simp: run_pc_def)
  then show ?thesis using run_pc_spec [of r s] by (auto simp: notices_rel_def)
qed

lemma resume_notices: "notices_rel s (snd (resume_frame udec f raw s))"
  by (cases "setter_frame f", cases f)
    (simp_all add: after_offer_notices after_answer_notices calm_notices [OF resume_calm])

lemma handle_signal_notices: "notices_rel s (snd (handle_signal from_sdp m s))"
proof (cases m)
  case (ConnectError c e)
  then show ?thesis by (simp add: handle_signal_def handle_connect_error_def close_notices_rel)
qed (simp_all add: handle_signal_def handle_request_def calm_notices [OF create_answer_calm]
      calm_notices [OF handle_candidate_calm] accept_answer_notices)

lemma send_notices: "session_send data t s = Inr (ok, s') \<Longrightarrow> notices_rel s s'"
  by (auto simp: session_send_def rbind_eq_Inr run_pc_notices split: if_splits)

lemma read_notices: "notices_rel s (snd (session_read m s))"
  by (simp add: session_read_def notices_rel_def same_session_def split: prod.split)

lemma step_notices:
  assumes "normal_event e"
  shows "notices_rel s (session_step udec from_sdp s e)"
proof (cases e)
  case (CloseCall err notify)
  with assms show ?thesis by (auto simp: normal_event_def intro!: close_notices_rel split: bool.splits)
qed (simp_all add: create_offer_def accept_answer_notices calm_notices [OF create_answer_calm]
      handle_signal_notices resume_notices run_pc_notices close_notices_rel aclose_def
      handle_connection_state_def send_notices read_notices split: option.split sum.split prod.split)

section \<open>Leaving the state CLOSED\<close>

text \<open>
  A stale resumption: the session was closed while a coroutine waited for its local
  description, and aiortc lets the coroutine go on.
\<close>

definition stale :: "'c session \<Rightarrow> session_event \<Rightarrow> bool" where
  "stale s e \<longleftrightarrow> state s = CLOSED \<and>
     (case e of Resume i raw \<Rightarrow> (case task_at i s of Some f \<Rightarrow> setter_frame f | None \<Rightarrow> False) | _ \<Rightarrow> False)"

lemma handle_signal_closed: "state s = CLOSED \<Longrightarrow> handle_signal from_sdp m s = (None, s)"
  by (simp add: handle_signal_def)

lemma state_tasks [simp]:
  "state (new_task p) = state (snd p)" "state (set_task i p) = state (snd p)"
  by (simp_all add: new_task_def set_task_def)

lemma resume_state:
  "state (snd (resume_frame udec f raw s)) =
     (case f of FrCreateOffer k \<Rightarrow> OFFER_SENT | FrLocalAnswer k \<Rightarrow> ANSWER_SENT | _ \<Rightarrow> state s)"
  using resume_calm [of f s udec raw]
  by (cases f) (simp_all add: after_offer_spec after_answer_spec calm_def)

lemma run_pc_closed: "state s = CLOSED \<Longrightarrow> state (run_pc r s) = CLOSED"
  by (simp add: run_pc_spec)

lemma closed_step:
  assumes "state s = CLOSED"
  shows "state (session_step udec from_sdp s e) \<noteq> CLOSED \<longleftrightarrow> stale s e"
proof (cases e)
  case (Resume i raw)
  with assms show ?thesis
    by (cases "task_at i s") (auto simp: stale_def resume_state split: frame.split)
next
  case (ReadCall m)
  with assms show ?thesis by (simp add: stale_def session_read_def split: prod.split)
qed (use assms in \<open>auto simp: stale_def run_pc_closed create_offer_def create_answer_def accept_answer_def
      handle_signal_closed handle_connection_state_def close_def aclose_def session_send_def
      split: option.split sum.split\<close>)

text \<open>
  The machine in which aiortc raises, as it documents, when a closed peer connection is asked
  for a description: a stale resumption is a raise.
\<close>

definition raise_of :: "session_event \<Rightarrow> session_event" where
  "raise_of e = (case e of Resume i raw \<Rightarrow> ResumeRaise i | _ \<Rightarrow> e)"

definition raising_step ::
    "(nat \<Rightarrow> nat option) \<Rightarrow> (pystr \<Rightarrow> 'c option) \<Rightarrow> 'c session \<Rightarrow> session_event \<Rightarrow> 'c session" where
  "raising_step udec from_sdp s e = session_step udec from_sdp s (if stale s e then raise_of e else e)"

lemma not_stale_raise: "stale s e \<Longrightarrow> \<not> stale s (raise_of e)"
  by (auto simp: stale_def raise_of_def split: session_event.splits)

lemma raising_closed: "state s = CLOSED \<Longrightarrow> state (raising_step udec from_sdp s e) = CLOSED"
  unfolding raising_step_def using closed_step [of s udec from_sdp] not_stale_raise [of s e] by metis

text \<open>Closes, counted without a condition on the codes that a close announces.\<close>

lemma step_closes:
  "has_on_close (session_step udec from_sdp s e) = has_on_close s \<and>
   length (closes (log (session_step udec from_sdp s e))) = length (closes (log s)) +
     of_bool (state s \<noteq> CLOSED \<and> state (session_step udec from_sdp s e) = CLOSED \<and> has_on_close s)"
proof (cases "normal_event e")
  case True
  from step_notices [OF this, of s udec from_sdp] show ?thesis
    by (auto simp: notices_rel_def same_session_def split: if_splits)
next
  case False
  then obtain err where "e = CloseCall err True"
    by (auto simp: normal_event_def split: session_event.splits bool.splits)
  moreover have "has_on_close (close err True s) = has_on_close s \<and> state (close err True s) = CLOSED"
    by (simp add: close_def cancel_timeout_def Let_def)
  ultimately show ?thesis by (simp add: close_notices)
qed

definition tidy_inv :: "'c session \<Rightarrow> bool" where
  "tidy_inv s \<longleftrightarrow> session_inv s \<and> length (closes (log s)) = of_bool (state s = CLOSED \<and> has_on_close s)"

lemma tidy_inv_step: "tidy_inv s \<Longrightarrow> tidy_inv (raising_step udec from_sdp s e)"
proof -
  assume inv: "tidy_inv s"
  have "session_inv (raising_step udec from_sdp s e)"
    using inv by (simp add: tidy_inv_def raising_step_def session_inv_step)
  moreover have "state s = CLOSED \<Longrightarrow> state (raising_step udec from_sdp s e) = CLOSED"
    by (rule raising_closed)
  moreover have "has_on_close (raising_step udec from_sdp s e) = has_on_close s \<and>
      length (closes (log (raising_step udec from_sdp s e))) = length (closes (log s)) +
        of_bool (state s \<noteq> CLOSED \<and> state (raising_step udec from_sdp s e) = CLOSED \<and> has_on_close s)"
    unfolding raising_step_def by (rule step_closes)
  ultimately show ?thesis using inv by (auto simp: tidy_inv_def)
qed

lemma new_session_tidy: "tidy_inv (new_session conn dialer on_op on_cl on_pkt relay)"
  using new_session_inv [of conn dialer on_op on_cl on_pkt relay] by (simp add: tidy_inv_def new_session_def)

interpretation closing: absorbing_machine
  "raising_step udec from_sdp" fresh_session tidy_inv "\<lambda>s. state s = CLOSED"
  for udec from_sdp
  by unfold_locales (auto simp: fresh_session_def new_session_tidy tidy_inv_step raising_closed)

section \<open>The log only grows, the identity stays\<close>

definition grows :: "'c session \<Rightarrow> 'c session \<Rightarrow> bool" where
  "grows s s' \<longleftrightarrow> (\<exists>es. log s' = log s @ es)"

lemma grows_refl [simp]: "grows s s"
  by (simp add: grows_def)

lemma grows_trans: "grows a b \<Longrightarrow> grows b c \<Longrightarrow> grows a c"
  by (auto simp: grows_def)

lemma grows_updates [simp]:
  "grows s (s'\<lparr>tasks := t\<rparr>) = grows s s'" "grows s (s'\<lparr>pc := p\<rparr>) = grows s s'"
  "grows (s\<lparr>pc := p\<rparr>) s' = grows s s'" "grows s (new_task q) = grows s (snd q)"
  "grows s (set_task i q) = grows s (snd q)" "grows s (emit es s)"
  by (simp_all add: grows_def new_task_def set_task_def)

lemma run_calls_grow: "grows s (foldl run_call s calls)"
proof (induction calls arbitrary: s)
  case (Cons c calls)
  have "grows s (run_call s c)"
    by (cases c) (simp_all add: handle_channels_open_def cancel_timeout_def handle_packet_def grows_def Let_def)
  with Cons.IH [of "run_call s c"] grows_trans show ?case by (simp, blast)
qed simp

lemma run_pc_grows [simp]: "grows s (run_pc r s)"
  using run_calls_grow [of "s\<lparr>pc := snd r\<rparr>" "fst r"] by (simp add: run_pc_def)

lemma close_grows [simp]: "grows s (close err notify s)"
  by (simp add: close_def cancel_timeout_def grows_def Let_def)

lemma flush_grows [simp]: "grows s (snd (flush_from k i s))" "grows s (snd (begin_flush k s))"
proof -
  show flush: "grows s (snd (flush_from k i s))" for s :: "'a session" and i
    by (cases "flush_next i (pc s)"; cases "fst (flush_next i (pc s))")
      (auto simp: flush_from_def grows_def Let_def)
  show "grows s (snd (begin_flush k s))"
    using flush [of "s\<lparr>pc := flush_begin (pc s)\<rparr>" 0] by (simp add: begin_flush_def)
qed

lemma resume_grows [simp]: "grows s (snd (resume_frame udec f raw s))"
proof (cases f)
  case (FrCreateOffer k)
  then show ?thesis
    by (cases k) (auto simp: after_offer_def send_candidates_def arm_timeout_def cancel_timeout_def
        grows_def Let_def split: prod.splits)
next
  case (FrLocalAnswer k)
  then show ?thesis
    by (cases k) (auto simp: after_answer_def send_candidates_def arm_timeout_def cancel_timeout_def
        grows_def Let_def split: prod.splits)
qed simp_all

lemma accept_answer_grows [simp]: "grows s (snd (accept_answer answer s))"
  by (simp add: accept_answer_def arm_timeout_def cancel_timeout_def grows_def Let_def)

lemma create_answer_grows [simp]: "grows s (snd (create_answer k offer s))"
  by (simp add: create_answer_def)

lemma handle_signal_grows [simp]: "grows s (snd (handle_signal from_sdp m s))"
  by (cases m) (simp_all add: handle_signal_def handle_connect_error_def handle_request_def
      handle_candidate_def split: option.split)

lemma send_grows: "session_send data t s = Inr (ok, s') \<Longrightarrow> grows s s'"
  by (auto simp: session_send_def rbind_eq_Inr split: if_splits)

lemma step_grows: "grows s (session_step udec from_sdp s e)"
  by (cases e) (simp_all add: create_offer_def handle_connection_state_def aclose_def send_grows
      session_read_def split: option.split sum.split prod.split)

lemma step_same: "same_session s (session_step udec from_sdp s e)"
proof (cases "normal_event e")
  case True
  from step_notices [OF this, of s udec from_sdp] show ?thesis by (simp add: notices_rel_def)
next
  case False
  then obtain err where "e = CloseCall err True"
    by (auto simp: normal_event_def split: session_event.splits bool.splits)
  then show ?thesis by (simp add: close_def cancel_timeout_def same_session_def Let_def)
qed

text \<open>A step that closes the session has told the owner in the effects it added.\<close>

lemma step_close_told:
  assumes "has_on_close s" and "state s \<noteq> CLOSED" and "state (session_step udec from_sdp s e) = CLOSED"
  shows "closes (drop (length (log s)) (log (session_step udec from_sdp s e))) \<noteq> []"
proof -
  obtain es where es: "log (session_step udec from_sdp s e) = log s @ es"
    using step_grows [of s udec from_sdp e] by (auto simp: grows_def)
  with step_closes [of udec from_sdp s e] assms show ?thesis by (auto simp: es)
qed

section \<open>Runs\<close>

abbreviation session_run ::
    "(nat \<Rightarrow> nat option) \<Rightarrow> (pystr \<Rightarrow> 'c option) \<Rightarrow> 'c session \<Rightarrow> session_event list \<Rightarrow> 'c session" where
  "session_run udec from_sdp \<equiv> foldl (session_step udec from_sdp)"

lemma run_signals_own:
  assumes "\<forall>e \<in> set es. normal_event e" and "\<forall>x \<in> set (signals (log s)). own_signal (cid s) x"
  shows "cid (session_run udec from_sdp s es) = cid s \<and>
    (\<forall>x \<in> set (signals (log (session_run udec from_sdp s es))). own_signal (cid s) x)"
  using assms
proof (induction es arbitrary: s)
  case Nil
  then show ?case by simp
next
  case (Cons e es)
  have "notices_rel s (session_step udec from_sdp s e)" using Cons.prems(1) by (simp add: step_notices)
  then have "cid (session_step udec from_sdp s e) = cid s"
      "\<forall>x \<in> set (signals (log (session_step udec from_sdp s e))). own_signal (cid s) x"
    using Cons.prems(2) by (auto simp: notices_rel_def same_session_def)
  with Cons.IH [of "session_step udec from_sdp s e"] Cons.prems(1) show ?case by simp
qed

lemma own_signal_parses:
  assumes "own_signal c x" and "0 \<le> c" and "c \<le> U64_MAX"
  shows "\<exists>m. parse_signaling x = Inr (Some m) \<and> connection_id m = c \<and> sound_message m"
proof -
  obtain m where m: "x = serialize_signaling m" "connection_id m = c" "sound_message m"
    using assms(1) by (auto simp: own_signal_def)
  then have "wire_message m" using assms(2,3) by (cases m) (simp_all add: wire_message_def)
  with m show ?thesis by (auto simp: parse_serialize)
qed

section \<open>Reachable sessions\<close>

definition reachable ::
    "(nat \<Rightarrow> nat option) \<Rightarrow> (pystr \<Rightarrow> 'c option) \<Rightarrow> 'c session \<Rightarrow> bool" where
  "reachable udec from_sdp s \<longleftrightarrow> (\<exists>s0 es. fresh_session s0 \<and> s = session_run udec from_sdp s0 es)"

lemma reachable_inv: "reachable udec from_sdp s \<Longrightarrow> session_inv s"
  by (auto simp: reachable_def intro: session_machine.inv_reachable)

lemma fresh_new [simp]: "fresh_session (new_session conn dialer on_op on_cl on_pkt relay)"
  unfolding fresh_session_def by blast

lemma reachable_run [simp]: "reachable udec from_sdp (session_run udec from_sdp (new_session conn dialer on_op on_cl on_pkt relay) es)"
  unfolding reachable_def using fresh_new by blast

lemma channel_sends_open:
  "channel_of (t = Reliable) p = Some ch \<Longrightarrow> is_open (t = Reliable) p \<Longrightarrow>
   channel_sends (map (Pair t) fs) p = (map (ChannelSend (t = Reliable) ch) fs, p)"
  by (induction fs) (simp_all add: channel_send_def)

lemma run_sends: "foldl run_call s (map (ChannelSend r ch) fs) = emit (map (\<lambda>f. PeerCall (ChannelSend r ch f)) fs) s"
  by (induction fs arbitrary: s) (simp_all add: emit_def)

lemma send_connected:
  assumes "session_inv s" and "state s = CONNECTED"
  obtains ch where "channel_of (t = Reliable) (pc s) = Some ch"
    and "session_send data t s = Inr (accepted data t, if accepted data t
      then emit (map (\<lambda>f. PeerCall (ChannelSend (t = Reliable) ch f)) (countdown_fragments (packet_chunks data))) s
      else s)"
proof -
  have op: "is_open (t = Reliable) (pc s)" by (rule connected_open [OF assms])
  then obtain ch where ch: "channel_of (t = Reliable) (pc s) = Some ch"
    using assms(1) by (cases "t = Reliable")
      (auto simp: session_inv_def peer_ok_def channels_ok_def is_open_def channel_of_def)
  show ?thesis
  proof (rule that [OF ch])
    show "session_send data t s = Inr (accepted data t, if accepted data t
      then emit (map (\<lambda>f. PeerCall (ChannelSend (t = Reliable) ch f)) (countdown_fragments (packet_chunks data))) s
      else s)"
      using assms(2) by (simp add: session_send_def pc_send_def push_accepted push_rejected
          channel_sends_open [OF ch op] run_pc_def run_sends)
  qed
qed

lemma timer_closes:
  assumes "session_inv s" and "timer s = Some e"
  shows "state (session_step udec from_sdp s TimerFires) = CLOSED \<and>
    closes (log (session_step udec from_sdp s TimerFires)) = closes (log s) @ (if has_on_close s then [Known e] else [])"
proof -
  have "state s \<noteq> CLOSED" using assms by (auto simp: session_inv_def)
  with assms show ?thesis using close_spec [OF assms(1)] by (simp add: close_notices)
qed

lemma stale_cases:
  assumes "stale s e"
  obtains i raw k where "e = Resume i raw" "task_at i s = Some (FrCreateOffer k)" "state s = CLOSED"
  | i raw k where "e = Resume i raw" "task_at i s = Some (FrLocalAnswer k)" "state s = CLOSED"
proof -
  obtain i raw f where "e = Resume i raw" "task_at i s = Some f" "setter_frame f" "state s = CLOSED"
    using assms by (auto simp: stale_def split: session_event.splits option.splits)
  with that show ?thesis by (cases f) simp_all
qed

lemma stale_reopens:
  assumes "session_inv s" and "stale s e"
  shows "state (session_step udec from_sdp s e) = OFFER_SENT \<or> state (session_step udec from_sdp s e) = ANSWER_SENT"
  using assms(2) by (rule stale_cases) (simp_all add: after_offer_spec after_answer_spec)

lemma same_kept:
  "has_on_close (after_offer udec k raw s) = has_on_close s"
  "has_on_close (after_answer udec l raw s) = has_on_close s"
  using after_offer_spec [of udec k raw s] after_answer_spec [of udec l raw s]
  by (simp_all add: same_session_def)

text \<open>The second channel opens.\<close>

lemma second_channel_opens:
  assumes "peer_ok p" and "channel_of rel p \<noteq> None" and "\<not> is_open rel p" and "is_open (\<not> rel) p"
  shows "fst (handle_channel_open rel p) = [ChannelsOpenCb]"
  using assms
  by (cases rel) (auto simp: handle_channel_open_def peer_ok_def channels_ok_def flush_calls_def
      channel_accessors Let_def split: option.splits)

text \<open>The definitions that evaluate short runs.\<close>

lemmas session_run_simps =
  new_session_def create_offer_def create_answer_def new_task_def set_task_def task_at_def emit_def
  handle_signal_def handle_request_def begin_flush_def flush_from_def flush_begin_def flush_next_def
  arm_timeout_def cancel_timeout_def after_answer_def after_offer_def send_candidates_def
  new_pc_def bare_pc_def register_channel_def set_channel_def Let_def

lemma raising_has_on_close:
  "has_on_close s \<Longrightarrow> has_on_close (foldl (raising_step udec from_sdp) s es)"
  by (induction es arbitrary: s) (simp_all add: raising_step_def step_closes)

section \<open>Properties\<close>

text \<open>
  C2: timeouts, over all interleavings. A session waits under a timer exactly while it
  negotiates, and under the error of its state; closed or connected it has none. A closed
  session has started to tear down its peer connection; a connected one has both channels open.
\<close>

theorem session_timers:
  assumes "reachable udec from_sdp s"
  shows "timer s = timer_for (state s) \<and> (state s = CLOSED \<longrightarrow> close_task s) \<and>
    (state s = CONNECTED \<longrightarrow> reliable_open (pc s) \<and> unreliable_open (pc s))"
  using reachable_inv [OF assms] by (auto simp: session_inv_def peer_ok_def channels_ok_def)

theorem session_timers_witness:
  "timer (session_run (\<lambda>_. None) (\<lambda>_. None :: nat option) (new_session 1 True True True True False) [Start, Resume 0 []]) =
     Some E_NEGOTIATION_TIMEOUT_WAITING_FOR_RESPONSE"
proof -
  let ?s = "session_run (\<lambda>_. None) (\<lambda>_. None :: nat option) (new_session 1 True True True True False) [Start, Resume 0 []]"
  have "state ?s = OFFER_SENT"
    by (simp add: create_offer_def new_task_def set_task_def task_at_def new_session_def after_offer_spec)
  moreover have "timer ?s = timer_for (state ?s)" by (rule session_timers [OF reachable_run, THEN conjunct1])
  ultimately show ?thesis by (simp only: timer_for.simps)
qed

text \<open>
  The timer is effective: when it fires, the session is closed with the error of the
  state that was waited in, and the owner is told that error.
\<close>

theorem session_times_out:
  assumes "reachable udec from_sdp s" and "timer_for (state s) = Some e"
  shows "state (session_step udec from_sdp s TimerFires) = CLOSED \<and>
    closes (log (session_step udec from_sdp s TimerFires)) =
      closes (log s) @ (if has_on_close s then [Known e] else [])"
  using timer_closes [OF reachable_inv [OF assms(1)], of e udec from_sdp] assms(2)
    reachable_inv [OF assms(1)] by (simp add: session_inv_def)

theorem session_times_out_witness:
  "state (session_run (\<lambda>_. None) (\<lambda>_. None :: nat option) (new_session 1 True True True True False)
     [OfferCall, Resume 0 [], TimerFires]) = CLOSED"
proof -
  let ?s = "session_run (\<lambda>_. None) (\<lambda>_. None :: nat option) (new_session 1 True True True True False) [OfferCall, Resume 0 []]"
  have "state ?s = OFFER_SENT"
    by (simp add: create_offer_def new_task_def set_task_def task_at_def new_session_def after_offer_spec)
  then have "timer_for (state ?s) = Some E_NEGOTIATION_TIMEOUT_WAITING_FOR_RESPONSE" by simp
  from session_times_out [OF reachable_run this, THEN conjunct1] show ?thesis by simp
qed

text \<open>
  Over all interleavings the owner is told at most once that the session is open, and
  only when both data channels are.
\<close>

theorem session_opens_once:
  assumes "reachable udec from_sdp s"
  shows "opens (log s) \<le> of_bool (reliable_open (pc s) \<and> unreliable_open (pc s))"
proof -
  have "channels_open_fired (pc s) \<longrightarrow> reliable_open (pc s) \<and> unreliable_open (pc s)"
      "opens (log s) \<le> of_bool (channels_open_fired (pc s))"
    using reachable_inv [OF assms] by (auto simp: session_inv_def peer_ok_def channels_ok_def)
  then show ?thesis by (cases "channels_open_fired (pc s)") auto
qed

theorem session_opens_once_witness:
  "opens (log (session_run (\<lambda>_. None) (\<lambda>_. None :: nat option) (new_session 1 True True True True False)
     [ChannelOpened True, ChannelOpened True, Start])) \<le> 1"
  by (rule order.trans [OF session_opens_once [OF reachable_run]]) simp

text \<open>
  A session that negotiates is connected by the opening of its second data channel: its
  timer is cancelled and the owner, if it asked for it, is told.
\<close>

theorem session_connects:
  assumes "reachable udec from_sdp s" and "state s \<notin> {CONNECTED, CLOSED}"
    and "channel_of rel (pc s) \<noteq> None" and "\<not> is_open rel (pc s)" and "is_open (\<not> rel) (pc s)"
  shows "state (session_step udec from_sdp s (ChannelOpened rel)) = CONNECTED \<and>
    timer (session_step udec from_sdp s (ChannelOpened rel)) = None \<and>
    log (session_step udec from_sdp s (ChannelOpened rel)) = log s @ (if has_on_open s then [OnOpen] else [])"
proof -
  have "peer_ok (pc s)" using reachable_inv [OF assms(1)] by (simp add: session_inv_def)
  from second_channel_opens [OF this assms(3-5)] have
    "session_step udec from_sdp s (ChannelOpened rel) =
      handle_channels_open (s\<lparr>pc := snd (handle_channel_open rel (pc s))\<rparr>)"
    using assms(3) by (auto simp: run_pc_def)
  with assms(2) show ?thesis by (simp add: handle_channels_open_def cancel_timeout_def Let_def)
qed

theorem session_connects_witness:
  "state (session_step (\<lambda>_. None) (\<lambda>_. None) (session_run (\<lambda>_. None) (\<lambda>_. None :: nat option)
     (new_session 1 True True True True False) [ChannelOpened True]) (ChannelOpened False)) = CONNECTED"
proof (rule session_connects [OF reachable_run, THEN conjunct1])
  let ?s = "session_run (\<lambda>_. None) (\<lambda>_. None :: nat option) (new_session 1 True True True True False) [ChannelOpened True]"
  have s: "?s = (new_session 1 True True True True False)\<lparr>pc := (new_pc True False True True)\<lparr>reliable_open := True\<rparr>\<rparr>"
    by (simp add: session_run_simps new_pc_run_simps run_pc_def)
  show "state ?s \<notin> {CONNECTED, CLOSED}" unfolding s by (simp add: new_session_def)
  show "channel_of False (pc ?s) \<noteq> None" "\<not> is_open False (pc ?s)" "is_open (\<not> False) (pc ?s)"
    unfolding s by (simp_all add: new_pc_run_simps)
qed

text \<open>
  Application data. Before and after the connected phase \<open>send\<close> returns \<open>False\<close> and does
  nothing; while connected it returns whether the packet is accepted, and then all of the
  packet's fragments go at once to the open channel of the send type.
\<close>

theorem session_send_outcome:
  assumes "reachable udec from_sdp s"
  shows "\<exists>ch. (state s = CONNECTED \<longrightarrow> channel_of (t = Reliable) (pc s) = Some ch) \<and>
    session_send data t s =
      (if state s = CONNECTED \<and> accepted data t
       then Inr (True, emit (map (\<lambda>f. PeerCall (ChannelSend (t = Reliable) ch f))
              (countdown_fragments (packet_chunks data))) s)
       else Inr (False, s))"
proof (cases "state s = CONNECTED")
  case True
  obtain ch where "channel_of (t = Reliable) (pc s) = Some ch"
    and "session_send data t s = Inr (accepted data t, if accepted data t
      then emit (map (\<lambda>f. PeerCall (ChannelSend (t = Reliable) ch f)) (countdown_fragments (packet_chunks data))) s
      else s)"
    by (rule send_connected [OF reachable_inv [OF assms] True])
  with True show ?thesis by auto
next
  case False
  then show ?thesis by (simp add: session_send_def)
qed

theorem session_send_outcome_witness:
  "session_send [1] Reliable (new_session 1 True True True True False :: nat session) =
     Inr (False, new_session 1 True True True True False)"
proof -
  have "reachable (\<lambda>_. None) (\<lambda>_. None) (new_session 1 True True True True False :: nat session)"
    using reachable_run [of "\<lambda>_. None" "\<lambda>_. None" 1 True True True True False "[]"] by simp
  from session_send_outcome [OF this, of Reliable "[1]"] show ?thesis by (auto simp: new_session_def)
qed

text \<open>
  C11: everything a session sends, in any interleaving, is a signaling string that parses back
  to a message of its own connection; an offer or answer carries no candidate line, and a
  candidate message carries a candidate.
\<close>

theorem session_signals_sound:
  assumes "0 \<le> conn" and "conn \<le> U64_MAX" and "\<forall>e \<in> set es. normal_event e"
    and "x \<in> set (signals (log (session_run udec from_sdp (new_session conn dialer on_op on_cl on_pkt relay) es)))"
  shows "\<exists>m. parse_signaling x = Inr (Some m) \<and> connection_id m = conn \<and> sound_message m"
proof -
  have "own_signal conn x"
    using run_signals_own [OF assms(3), of "new_session conn dialer on_op on_cl on_pkt relay" udec from_sdp] assms(4)
    by (simp add: new_session_def)
  then show ?thesis using assms(1,2) by (rule own_signal_parses)
qed

theorem session_signals_sound_witness:
  "\<exists>m. parse_signaling (serialize_signaling (ConnectError 1 (Known E_NONE))) = Inr (Some m) \<and>
    connection_id m = 1 \<and> sound_message m"
  using session_signals_sound [of 1 "[CloseCall (Known E_NONE) True]"
      "serialize_signaling (ConnectError 1 (Known E_NONE))" "\<lambda>_. None" "\<lambda>_. None" True True True True False]
  by (simp add: U64_MAX_def normal_event_def new_session_def close_notices)

text \<open>
  C13: how a session can leave \<open>CLOSED\<close>: exactly by the resumption of a coroutine that was
  waiting for its local description (\<open>start\<close>, \<open>offer\<close>, \<open>answer\<close>, \<open>_handle_request\<close> set the
  state after their await without looking at it). No signal, callback, timer, send or close
  reopens a closed session.
\<close>

theorem session_leaves_closed:
  assumes "state s = CLOSED"
  shows "state (session_step udec from_sdp s e) \<noteq> CLOSED \<longleftrightarrow> stale s e"
  using assms by (rule closed_step)

theorem session_leaves_closed_witness:
  "state (session_step (\<lambda>_. None) (\<lambda>_. None :: nat option)
     (close (Known E_NONE) False (new_session 1 True True True True False)) (ChannelOpened True)) = CLOSED"
proof -
  let ?s = "close (Known E_NONE) False (new_session 1 True True True True False) :: nat session"
  have "state ?s = CLOSED" by (rule close_spec [OF new_session_inv, THEN conjunct2, THEN conjunct2, THEN conjunct1])
  from session_leaves_closed [OF this, of "\<lambda>_. None" "\<lambda>_. None" "ChannelOpened True"] show ?thesis
    by (simp add: stale_def)
qed

text \<open>
  Such a resumption brings a closed session back to life: it negotiates again under a
  timer, and when that fires the owner is told of a close a second time.
\<close>

theorem session_closes_twice:
  assumes "reachable udec from_sdp s" and "stale s e" and "has_on_close s"
  shows "\<exists>err. state (session_step udec from_sdp s e) \<in> {OFFER_SENT, ANSWER_SENT} \<and>
    closes (log (session_run udec from_sdp s [e, TimerFires])) = closes (log s) @ [Known err]"
proof -
  let ?t = "session_step udec from_sdp s e"
  have inv: "session_inv ?t" by (rule session_inv_step [OF reachable_inv [OF assms(1)]])
  have st: "state ?t = OFFER_SENT \<or> state ?t = ANSWER_SENT"
    by (rule stale_reopens [OF reachable_inv [OF assms(1)] assms(2)])
  then obtain err where "timer ?t = Some err" using inv by (auto simp: session_inv_def)
  from timer_closes [OF inv this, of udec from_sdp] have
    "closes (log (session_run udec from_sdp s [e, TimerFires])) = closes (log ?t) @ (if has_on_close ?t then [Known err] else [])"
    by simp
  moreover have "closes (log ?t) = closes (log s) \<and> has_on_close ?t"
    using assms(2)
    by (rule stale_cases) (use assms(3) in \<open>auto simp: set_task_def after_offer_spec after_answer_spec same_kept\<close>)
  ultimately show ?thesis using st by auto
qed

theorem session_closes_twice_witness:
  "\<exists>err. closes (log (session_run (\<lambda>_. None) (\<lambda>_. None :: nat option) (new_session 1 True True True True False)
     [Start, CloseCall (Known E_NONE) False, Resume 0 [], TimerFires])) = [Known E_NONE, Known err]"
proof -
  let ?s = "session_run (\<lambda>_. None) (\<lambda>_. None :: nat option) (new_session 1 True True True True False)
     [Start, CloseCall (Known E_NONE) False]"
  have "stale ?s (Resume 0 [])" "has_on_close ?s" "closes (log ?s) = [Known E_NONE]"
    by (simp_all add: stale_def session_run_simps close_def)
  with session_closes_twice [OF reachable_run this(1,2)] show ?thesis by simp
qed



text \<open>
  A repeated CONNECTREQUEST that arrives while the first is still being answered passes
  the listener's check for \<open>IDLE\<close> as well: the listener answers twice.
\<close>

theorem duplicate_request_answered_twice:
  fixes udec from_sdp and conn :: int and raw1 raw2 offer1 offer2 :: pystr and on_op on_cl on_pkt relay :: bool
  defines "s \<equiv> session_run udec from_sdp (new_session conn False on_op on_cl on_pkt relay :: nat session)
     [HandleSignal (ConnectRequest conn offer1), HandleSignal (ConnectRequest conn offer2),
      Resume 0 [], Resume 1 [], Resume 0 raw1, Resume 1 raw2]"
  shows "List.member (signals (log s)) (serialize_signaling (ConnectResponse conn
      (fst (strip_candidates (local_sdp udec (pc s) raw1))))) \<and>
    List.member (signals (log s)) (serialize_signaling (ConnectResponse conn
      (fst (strip_candidates (local_sdp udec (pc s) raw2)))))"
  by (simp add: s_def session_run_simps local_sdp_def split: prod.split)

end
