(* ===== verification/Negotiation.thy ===== *)
theory Negotiation
  imports Session
begin

text \<open>
  Two sessions that talk to each other: the strings one has sent are parsed and handed to the
  other, as \<open>SessionManager.handle_signal\<close> does for a session it knows. The lemmas follow the
  candidates through the listener's buffer and the flush loop.
\<close>

section \<open>A known session receives a signaling string\<close>

definition receive_signal ::
    "(nat \<Rightarrow> nat option) \<Rightarrow> (pystr \<Rightarrow> 'c option) \<Rightarrow> 'c session \<Rightarrow> pystr \<Rightarrow> 'c session" where
  "receive_signal udec from_sdp s text =
     (case parse_signaling text of
        Inr (Some m) \<Rightarrow> session_step udec from_sdp s (HandleSignal m)
      | _ \<Rightarrow> s)"

abbreviation receive_signals ::
    "(nat \<Rightarrow> nat option) \<Rightarrow> (pystr \<Rightarrow> 'c option) \<Rightarrow> 'c session \<Rightarrow> pystr list \<Rightarrow> 'c session" where
  "receive_signals udec from_sdp \<equiv> foldl (receive_signal udec from_sdp)"

definition u64 :: "int \<Rightarrow> bool" where
  "u64 n \<longleftrightarrow> 0 \<le> n \<and> n \<le> U64_MAX"

lemma receive_own:
  "wire_message m \<Longrightarrow>
   receive_signal udec from_sdp s (serialize_signaling m) = session_step udec from_sdp s (HandleSignal m)"
  by (simp add: receive_signal_def parse_serialize)

lemma wire_described [simp]:
  "u64 n \<Longrightarrow> wire_message (ConnectRequest n t)" "u64 n \<Longrightarrow> wire_message (ConnectResponse n t)"
  "u64 n \<Longrightarrow> wire_message (CandidateAdd n t)"
  by (simp_all add: wire_message_def u64_def)

section \<open>Candidates before the remote description\<close>

definition usable_candidates :: "(pystr \<Rightarrow> 'c option) \<Rightarrow> pystr list \<Rightarrow> ('c \<times> nat) list" where
  "usable_candidates from_sdp texts = List.map_filter (candidate_from_message from_sdp) texts"

lemma usable_candidates_simps [simp]:
  "usable_candidates from_sdp [] = []"
  "usable_candidates from_sdp (t # ts) =
     (case candidate_from_message from_sdp t of None \<Rightarrow> [] | Some c \<Rightarrow> [c]) @ usable_candidates from_sdp ts"
  by (simp_all add: usable_candidates_def map_filter_def split: option.split)

lemma candidates_buffered:
  assumes "u64 conn" and "state s \<noteq> CLOSED" and "\<not> remote_description_set (pc s)"
  shows "receive_signals udec from_sdp s (map (\<lambda>c. serialize_signaling (CandidateAdd conn c)) texts) =
    s\<lparr>pc := (pc s)\<lparr>pending_remote_candidates :=
        pending_remote_candidates (pc s) @ usable_candidates from_sdp texts\<rparr>,
      tasks := tasks s @ replicate (length texts) None\<rparr>"
  using assms(2,3)
proof (induction texts arbitrary: s)
  case Nil
  then show ?case by simp
next
  case (Cons t ts)
  have "receive_signal udec from_sdp s (serialize_signaling (CandidateAdd conn t)) =
      session_step udec from_sdp s (HandleSignal (CandidateAdd conn t))"
    using assms(1) by (intro receive_own) simp
  also have "\<dots> = s\<lparr>pc := (pc s)\<lparr>pending_remote_candidates := pending_remote_candidates (pc s) @
        (case candidate_from_message from_sdp t of None \<Rightarrow> [] | Some c \<Rightarrow> [c])\<rparr>,
      tasks := tasks s @ [None]\<rparr>"
    using Cons.prems
    by (cases "candidate_from_message from_sdp t")
      (simp_all add: handle_signal_def handle_candidate_def add_remote_candidate_def run_pc_def new_task_def)
  finally show ?case using Cons by simp
qed

section \<open>The flush loop\<close>

text \<open>The session after the flush: candidates from index \<open>i\<close> on handed to aiortc.\<close>

definition flushed :: "nat \<Rightarrow> answer_task option \<Rightarrow> nat \<Rightarrow> 'c session \<Rightarrow> 'c session" where
  "flushed t k i s =
     s\<lparr>pc := (pc s)\<lparr>remote_description_set := True, pending_remote_candidates := []\<rparr>,
       tasks := (tasks s)[t := map_option FrLocalAnswer k],
       log := log s @ map (\<lambda>c. PeerCall (AddIceCandidate c)) (drop i (pending_remote_candidates (pc s)))\<rparr>"

lemma flush_step:
  assumes "task_at t s = Some (FrFlush k i)" and "remote_description_set (pc s)"
    and "length (pending_remote_candidates (pc s)) = Suc (i + n)"
  shows "session_step udec from_sdp s (Resume t raw) =
    (if n = 0 then flushed t k (Suc i) s
     else s\<lparr>tasks := (tasks s)[t := Some (FrFlush k (Suc i))],
            log := log s @ [PeerCall (AddIceCandidate (pending_remote_candidates (pc s) ! Suc i))]\<rparr>)"
  using assms
  by (simp add: flush_from_def flush_next_def set_task_def flushed_def emit_def)

lemma flush_loop:
  assumes "task_at t s = Some (FrFlush k i)" and "remote_description_set (pc s)"
    and "length (pending_remote_candidates (pc s)) = Suc (i + n)"
  shows "session_run udec from_sdp s (replicate (Suc n) (Resume t raw)) = flushed t k (Suc i) s"
  using assms
proof (induction n arbitrary: s i)
  case 0
  then show ?case using flush_step [of t s k i 0 udec from_sdp raw] by simp
next
  case (Suc n)
  let ?c = "pending_remote_candidates (pc s) ! Suc i"
  let ?s = "s\<lparr>tasks := (tasks s)[t := Some (FrFlush k (Suc i))], log := log s @ [PeerCall (AddIceCandidate ?c)]\<rparr>"
  have step: "session_step udec from_sdp s (Resume t raw) = ?s"
    using flush_step [OF Suc.prems, of udec from_sdp raw] by simp
  have "task_at t ?s = Some (FrFlush k (Suc i))"
    using Suc.prems(1) by (auto simp: task_at_def split: if_splits)
  then have "session_run udec from_sdp ?s (replicate (Suc n) (Resume t raw)) = flushed t k (Suc (Suc i)) ?s"
    using Suc.prems by (intro Suc.IH) simp_all
  moreover have "drop (Suc i) (pending_remote_candidates (pc s)) = ?c # drop (Suc (Suc i)) (pending_remote_candidates (pc s))"
    using Suc.prems(3) by (intro Cons_nth_drop_Suc [symmetric]) simp
  ultimately show ?case using step by (simp add: flushed_def)
qed

text \<open>From \<open>setRemoteDescription\<close> to the end of the flush: one resumption per candidate and one more.\<close>

lemma describe_and_flush:
  assumes "task_at t s = Some f"
    and "f = FrRemoteOffer a \<and> k = Some a \<or> f = FrRemoteAnswer \<and> k = None"
    and "length (pending_remote_candidates (pc s)) = n"
  shows "session_run udec from_sdp s (replicate (Suc n) (Resume t raw)) = flushed t k 0 s"
proof -
  have step: "session_step udec from_sdp s (Resume t raw) = set_task t (begin_flush k s)"
    using assms(1,2) by auto
  show ?thesis
  proof (cases n)
    case 0
    with step assms(3) show ?thesis
      by (simp add: begin_flush_def flush_begin_def flush_from_def flush_next_def set_task_def flushed_def)
  next
    case (Suc m)
    let ?c = "pending_remote_candidates (pc s) ! 0"
    let ?s = "s\<lparr>pc := (pc s)\<lparr>remote_description_set := True\<rparr>,
      tasks := (tasks s)[t := Some (FrFlush k 0)], log := log s @ [PeerCall (AddIceCandidate ?c)]\<rparr>"
    have "set_task t (begin_flush k s) = ?s"
      using assms(3) Suc by (simp add: begin_flush_def flush_begin_def flush_from_def flush_next_def
          set_task_def emit_def)
    moreover have "session_run udec from_sdp ?s (replicate (Suc m) (Resume t raw)) = flushed t k (Suc 0) ?s"
      using assms(1,3) Suc by (intro flush_loop) (auto simp: task_at_def split: if_splits)
    moreover have "pending_remote_candidates (pc s) = ?c # drop (Suc 0) (pending_remote_candidates (pc s))"
      using assms(3) Suc by (cases "pending_remote_candidates (pc s)") simp_all
    ultimately show ?thesis
      using step Suc by (simp add: flushed_def) (metis list.simps(9))
  qed
qed

section \<open>The two halves of a negotiation\<close>

definition peer_calls :: "'c effect list \<Rightarrow> 'c pc_call list" where
  "peer_calls l = List.map_filter (\<lambda>e. case e of PeerCall c \<Rightarrow> Some c | _ \<Rightarrow> None) l"

lemma peer_calls_append [simp]: "peer_calls (a @ b) = peer_calls a @ peer_calls b"
  by (simp add: peer_calls_def map_filter_def)

lemma peer_calls_simps [simp]:
  "peer_calls [] = []" "peer_calls (PeerCall c # l) = c # peer_calls l"
  "peer_calls (Signal m # l) = peer_calls l" "peer_calls (OnOpen # l) = peer_calls l"
  by (simp_all add: peer_calls_def map_filter_def)

lemma peer_calls_mapped [simp]:
  "peer_calls (map (\<lambda>c. PeerCall (f c)) cs) = map f cs" "peer_calls (map (\<lambda>c. Signal (g c)) ts) = []"
  "signals (map (\<lambda>c. PeerCall (f c)) cs) = []"
proof -
  show "peer_calls (map (\<lambda>c. PeerCall (f c)) cs) = map f cs" by (induction cs) simp_all
  show "peer_calls (map (\<lambda>c. Signal (g c)) ts) = []" by (induction ts) simp_all
  show "signals (map (\<lambda>c. PeerCall (f c)) cs) = []" by (induction cs) simp_all
qed

text \<open>The dialer after \<open>start\<close>.\<close>

lemma dialer_started:
  assumes "strip_candidates (local_sdp udec (pc s0) raw) = (offer, cands)"
    and "s0 = new_session conn True on_op on_cl on_pkt relay"
    and "d1 = session_run udec from_sdp s0 [Start, Resume 0 raw]"
  shows "state d1 = OFFER_SENT" and "is_dialer d1" and "cid d1 = conn" and "tasks d1 = [None]" and "pc d1 = pc s0"
    and "log d1 = Signal (serialize_signaling (ConnectRequest conn offer)) #
      map (\<lambda>c. Signal (serialize_signaling (CandidateAdd conn c))) cands"
    and "signals (log d1) = serialize_signaling (ConnectRequest conn offer) #
      map (\<lambda>c. serialize_signaling (CandidateAdd conn c)) cands"
  using assms(1)
  by (simp_all add: assms(2,3) create_offer_def new_task_def set_task_def task_at_def new_session_def
      after_offer_def send_candidates_def arm_timeout_def cancel_timeout_def)

text \<open>The listener, from the request to its answer.\<close>

lemma listener_answers:
  assumes "u64 conn" and "l0 = new_session conn False on_op on_cl on_pkt relay"
    and "l1 = receive_signals udec from_sdp l0 (serialize_signaling (ConnectRequest conn offer) #
      map (\<lambda>c. serialize_signaling (CandidateAdd conn c)) cands)"
    and "l2 = session_run udec from_sdp l1
      (replicate (Suc (length (usable_candidates from_sdp cands))) (Resume 0 []) @ [Resume 0 raw])"
    and "strip_candidates (local_sdp udec (pc l0) raw) = (answer, cands')"
  shows "state l2 = ANSWER_SENT" and "\<not> is_dialer l2"
    and "peer_calls (log l2) = SetRemoteDescription offer (lit ''offer'') #
      map AddIceCandidate (usable_candidates from_sdp cands)"
    and "signals (log l2) = serialize_signaling (ConnectResponse conn answer) #
      map (\<lambda>c. serialize_signaling (CandidateAdd conn c)) cands'"
proof -
  let ?asked = "l0\<lparr>tasks := [Some (FrRemoteOffer KRequest)],
    log := [PeerCall (SetRemoteDescription offer (lit ''offer''))]\<rparr>"
  have asked: "receive_signal udec from_sdp l0 (serialize_signaling (ConnectRequest conn offer)) = ?asked"
    using assms(1) by (simp add: receive_own assms(2) handle_signal_def handle_request_def create_answer_def
        new_task_def new_session_def emit_def)
  have fresh: "state ?asked \<noteq> CLOSED" "\<not> remote_description_set (pc ?asked)"
      "pending_remote_candidates (pc ?asked) = []"
    by (simp_all add: assms(2) new_session_def new_pc_def bare_pc_def)
  define buffered where "buffered = ?asked\<lparr>pc := (pc ?asked)\<lparr>pending_remote_candidates :=
      usable_candidates from_sdp cands\<rparr>,
    tasks := tasks ?asked @ replicate (length cands) None\<rparr>"
  have l1: "l1 = buffered"
    using candidates_buffered [OF assms(1) fresh(1,2), of udec from_sdp cands] asked fresh(3)
    by (simp add: assms(3) buffered_def)
  have "task_at 0 buffered = Some (FrRemoteOffer KRequest)" by (simp add: buffered_def task_at_def)
  then have "session_run udec from_sdp buffered
      (replicate (Suc (length (usable_candidates from_sdp cands))) (Resume 0 [])) = flushed 0 (Some KRequest) 0 buffered"
    by (rule describe_and_flush) (simp_all add: buffered_def)
  then have l2: "l2 = session_step udec from_sdp (flushed 0 (Some KRequest) 0 buffered) (Resume 0 raw)"
    by (simp only: assms(4) l1 foldl_append foldl.simps)
  have sdp: "strip_candidates (local_sdp udec (pc (flushed 0 (Some KRequest) 0 buffered)) raw) = (answer, cands')"
    using assms(5) by (simp add: flushed_def buffered_def local_sdp_def)
  show "state l2 = ANSWER_SENT" "\<not> is_dialer l2"
      "peer_calls (log l2) = SetRemoteDescription offer (lit ''offer'') #
        map AddIceCandidate (usable_candidates from_sdp cands)"
      "signals (log l2) = serialize_signaling (ConnectResponse conn answer) #
        map (\<lambda>c. serialize_signaling (CandidateAdd conn c)) cands'"
    using sdp unfolding l2
    by (simp_all add: task_at_def flushed_def buffered_def set_task_def after_answer_def send_candidates_def
        arm_timeout_def cancel_timeout_def assms(2) new_session_def)
qed

text \<open>The dialer, from the answer to the end of its coroutine.\<close>

lemma dialer_applies_answer:
  assumes "u64 conn" and "state d1 = OFFER_SENT" and "is_dialer d1" and "tasks d1 = [None]"
    and "\<not> remote_description_set (pc d1)" and "pending_remote_candidates (pc d1) = []"
    and "d2 = receive_signals udec from_sdp d1 (serialize_signaling (ConnectResponse conn answer) #
      map (\<lambda>c. serialize_signaling (CandidateAdd conn c)) cands)"
    and "d3 = session_run udec from_sdp d2
      (replicate (Suc (length (usable_candidates from_sdp cands))) (Resume 1 []))"
  shows "state d3 = NEGOTIATING"
    and "peer_calls (log d3) = peer_calls (log d1) @ SetRemoteDescription answer (lit ''answer'') #
      map AddIceCandidate (usable_candidates from_sdp cands)"
proof -
  let ?asked = "d1\<lparr>state := NEGOTIATING, timer := Some E_NEGOTIATION_TIMEOUT_WAITING_FOR_ACCEPT,
    tasks := [None, Some FrRemoteAnswer],
    log := log d1 @ [PeerCall (SetRemoteDescription answer (lit ''answer''))]\<rparr>"
  have asked: "receive_signal udec from_sdp d1 (serialize_signaling (ConnectResponse conn answer)) = ?asked"
    using assms(1-4) by (simp add: receive_own handle_signal_def accept_answer_def arm_timeout_def
        cancel_timeout_def new_task_def emit_def)
  have fresh: "state ?asked \<noteq> CLOSED" "\<not> remote_description_set (pc ?asked)"
      "pending_remote_candidates (pc ?asked) = []"
    using assms(5,6) by simp_all
  define buffered where "buffered = ?asked\<lparr>pc := (pc ?asked)\<lparr>pending_remote_candidates :=
      usable_candidates from_sdp cands\<rparr>,
    tasks := tasks ?asked @ replicate (length cands) None\<rparr>"
  have d2: "d2 = buffered"
    using candidates_buffered [OF assms(1) fresh(1,2), of udec from_sdp cands] asked fresh(3)
    by (simp add: assms(7) buffered_def)
  have "task_at 1 buffered = Some FrRemoteAnswer" by (simp add: buffered_def task_at_def)
  then have "d3 = flushed 1 None 0 buffered"
    unfolding assms(8) d2 by (rule describe_and_flush) (simp_all add: buffered_def)
  then show "state d3 = NEGOTIATING"
      "peer_calls (log d3) = peer_calls (log d1) @ SetRemoteDescription answer (lit ''answer'') #
        map AddIceCandidate (usable_candidates from_sdp cands)"
    by (simp_all add: flushed_def buffered_def)
qed

end
