(* ===== verification/SessionManager.thy ===== *)
theory SessionManager
  imports Negotiation NetworkId "HOL-Library.AList"
begin

text \<open>
  \<open>session_manager.py\<close>: the sessions of one local peer. Session objects live in \<open>store\<close>, which
  only grows; \<open>sessions\<close> is the dictionary from connection ids to them, in insertion order;
  \<open>pending_candidates\<close> holds the candidates of connections not created yet. A manager coroutine
  that waits for a session's coroutine, or for its transport to close, is a frame in \<open>waiting\<close>.
\<close>

section \<open>State\<close>

datatype mgr_frame =
    MConnect nat nat                          \<comment> \<open>\<open>connect\<close>, in task \<open>t\<close> of session \<open>i\<close>\<close>
  | MRequest nat nat                          \<comment> \<open>\<open>handle_signal\<close>, in a new listener's \<open>_handle_request\<close>\<close>
  | MFlush nat nat "signaling_message list"   \<comment> \<open>\<open>_flush_pending_candidates\<close>, and what is left\<close>
  | MAclose nat "nat list"                    \<comment> \<open>\<open>aclose\<close>, in session \<open>i\<close>'s wait, and what is left\<close>

datatype mgr_effect =
    SendSignal network_id pystr
  | SessionOpen nat
  | SessionClose nat wire_error
  | SessionPacket nat bytes
  | ConnectReturns nat
  | AcloseReturns

record 'c manager =
  has_on_session_open :: bool
  has_on_session_close :: bool
  has_on_packet_cb :: bool
  mgr_relay_only :: bool
  store :: "(network_id \<times> 'c session) list"
  sessions :: "(int \<times> nat) list"
  pending_candidates :: "int \<Rightarrow> signaling_message list option"
  waiting :: "mgr_frame list"
  mgr_log :: "mgr_effect list"

definition MAX_PENDING_CANDIDATES :: nat where "MAX_PENDING_CANDIDATES = 64"

definition new_manager :: "bool \<Rightarrow> bool \<Rightarrow> bool \<Rightarrow> bool \<Rightarrow> 'c manager" where
  "new_manager on_op on_cl on_pkt relay =
     \<lparr>has_on_session_open = on_op, has_on_session_close = on_cl, has_on_packet_cb = on_pkt,
      mgr_relay_only = relay, store = [], sessions = [], pending_candidates = Map.empty,
      waiting = [], mgr_log = []\<rparr>"

definition session_at :: "nat \<Rightarrow> 'c manager \<Rightarrow> 'c session" where
  "session_at i m = snd (store m ! i)"

section \<open>A session's callbacks\<close>

text \<open>\<open>_handle_session_close\<close> removes the entry of the connection id.\<close>

fun session_callback :: "nat \<Rightarrow> network_id \<Rightarrow> int \<Rightarrow> 'c manager \<Rightarrow> 'c effect \<Rightarrow> 'c manager" where
  "session_callback i remote conn m (Signal x) = m\<lparr>mgr_log := mgr_log m @ [SendSignal remote x]\<rparr>"
| "session_callback i remote conn m OnOpen =
     (if has_on_session_open m then m\<lparr>mgr_log := mgr_log m @ [SessionOpen i]\<rparr> else m)"
| "session_callback i remote conn m (OnClose err) =
     (let m1 = m\<lparr>sessions := AList.delete conn (sessions m)\<rparr> in
      if has_on_session_close m1 then m1\<lparr>mgr_log := mgr_log m1 @ [SessionClose i err]\<rparr> else m1)"
| "session_callback i remote conn m (OnPacket b) =
     (if has_on_packet_cb m then m\<lparr>mgr_log := mgr_log m @ [SessionPacket i b]\<rparr> else m)"
| "session_callback i remote conn m _ = m"

text \<open>An event of session \<open>i\<close>: its step, then the callbacks it has made, in order.\<close>

definition put_session :: "nat \<Rightarrow> 'c session \<Rightarrow> 'c manager \<Rightarrow> 'c manager" where
  "put_session i s m =
     foldl (session_callback i (fst (store m ! i)) (cid s))
       (m\<lparr>store := (store m)[i := (fst (store m ! i), s)]\<rparr>)
       (drop (length (log (session_at i m))) (log s))"

definition step_session ::
    "(nat \<Rightarrow> nat option) \<Rightarrow> (pystr \<Rightarrow> 'c option) \<Rightarrow> nat \<Rightarrow> session_event \<Rightarrow> 'c manager \<Rightarrow> 'c manager" where
  "step_session udec from_sdp i e m = put_session i (session_step udec from_sdp (session_at i m) e) m"

definition create_session :: "int \<Rightarrow> network_id \<Rightarrow> bool \<Rightarrow> 'c manager \<Rightarrow> 'c manager" where
  "create_session conn remote dialer m =
     m\<lparr>store := store m @ [(remote, new_session conn dialer True True True (mgr_relay_only m))],
       sessions := AList.update conn (length (store m)) (sessions m)\<rparr>"

section \<open>Coroutines\<close>

text \<open>
  \<open>_flush_pending_candidates\<close>: a candidate that aiortc's parser rejects ends the loop with
  its exception, a candidate that has to be awaited suspends it.
\<close>

definition candidate_raises :: "(pystr \<Rightarrow> 'c option) \<Rightarrow> signaling_message \<Rightarrow> 'c session \<Rightarrow> bool" where
  "candidate_raises from_sdp msg s \<longleftrightarrow>
     state s \<noteq> CLOSED \<and> candidate_from_message from_sdp (candidate msg) = None"

fun flush_candidates ::
    "(nat \<Rightarrow> nat option) \<Rightarrow> (pystr \<Rightarrow> 'c option) \<Rightarrow> nat \<Rightarrow> signaling_message list \<Rightarrow> 'c manager \<Rightarrow> 'c manager" where
  "flush_candidates udec from_sdp i [] m = m"
| "flush_candidates udec from_sdp i (c # cs) m =
     (let s = session_at i m; t = length (tasks s);
          m1 = step_session udec from_sdp i (HandleSignal c) m
      in if candidate_raises from_sdp c s then m1
         else if task_at t (session_at i m1) \<noteq> None then m1\<lparr>waiting := waiting m1 @ [MFlush i t cs]\<rparr>
         else flush_candidates udec from_sdp i cs m1)"

definition flush_pending ::
    "(nat \<Rightarrow> nat option) \<Rightarrow> (pystr \<Rightarrow> 'c option) \<Rightarrow> nat \<Rightarrow> 'c manager \<Rightarrow> 'c manager" where
  "flush_pending udec from_sdp i m =
     (let conn = cid (session_at i m); cs = (case pending_candidates m conn of None \<Rightarrow> [] | Some cs \<Rightarrow> cs)
      in flush_candidates udec from_sdp i cs (m\<lparr>pending_candidates := (pending_candidates m)(conn := None)\<rparr>))"

definition buffer_pending_candidate :: "signaling_message \<Rightarrow> 'c manager \<Rightarrow> 'c manager" where
  "buffer_pending_candidate msg m =
     (let conn = connection_id msg;
          buffer = (case pending_candidates m conn of None \<Rightarrow> [] | Some b \<Rightarrow> b)
      in m\<lparr>pending_candidates := (pending_candidates m)(conn \<mapsto>
            (if length buffer < MAX_PENDING_CANDIDATES then buffer @ [msg] else buffer))\<rparr>)"

text \<open>\<open>handle_signal\<close> and \<open>connect\<close> up to their first await; a raise of \<open>parse\<close> ends the former.\<close>

definition mgr_handle_signal ::
    "(nat \<Rightarrow> nat option) \<Rightarrow> (pystr \<Rightarrow> 'c option) \<Rightarrow> network_id \<Rightarrow> pystr \<Rightarrow> 'c manager \<Rightarrow> 'c manager" where
  "mgr_handle_signal udec from_sdp sender_id message m =
     (case parse_signaling message of
        Inl _ \<Rightarrow> m
      | Inr None \<Rightarrow> m
      | Inr (Some parsed) \<Rightarrow>
          (case map_of (sessions m) (connection_id parsed) of
             Some i \<Rightarrow> step_session udec from_sdp i (HandleSignal parsed) m
           | None \<Rightarrow>
               (case parsed of
                  ConnectRequest conn offer \<Rightarrow>
                    (let i = length (store m);
                         m1 = step_session udec from_sdp i (HandleSignal parsed) (create_session conn sender_id False m)
                     in if task_at 0 (session_at i m1) \<noteq> None
                        then m1\<lparr>waiting := waiting m1 @ [MRequest i 0]\<rparr>
                        else flush_pending udec from_sdp i m1)
                | CandidateAdd conn text \<Rightarrow> buffer_pending_candidate parsed m
                | _ \<Rightarrow> m)))"

definition mgr_connect ::
    "(nat \<Rightarrow> nat option) \<Rightarrow> (pystr \<Rightarrow> 'c option) \<Rightarrow> network_id \<Rightarrow> int \<Rightarrow> 'c manager \<Rightarrow> 'c manager" where
  "mgr_connect udec from_sdp remote_id conn m =
     (let i = length (store m);
          m1 = step_session udec from_sdp i Start (create_session conn remote_id True m)
      in m1\<lparr>waiting := waiting m1 @ [MConnect i 0]\<rparr>)"

text \<open>\<open>aclose\<close>: every \<open>session.aclose\<close> waits for the session's close task if there is one.\<close>

fun close_sessions ::
    "(nat \<Rightarrow> nat option) \<Rightarrow> (pystr \<Rightarrow> 'c option) \<Rightarrow> nat list \<Rightarrow> 'c manager \<Rightarrow> 'c manager" where
  "close_sessions udec from_sdp [] m = m\<lparr>sessions := [], mgr_log := mgr_log m @ [AcloseReturns]\<rparr>"
| "close_sessions udec from_sdp (i # is) m =
     (let m1 = step_session udec from_sdp i (AcloseCall (Known E_NONE)) m in
      if close_task (session_at i m1) then m1\<lparr>waiting := waiting m1 @ [MAclose i is]\<rparr>
      else close_sessions udec from_sdp is m1)"

definition mgr_aclose :: "(nat \<Rightarrow> nat option) \<Rightarrow> (pystr \<Rightarrow> 'c option) \<Rightarrow> 'c manager \<Rightarrow> 'c manager" where
  "mgr_aclose udec from_sdp m = close_sessions udec from_sdp (map snd (sessions m)) m"

text \<open>A frame goes on when what it waits for has returned.\<close>

fun continue_frame ::
    "(nat \<Rightarrow> nat option) \<Rightarrow> (pystr \<Rightarrow> 'c option) \<Rightarrow> 'c manager \<Rightarrow> mgr_frame \<Rightarrow> 'c manager" where
  "continue_frame udec from_sdp m (MConnect i t) = m\<lparr>mgr_log := mgr_log m @ [ConnectReturns i]\<rparr>"
| "continue_frame udec from_sdp m (MRequest i t) = flush_pending udec from_sdp i m"
| "continue_frame udec from_sdp m (MFlush i t cs) = flush_candidates udec from_sdp i cs m"
| "continue_frame udec from_sdp m (MAclose i is) = close_sessions udec from_sdp is m"

fun waits_for_task :: "nat \<Rightarrow> nat \<Rightarrow> mgr_frame \<Rightarrow> bool" where
  "waits_for_task i t (MConnect j u) = (j = i \<and> u = t)"
| "waits_for_task i t (MRequest j u) = (j = i \<and> u = t)"
| "waits_for_task i t (MFlush j u cs) = (j = i \<and> u = t)"
| "waits_for_task i t (MAclose j js) = False"

fun waits_for_close :: "nat \<Rightarrow> mgr_frame \<Rightarrow> bool" where
  "waits_for_close i (MAclose j js) = (j = i)"
| "waits_for_close i _ = False"

text \<open>All frames that wait for the same thing go on, in order; the others stay.\<close>

definition wake ::
    "(nat \<Rightarrow> nat option) \<Rightarrow> (pystr \<Rightarrow> 'c option) \<Rightarrow> (mgr_frame \<Rightarrow> bool) \<Rightarrow> 'c manager \<Rightarrow> 'c manager" where
  "wake udec from_sdp P m =
     foldl (continue_frame udec from_sdp) (m\<lparr>waiting := filter (\<lambda>f. \<not> P f) (waiting m)\<rparr>) (filter P (waiting m))"

section \<open>Events\<close>

datatype mgr_event =
    MgrSignal network_id pystr                \<comment> \<open>sender, signaling string\<close>
  | MgrConnect network_id "64 word"           \<comment> \<open>remote id, the random bits of the connection id\<close>
  | MgrSession nat session_event              \<comment> \<open>any event of a session\<close>
  | MgrClosed nat                             \<comment> \<open>a session's close task is done\<close>
  | MgrAclose

text \<open>
  When a session's coroutine returns (its task is over after a resumption that did not raise)
  the manager's coroutine waiting for it goes on; a raise ends both.
\<close>

definition task_over :: "nat \<Rightarrow> nat \<Rightarrow> 'c manager \<Rightarrow> 'c manager \<Rightarrow> bool" where
  "task_over i t m m' \<longleftrightarrow> task_at t (session_at i m) \<noteq> None \<and> task_at t (session_at i m') = None"

definition session_event_step ::
    "(nat \<Rightarrow> nat option) \<Rightarrow> (pystr \<Rightarrow> 'c option) \<Rightarrow> nat \<Rightarrow> session_event \<Rightarrow> 'c manager \<Rightarrow> 'c manager" where
  "session_event_step udec from_sdp i e m =
     (let m1 = step_session udec from_sdp i e m in
      case e of
        Resume t raw \<Rightarrow>
          if task_over i t m m1 then wake udec from_sdp (waits_for_task i t) m1 else m1
      | ResumeRaise t \<Rightarrow> m1\<lparr>waiting := filter (\<lambda>f. \<not> waits_for_task i t f) (waiting m1)\<rparr>
      | _ \<Rightarrow> m1)"

fun manager_step ::
    "(nat \<Rightarrow> nat option) \<Rightarrow> (pystr \<Rightarrow> 'c option) \<Rightarrow> 'c manager \<Rightarrow> mgr_event \<Rightarrow> 'c manager" where
  "manager_step udec from_sdp m (MgrSignal sender text) = mgr_handle_signal udec from_sdp sender text m"
| "manager_step udec from_sdp m (MgrConnect remote bits) =
     mgr_connect udec from_sdp remote (new_connection_id bits) m"
| "manager_step udec from_sdp m (MgrSession i e) =
     (if i < length (store m) then session_event_step udec from_sdp i e m else m)"
| "manager_step udec from_sdp m (MgrClosed i) = wake udec from_sdp (waits_for_close i) m"
| "manager_step udec from_sdp m MgrAclose = mgr_aclose udec from_sdp m"

section \<open>The invariant\<close>

text \<open>
  Every entry of the dictionary is a session that is not closed, under its own connection id;
  buffered candidates are candidates, at most 64 per connection; frames refer to sessions
  that exist.
\<close>

definition entry_ok :: "'c manager \<Rightarrow> int \<times> nat \<Rightarrow> bool" where
  "entry_ok m e \<longleftrightarrow> snd e < length (store m) \<and> cid (session_at (snd e) m) = fst e \<and>
     state (session_at (snd e) m) \<noteq> CLOSED"

definition buffer_ok :: "int \<Rightarrow> signaling_message list \<Rightarrow> bool" where
  "buffer_ok conn b \<longleftrightarrow> length b \<le> MAX_PENDING_CANDIDATES \<and> list_all (\<lambda>x. \<exists>t. x = CandidateAdd conn t) b"

fun frame_ok :: "nat \<Rightarrow> mgr_frame \<Rightarrow> bool" where
  "frame_ok n (MConnect i t) = (i < n)"
| "frame_ok n (MRequest i t) = (i < n)"
| "frame_ok n (MFlush i t cs) = (i < n)"
| "frame_ok n (MAclose i is) = (i < n \<and> list_all (\<lambda>j. j < n) is)"

definition mgr_inv :: "'c manager \<Rightarrow> bool" where
  "mgr_inv m \<longleftrightarrow>
     distinct (map fst (sessions m)) \<and> list_all (entry_ok m) (sessions m) \<and>
     list_all (\<lambda>x. session_inv (snd x) \<and> has_on_close (snd x)) (store m) \<and>
     (\<forall>conn b. pending_candidates m conn = Some b \<longrightarrow> buffer_ok conn b) \<and>
     list_all (frame_ok (length (store m))) (waiting m)"

lemma frame_ok_mono: "frame_ok n f \<Longrightarrow> n \<le> k \<Longrightarrow> frame_ok k f"
  by (cases f) (auto simp: list_all_iff)

lemma session_at_inv:
  "mgr_inv m \<Longrightarrow> i < length (store m) \<Longrightarrow> session_inv (session_at i m) \<and> has_on_close (session_at i m)"
  by (simp add: mgr_inv_def session_at_def list_all_length)

text \<open>The callbacks: a close removes the entry, nothing else touches the dictionary.\<close>

lemma callbacks_spec:
  "store (foldl (session_callback i r conn) m es) = store m \<and>
   pending_candidates (foldl (session_callback i r conn) m es) = pending_candidates m \<and>
   waiting (foldl (session_callback i r conn) m es) = waiting m \<and>
   sessions (foldl (session_callback i r conn) m es) =
     (if closes es = [] then sessions m else AList.delete conn (sessions m))"
proof (induction es arbitrary: m)
  case (Cons e es)
  have "store (session_callback i r conn m e) = store m \<and>
      pending_candidates (session_callback i r conn m e) = pending_candidates m \<and>
      waiting (session_callback i r conn m e) = waiting m \<and>
      sessions (session_callback i r conn m e) =
        (if closes [e] = [] then sessions m else AList.delete conn (sessions m))"
    by (cases e) (simp_all add: Let_def)
  with Cons.IH [of "session_callback i r conn m e"] show ?case
    by (cases e) (simp_all add: AList.delete_idem)
qed simp

lemma step_session_spec:
  fixes m :: "'c manager" and udec from_sdp e
  assumes "i < length (store m)"
  defines "m' \<equiv> step_session udec from_sdp i e m" and "s' \<equiv> session_step udec from_sdp (session_at i m) e"
  shows "store m' = (store m)[i := (fst (store m ! i), s')]" and "length (store m') = length (store m)"
    and "session_at i m' = s'" and "j \<noteq> i \<Longrightarrow> session_at j m' = session_at j m"
    and "pending_candidates m' = pending_candidates m" and "waiting m' = waiting m"
    and "sessions m' = (if closes (drop (length (log (session_at i m))) (log s')) = [] then sessions m
      else AList.delete (cid s') (sessions m))"
proof -
  show st: "store m' = (store m)[i := (fst (store m ! i), s')]"
    by (simp add: m'_def s'_def step_session_def put_session_def callbacks_spec)
  show "length (store m') = length (store m)" by (simp add: st)
  show "session_at i m' = s'" using assms(1) by (simp add: session_at_def st)
  show "j \<noteq> i \<Longrightarrow> session_at j m' = session_at j m" by (simp add: session_at_def st)
  show "pending_candidates m' = pending_candidates m" "waiting m' = waiting m"
      "sessions m' = (if closes (drop (length (log (session_at i m))) (log s')) = [] then sessions m
        else AList.delete (cid s') (sessions m))"
    by (simp_all add: m'_def s'_def step_session_def put_session_def callbacks_spec)
qed

lemma in_delete: "x \<in> set (AList.delete k al) \<Longrightarrow> x \<in> set al \<and> fst x \<noteq> k"
  by (auto simp: AList.delete_eq)

lemma in_update: "x \<in> set (AList.update k v al) \<Longrightarrow> x = (k, v) \<or> x \<in> set al"
  by (induction al) (auto split: if_splits)

lemma step_session_inv:
  assumes inv: "mgr_inv m" and i: "i < length (store m)"
  shows "mgr_inv (step_session udec from_sdp i e m)"
proof -
  let ?m = "step_session udec from_sdp i e m" and ?s = "session_at i m"
  let ?t = "session_step udec from_sdp ?s e"
  note spec = step_session_spec [OF i, where udec = udec and from_sdp = from_sdp and e = e]
  have s: "session_inv ?s" "has_on_close ?s" using session_at_inv [OF inv i] by auto
  have same: "cid ?t = cid ?s" "has_on_close ?t = has_on_close ?s"
    using step_same [of ?s udec from_sdp e] by (simp_all add: same_session_def)
  have entries: "entry_ok ?m x" if x: "x \<in> set (sessions ?m)" for x
  proof -
    have old: "entry_ok m x" using x inv spec(7) by (auto simp: mgr_inv_def list_all_iff dest: in_delete split: if_splits)
    show ?thesis
    proof (cases "snd x = i")
      case True
      have "state ?t \<noteq> CLOSED"
      proof
        assume closed: "state ?t = CLOSED"
        have "state ?s \<noteq> CLOSED" using old True by (simp add: entry_ok_def)
        from step_close_told [OF s(2) this closed] spec(7) x have "fst x \<noteq> cid ?t"
          by (auto dest: in_delete)
        then show False using old True same(1) by (simp add: entry_ok_def)
      qed
      then show ?thesis using old True spec(2,3) same(1) by (simp add: entry_ok_def)
    next
      case False
      then show ?thesis using old spec(2,4) by (simp add: entry_ok_def)
    qed
  qed
  have "distinct (map fst (sessions ?m))"
    using inv spec(7) by (auto simp: mgr_inv_def AList.distinct_delete)
  moreover have "list_all (\<lambda>x. session_inv (snd x) \<and> has_on_close (snd x)) (store ?m)"
    using inv i s same(2) session_inv_step [OF s(1)] spec(1)
    by (auto simp: mgr_inv_def list_all_length nth_list_update)
  ultimately show ?thesis
    using inv entries spec(2,5,6) by (simp add: mgr_inv_def list_all_iff)
qed

lemma create_session_inv:
  assumes "mgr_inv m"
  shows "mgr_inv (create_session conn remote dialer m)"
proof -
  let ?m = "create_session conn remote dialer m" and ?n = "length (store m)"
  have len: "length (store ?m) = Suc ?n" by (simp add: create_session_def)
  have old: "j < ?n \<Longrightarrow> session_at j ?m = session_at j m" for j
    by (simp add: create_session_def session_at_def nth_append)
  have new: "session_at ?n ?m = new_session conn dialer True True True (mgr_relay_only m)"
    by (simp add: create_session_def session_at_def)
  have "entry_ok ?m x" if "x \<in> set (sessions ?m)" for x
  proof -
    from that have "x = (conn, ?n) \<or> x \<in> set (sessions m)"
      by (auto simp: create_session_def dest: in_update)
    then show ?thesis
      using assms old new len
      by (auto simp: entry_ok_def mgr_inv_def list_all_iff) (simp_all add: new_session_def)
  qed
  moreover have "distinct (map fst (sessions ?m))"
    using assms by (simp add: create_session_def mgr_inv_def AList.distinct_update)
  moreover have "list_all (frame_ok (Suc ?n)) (waiting ?m)"
    using assms by (auto simp: create_session_def mgr_inv_def list_all_iff intro: frame_ok_mono)
  moreover have "pending_candidates ?m = pending_candidates m" by (simp add: create_session_def)
  moreover have "store ?m = store m @ [(remote, new_session conn dialer True True True (mgr_relay_only m))]"
    by (simp add: create_session_def)
  ultimately show ?thesis
    using assms len by (simp add: mgr_inv_def list_all_iff new_session_inv, simp add: new_session_def)
qed

section \<open>Every operation keeps the invariant\<close>

lemma same_store [simp]:
  "session_at i (m\<lparr>waiting := w\<rparr>) = session_at i m" "session_at i (m\<lparr>sessions := d\<rparr>) = session_at i m"
  "session_at i (m\<lparr>pending_candidates := p\<rparr>) = session_at i m" "session_at i (m\<lparr>mgr_log := l\<rparr>) = session_at i m"
  "entry_ok (m\<lparr>waiting := w\<rparr>) = entry_ok m" "entry_ok (m\<lparr>sessions := d\<rparr>) = entry_ok m"
  "entry_ok (m\<lparr>pending_candidates := p\<rparr>) = entry_ok m" "entry_ok (m\<lparr>mgr_log := l\<rparr>) = entry_ok m"
  by (simp_all add: session_at_def entry_ok_def fun_eq_iff)

lemma mgr_inv_updates [simp]:
  "mgr_inv (m\<lparr>mgr_log := l\<rparr>) = mgr_inv m"
  "mgr_inv m \<Longrightarrow> mgr_inv (m\<lparr>sessions := []\<rparr>)"
  "mgr_inv m \<Longrightarrow> mgr_inv (m\<lparr>waiting := filter P (waiting m)\<rparr>)"
  "mgr_inv m \<Longrightarrow> frame_ok (length (store m)) f \<Longrightarrow> mgr_inv (m\<lparr>waiting := waiting m @ [f]\<rparr>)"
  "mgr_inv m \<Longrightarrow> mgr_inv (m\<lparr>pending_candidates := (pending_candidates m)(conn := None)\<rparr>)"
  by (auto simp: mgr_inv_def list_all_iff)

text \<open>\<open>keeps m m'\<close>: the invariant and the number of sessions are kept.\<close>

definition keeps :: "'c manager \<Rightarrow> 'c manager \<Rightarrow> bool" where
  "keeps m m' \<longleftrightarrow> mgr_inv m' \<and> length (store m') = length (store m)"

lemma keeps_trans: "keeps a b \<Longrightarrow> (mgr_inv b \<Longrightarrow> length (store b) = length (store a) \<Longrightarrow> keeps b c) \<Longrightarrow> keeps a c"
  by (simp add: keeps_def)

lemma step_session_keeps: "mgr_inv m \<Longrightarrow> i < length (store m) \<Longrightarrow> keeps m (step_session udec from_sdp i e m)"
  by (simp add: keeps_def step_session_inv step_session_spec(2))

lemma flush_candidates_keeps:
  "mgr_inv m \<Longrightarrow> i < length (store m) \<Longrightarrow> keeps m (flush_candidates udec from_sdp i cs m)"
proof (induction cs arbitrary: m)
  case Nil
  then show ?case by (simp add: keeps_def)
next
  case (Cons c cs)
  let ?m = "step_session udec from_sdp i (HandleSignal c) m"
  have k: "keeps m ?m" using Cons.prems by (rule step_session_keeps)
  then have "mgr_inv ?m" "i < length (store ?m)" using Cons.prems(2) by (simp_all add: keeps_def)
  note IH = Cons.IH [OF this]
  show ?case
    using k IH Cons.prems(2) by (simp add: Let_def keeps_def)
qed

lemma flush_pending_keeps:
  "mgr_inv m \<Longrightarrow> i < length (store m) \<Longrightarrow> keeps m (flush_pending udec from_sdp i m)"
  using flush_candidates_keeps [of "m\<lparr>pending_candidates := (pending_candidates m)(cid (session_at i m) := None)\<rparr>" i]
  by (simp add: flush_pending_def keeps_def Let_def)

lemma close_sessions_keeps:
  "mgr_inv m \<Longrightarrow> list_all (\<lambda>i. i < length (store m)) is \<Longrightarrow> keeps m (close_sessions udec from_sdp is m)"
proof (induction "is" arbitrary: m)
  case Nil
  then show ?case by (simp add: keeps_def)
next
  case (Cons i js)
  let ?m = "step_session udec from_sdp i (AcloseCall (Known E_NONE)) m"
  have k: "keeps m ?m" using Cons.prems by (simp add: step_session_keeps)
  then have "mgr_inv ?m" "list_all (\<lambda>i. i < length (store ?m)) js"
    using Cons.prems(2) by (simp_all add: keeps_def)
  note IH = Cons.IH [OF this]
  show ?case
    using k IH Cons.prems(2) by (simp add: Let_def keeps_def)
qed

lemma continue_frame_keeps:
  "mgr_inv m \<Longrightarrow> frame_ok (length (store m)) f \<Longrightarrow> keeps m (continue_frame udec from_sdp m f)"
  by (cases f) (simp_all add: flush_pending_keeps flush_candidates_keeps close_sessions_keeps, simp add: keeps_def)

lemma continue_frames_keep:
  "mgr_inv m \<Longrightarrow> list_all (frame_ok (length (store m))) fs \<Longrightarrow> keeps m (foldl (continue_frame udec from_sdp) m fs)"
proof (induction fs arbitrary: m)
  case Nil
  then show ?case by (simp add: keeps_def)
next
  case (Cons f fs)
  have k: "keeps m (continue_frame udec from_sdp m f)" using Cons.prems by (simp add: continue_frame_keeps)
  show ?case
    using keeps_trans [OF k Cons.IH] Cons.prems(2) by simp
qed

lemma wake_keeps: "mgr_inv m \<Longrightarrow> keeps m (wake udec from_sdp P m)"
  using continue_frames_keep [of "m\<lparr>waiting := filter (\<lambda>f. \<not> P f) (waiting m)\<rparr>" "filter P (waiting m)" udec from_sdp]
  by (auto simp: wake_def keeps_def mgr_inv_def list_all_iff)

lemma buffer_inv:
  assumes "mgr_inv m"
  shows "mgr_inv (buffer_pending_candidate (CandidateAdd conn text) m)"
proof -
  define b where "b = (case pending_candidates m conn of None \<Rightarrow> [] | Some b \<Rightarrow> b)"
  have "buffer_ok conn b"
    using assms by (auto simp: b_def mgr_inv_def buffer_ok_def split: option.split)
  then have "buffer_ok conn (if length b < MAX_PENDING_CANDIDATES then b @ [CandidateAdd conn text] else b)"
    by (simp add: buffer_ok_def)
  then show ?thesis
    using assms by (auto simp: buffer_pending_candidate_def mgr_inv_def Let_def simp flip: b_def)
qed

lemma create_step_keeps:
  assumes "mgr_inv m"
  shows "mgr_inv (step_session udec from_sdp (length (store m)) e (create_session conn remote dialer m))"
    and "length (store (step_session udec from_sdp (length (store m)) e (create_session conn remote dialer m))) =
      Suc (length (store m))"
proof -
  have len: "length (store (create_session conn remote dialer m)) = Suc (length (store m))"
    by (simp add: create_session_def)
  have inv: "mgr_inv (create_session conn remote dialer m)" using assms by (rule create_session_inv)
  show "mgr_inv (step_session udec from_sdp (length (store m)) e (create_session conn remote dialer m))"
      "length (store (step_session udec from_sdp (length (store m)) e (create_session conn remote dialer m))) =
        Suc (length (store m))"
    using step_session_keeps [OF inv, of "length (store m)" udec from_sdp e] len by (simp_all add: keeps_def)
qed

lemma handle_signal_mgr_inv:
  assumes "mgr_inv m"
  shows "mgr_inv (mgr_handle_signal udec from_sdp sender text m)"
proof (cases "\<exists>msg. parse_signaling text = Inr (Some msg)")
  case False
  with assms show ?thesis by (auto simp: mgr_handle_signal_def split: sum.split option.split)
next
  case True
  then obtain msg where msg: "parse_signaling text = Inr (Some msg)" by blast
  show ?thesis
  proof (cases "map_of (sessions m) (connection_id msg)")
    case (Some i)
    then have "i < length (store m)"
      using assms by (auto simp: mgr_inv_def list_all_iff entry_ok_def dest!: map_of_SomeD)
    with Some msg assms show ?thesis by (simp add: mgr_handle_signal_def step_session_inv)
  next
    case None
    show ?thesis
    proof (cases msg)
      case (ConnectRequest conn offer)
      let ?m = "step_session udec from_sdp (length (store m)) (HandleSignal msg) (create_session conn sender False m)"
      have "mgr_inv ?m" "length (store ?m) = Suc (length (store m))" using create_step_keeps [OF assms] by blast+
      with msg None ConnectRequest flush_pending_keeps [of ?m "length (store m)" udec from_sdp] show ?thesis
        by (simp add: mgr_handle_signal_def Let_def keeps_def)
    qed (use msg None assms in \<open>simp_all add: mgr_handle_signal_def buffer_inv\<close>)
  qed
qed

lemma manager_step_inv: "mgr_inv m \<Longrightarrow> mgr_inv (manager_step udec from_sdp m e)"
proof (cases e)
  case (MgrSignal sender message)
  assume "mgr_inv m"
  with MgrSignal show ?thesis by (simp add: handle_signal_mgr_inv)
next
  case (MgrConnect remote bits)
  assume "mgr_inv m"
  from create_step_keeps [OF this] MgrConnect show ?thesis by (simp add: mgr_connect_def Let_def)
next
  case (MgrSession i ev)
  assume inv: "mgr_inv m"
  show ?thesis
  proof (cases "i < length (store m)")
    case True
    have "mgr_inv (step_session udec from_sdp i ev m)" using step_session_inv [OF inv True] .
    with wake_keeps [OF this] True MgrSession show ?thesis
      by (cases ev) (simp_all add: session_event_step_def keeps_def Let_def)
  next
    case False
    with MgrSession inv show ?thesis by simp
  qed
next
  case (MgrClosed i)
  assume inv: "mgr_inv m"
  from MgrClosed wake_keeps [OF inv, of udec from_sdp "waits_for_close i"] show ?thesis by (simp add: keeps_def)
next
  case MgrAclose
  assume inv: "mgr_inv m"
  then have "list_all (\<lambda>i. i < length (store m)) (map snd (sessions m))"
    by (auto simp: mgr_inv_def list_all_iff entry_ok_def)
  from close_sessions_keeps [OF inv this] MgrAclose show ?thesis by (simp add: mgr_aclose_def keeps_def)
qed

definition fresh_manager :: "'c manager \<Rightarrow> bool" where
  "fresh_manager m \<longleftrightarrow> (\<exists>on_op on_cl on_pkt relay. m = new_manager on_op on_cl on_pkt relay)"

lemma new_manager_inv: "mgr_inv (new_manager on_op on_cl on_pkt relay)"
  by (simp add: new_manager_def mgr_inv_def)

interpretation manager_machine: state_machine "manager_step udec from_sdp" fresh_manager mgr_inv
  for udec from_sdp
  by unfold_locales (auto simp: fresh_manager_def new_manager_inv manager_step_inv)

section \<open>What a signal can touch\<close>

lemma flush_candidates_others:
  "i < length (store m) \<Longrightarrow> j \<noteq> i \<Longrightarrow>
   session_at j (flush_candidates udec from_sdp i cs m) = session_at j m \<and>
   length (store (flush_candidates udec from_sdp i cs m)) = length (store m)"
proof (induction cs arbitrary: m)
  case Nil
  then show ?case by simp
next
  case (Cons c cs)
  note spec = step_session_spec [OF Cons.prems(1), where udec = udec and from_sdp = from_sdp and e = "HandleSignal c"]
  from Cons.IH [of "step_session udec from_sdp i (HandleSignal c) m"] Cons.prems spec(2,4) show ?case
    by (simp add: Let_def)
qed

lemma flush_candidates_dialer:
  "i < length (store m) \<Longrightarrow>
   is_dialer (session_at i (flush_candidates udec from_sdp i cs m)) = is_dialer (session_at i m)"
proof (induction cs arbitrary: m)
  case Nil
  then show ?case by simp
next
  case (Cons c cs)
  note spec = step_session_spec [OF Cons.prems, where udec = udec and from_sdp = from_sdp and e = "HandleSignal c"]
  have "is_dialer (session_step udec from_sdp (session_at i m) (HandleSignal c)) = is_dialer (session_at i m)"
    using step_same [of "session_at i m" udec from_sdp "HandleSignal c"] by (simp add: same_session_def)
  with Cons.IH [of "step_session udec from_sdp i (HandleSignal c) m"] Cons.prems spec(2,3) show ?case
    by (simp add: Let_def)
qed

lemma flush_pending_others:
  assumes "i < length (store m)"
  shows "j \<noteq> i \<Longrightarrow> session_at j (flush_pending udec from_sdp i m) = session_at j m"
    and "is_dialer (session_at i (flush_pending udec from_sdp i m)) = is_dialer (session_at i m)"
    and "length (store (flush_pending udec from_sdp i m)) = length (store m)"
proof -
  define cs m0 where "cs = (case pending_candidates m (cid (session_at i m)) of None \<Rightarrow> [] | Some cs \<Rightarrow> cs)"
    and "m0 = m\<lparr>pending_candidates := (pending_candidates m)(cid (session_at i m) := None)\<rparr>"
  have flush: "flush_pending udec from_sdp i m = flush_candidates udec from_sdp i cs m0"
    by (simp add: flush_pending_def Let_def cs_def m0_def)
  have i: "i < length (store m0)" and same: "session_at k m0 = session_at k m" for k
    using assms by (simp_all add: m0_def)
  show "j \<noteq> i \<Longrightarrow> session_at j (flush_pending udec from_sdp i m) = session_at j m"
    using flush_candidates_others [OF i, of j udec from_sdp cs] by (simp add: flush same)
  show "is_dialer (session_at i (flush_pending udec from_sdp i m)) = is_dialer (session_at i m)"
    using flush_candidates_dialer [OF i, of udec from_sdp cs] by (simp add: flush same)
  show "length (store (flush_pending udec from_sdp i m)) = length (store m)"
    using flush_candidates_others [OF i, of "Suc i" udec from_sdp cs] by (simp add: flush m0_def)
qed

lemma created_session:
  fixes m :: "'c manager" and udec from_sdp e conn remote dialer
  defines "m1 \<equiv> step_session udec from_sdp (length (store m)) e (create_session conn remote dialer m)"
  shows "length (store m1) = Suc (length (store m))" and "j < length (store m) \<Longrightarrow> session_at j m1 = session_at j m"
    and "is_dialer (session_at (length (store m)) m1) = dialer"
proof -
  let ?c = "create_session conn remote dialer m"
  have c: "length (store ?c) = Suc (length (store m))" by (simp add: create_session_def)
  then have "length (store m) < length (store ?c)" by simp
  note spec = step_session_spec [OF this, where udec = udec and from_sdp = from_sdp and e = e, folded m1_def]
  show "length (store m1) = Suc (length (store m))" using spec(2) c by simp
  show "j < length (store m) \<Longrightarrow> session_at j m1 = session_at j m"
    using spec(4) [of j] by (simp add: session_at_def create_session_def nth_append)
  show "is_dialer (session_at (length (store m)) m1) = dialer"
    using spec(3) step_same [of "session_at (length (store m)) ?c" udec from_sdp e]
    by (simp add: same_session_def session_at_def create_session_def new_session_def)
qed

lemma handle_signal_isolated:
  fixes m :: "'c manager" and udec from_sdp sender_id message
  defines "m' \<equiv> mgr_handle_signal udec from_sdp sender_id message m"
  assumes "mgr_inv m" and "j < length (store m)"
    and "\<not> (\<exists>msg. parse_signaling message = Inr (Some msg) \<and> map_of (sessions m) (connection_id msg) = Some j)"
  shows "session_at j m' = session_at j m \<and>
    (length (store m') = length (store m) \<or>
     length (store m') = Suc (length (store m)) \<and> \<not> is_dialer (session_at (length (store m)) m'))"
proof (cases "\<exists>msg. parse_signaling message = Inr (Some msg)")
  case False
  then show ?thesis by (auto simp: m'_def mgr_handle_signal_def split: sum.split option.split)
next
  case True
  then obtain msg where msg: "parse_signaling message = Inr (Some msg)" by blast
  show ?thesis
  proof (cases "map_of (sessions m) (connection_id msg)")
    case (Some i)
    then have i: "i < length (store m)" "j \<noteq> i"
      using assms(2,4) msg by (auto simp: mgr_inv_def list_all_iff entry_ok_def dest!: map_of_SomeD)
    note spec = step_session_spec [OF i(1), where udec = udec and from_sdp = from_sdp and e = "HandleSignal msg"]
    have "m' = step_session udec from_sdp i (HandleSignal msg) m"
      using Some msg by (simp add: m'_def mgr_handle_signal_def)
    with spec(2,4) i(2) show ?thesis by simp
  next
    case None
    show ?thesis
    proof (cases msg)
      case (ConnectRequest conn offer)
      define m1 where "m1 = step_session udec from_sdp (length (store m)) (HandleSignal msg)
        (create_session conn sender_id False m)"
      note new = created_session [where m = m and udec = udec and from_sdp = from_sdp and e = "HandleSignal msg"
          and conn = conn and remote = sender_id and dialer = False, folded m1_def]
      have "m' = m1\<lparr>waiting := waiting m1 @ [MRequest (length (store m)) 0]\<rparr> \<or>
          m' = flush_pending udec from_sdp (length (store m)) m1"
        using None msg ConnectRequest by (simp add: m'_def mgr_handle_signal_def Let_def m1_def)
      then show ?thesis
        using new assms(3) flush_pending_others [of "length (store m)" m1] by auto
    qed (use None msg in \<open>simp_all add: m'_def mgr_handle_signal_def buffer_pending_candidate_def Let_def session_at_def\<close>)
  qed
qed

lemma buffered_domain:
  "sessions (buffer_pending_candidate msg m) = sessions m"
  "dom (pending_candidates (buffer_pending_candidate msg m)) = insert (connection_id msg) (dom (pending_candidates m))"
  by (simp_all add: buffer_pending_candidate_def Let_def)

lemma stray_candidates:
  fixes on_op on_cl on_pkt relay :: bool
  assumes "\<And>c. c < n \<Longrightarrow> u64 (int c)"
  shows "sessions (foldl (manager_step udec from_sdp) (new_manager on_op on_cl on_pkt relay)
      (map (\<lambda>c. MgrSignal sender_id (serialize_signaling (CandidateAdd (int c) candidate_text))) [0..<n])) = [] \<and>
    dom (pending_candidates (foldl (manager_step udec from_sdp) (new_manager on_op on_cl on_pkt relay)
      (map (\<lambda>c. MgrSignal sender_id (serialize_signaling (CandidateAdd (int c) candidate_text))) [0..<n]))) =
    int ` {0..<n}"
  using assms
proof (induction n)
  case 0
  then show ?case by (simp add: new_manager_def)
next
  case (Suc n)
  let ?m = "foldl (manager_step udec from_sdp) (new_manager on_op on_cl on_pkt relay)
    (map (\<lambda>c. MgrSignal sender_id (serialize_signaling (CandidateAdd (int c) candidate_text))) [0..<n])"
  have IH: "sessions ?m = []" "dom (pending_candidates ?m) = int ` {0..<n}" using Suc by simp_all
  have "parse_signaling (serialize_signaling (CandidateAdd (int n) candidate_text)) =
      Inr (Some (CandidateAdd (int n) candidate_text))"
    using Suc.prems [of n] by (intro parse_serialize) simp
  with IH show ?case
    by (simp add: mgr_handle_signal_def buffered_domain atLeastLessThanSuc)
qed

section \<open>Properties\<close>

text \<open>
  C29: the registry, over all interleavings of signals, connects, session events and closes:
  connection ids are registered once, for a session that exists, has that id and is not
  closed; a connection that is not created yet has at most 64 candidates buffered.
\<close>

theorem manager_registry:
  assumes "m = foldl (manager_step udec from_sdp) (new_manager on_op on_cl on_pkt relay) es"
  shows "distinct (map fst (sessions m)) \<and>
    (map_of (sessions m) conn = Some i \<longrightarrow>
      i < length (store m) \<and> cid (session_at i m) = conn \<and> state (session_at i m) \<noteq> CLOSED) \<and>
    (pending_candidates m conn = Some buffer \<longrightarrow> length buffer \<le> 64)"
proof -
  have "mgr_inv m" unfolding assms
    by (rule manager_machine.inv_reachable) (auto simp: fresh_manager_def)
  then show ?thesis
    by (auto simp: mgr_inv_def list_all_iff entry_ok_def buffer_ok_def MAX_PENDING_CANDIDATES_def
        dest!: map_of_SomeD)
qed

theorem manager_registry_witness:
  "distinct (map fst (sessions (foldl (manager_step (\<lambda>_. None) (\<lambda>_. None :: nat option))
     (new_manager True True True False) [MgrConnect unset 1, MgrConnect unset 1, MgrAclose])))"
  by (rule manager_registry [OF refl, THEN conjunct1])

text \<open>
  Isolation. A signaling string, whatever it holds, changes no session but the one its
  connection id is registered for, and creates at most one session, which is a listener.
\<close>

theorem manager_signal_isolated:
  assumes "m = foldl (manager_step udec from_sdp) (new_manager on_op on_cl on_pkt relay) es"
    and "m' = mgr_handle_signal udec from_sdp sender_id message m"
    and "j < length (store m)"
    and "\<not> (\<exists>msg. parse_signaling message = Inr (Some msg) \<and> map_of (sessions m) (connection_id msg) = Some j)"
  shows "session_at j m' = session_at j m \<and>
    (length (store m') = length (store m) \<or>
     length (store m') = Suc (length (store m)) \<and> \<not> is_dialer (session_at (length (store m)) m'))"
proof -
  have "mgr_inv m" unfolding assms(1)
    by (rule manager_machine.inv_reachable) (auto simp: fresh_manager_def)
  from handle_signal_isolated [OF this assms(3,4)] show ?thesis unfolding assms(2) by blast
qed

theorem manager_signal_isolated_witness:
  "session_at 0 (mgr_handle_signal (\<lambda>_. None) (\<lambda>_. None :: nat option) unset [] (foldl (manager_step (\<lambda>_. None) (\<lambda>_. None))
     (new_manager True True True False) [MgrConnect unset 1])) =
   session_at 0 (foldl (manager_step (\<lambda>_. None) (\<lambda>_. None)) (new_manager True True True False) [MgrConnect unset 1])"
proof (rule manager_signal_isolated [OF refl refl, THEN conjunct1])
  show "0 < length (store (foldl (manager_step (\<lambda>_. None) (\<lambda>_. None :: nat option))
      (new_manager True True True False) [MgrConnect unset 1]))"
    by (simp add: mgr_connect_def Let_def create_step_keeps(2) [OF new_manager_inv] del: length_greater_0_conv)
qed (simp add: parse_signaling_def tokenize_def)

text \<open>
  The number of connections with buffered candidates is not bounded: a sender that names
  \<open>n\<close> different connection ids makes the manager keep \<open>n\<close> buffers.
\<close>

theorem pending_connections_unbounded:
  assumes "u64 (int n)"
  shows "dom (pending_candidates (foldl (manager_step udec from_sdp) (new_manager on_op on_cl on_pkt relay)
    (map (\<lambda>c. MgrSignal sender_id (serialize_signaling (CandidateAdd (int c) candidate_text))) [0..<n]))) =
    int ` {0..<n}"
proof -
  have "u64 (int c)" if "c < n" for c using that assms by (simp add: u64_def)
  then show ?thesis
    using stray_candidates [where n = n and udec = udec and from_sdp = from_sdp and on_op = on_op and on_cl = on_cl
        and on_pkt = on_pkt and relay = relay and sender_id = sender_id and candidate_text = candidate_text] by simp
qed

theorem pending_connections_unbounded_witness:
  "dom (pending_candidates (foldl (manager_step (\<lambda>_. None) (\<lambda>_. None :: nat option)) (new_manager True True True False)
    (map (\<lambda>c. MgrSignal unset (serialize_signaling (CandidateAdd (int c) []))) [0..<1000]))) = int ` {0..<1000}"
  by (rule pending_connections_unbounded) (simp add: u64_def U64_MAX_def)

end
