(* ===== verification/Sha256.thy ===== *)
theory Sha256
  imports Prelude
begin

text \<open>
  \<open>hashlib.sha256\<close> and \<open>hmac.new(key, msg, sha256)\<close> of Python's standard library, which the
  discovery envelope rests on: FIPS 180-4 and RFC 2104 as executable functions on bytes.
\<close>

section \<open>Words and padding\<close>

type_synonym u32 = "32 word"

definition be_word :: "bytes \<Rightarrow> u32" where
  "be_word bs = foldl (\<lambda>a b. push_bit 8 a OR ucast b) 0 bs"

definition be_bytes :: "u32 \<Rightarrow> bytes" where
  "be_bytes w = [ucast (drop_bit 24 w), ucast (drop_bit 16 w), ucast (drop_bit 8 w), ucast w]"

definition be_length :: "nat \<Rightarrow> bytes" where
  "be_length n = rev (le_bytes 8 (int n))"

definition sha_pad :: "bytes \<Rightarrow> bytes" where
  "sha_pad m = m @ 0x80 # replicate ((119 - length m mod 64) mod 64) 0 @ be_length (8 * length m)"

fun split_every :: "nat \<Rightarrow> nat \<Rightarrow> 'a list \<Rightarrow> 'a list list" where
  "split_every n 0 xs = []"
| "split_every n (Suc k) xs = take n xs # split_every n k (drop n xs)"

section \<open>The compression function\<close>

text \<open>
  The constants are the first 32 bits of the fractional parts of the cube roots (square roots)
  of the first primes: \<open>root_bits k n\<close> is the integer part of the \<open>k\<close>-th root of \<open>n\<close>, found bit
  by bit, and the conversion to a word drops the bits above the fraction.
\<close>

fun root_bits :: "nat \<Rightarrow> nat \<Rightarrow> nat \<Rightarrow> nat \<Rightarrow> nat" where
  "root_bits k n 0 r = r"
| "root_bits k n (Suc b) r = root_bits k n b (if (r + 2 ^ b) ^ k \<le> n then r + 2 ^ b else r)"

definition primes_to :: "nat \<Rightarrow> nat list" where
  "primes_to n = filter (\<lambda>p. 1 < p \<and> list_all (\<lambda>d. p mod d \<noteq> 0) [2..<p]) [0..<Suc n]"

definition root_fraction :: "nat \<Rightarrow> nat \<Rightarrow> u32" where
  "root_fraction k p = of_nat (root_bits k (p * 2 ^ (32 * k)) 40 0)"

definition sha_k :: "u32 list" where
  "sha_k = map (root_fraction 3) (primes_to 311)"

type_synonym sha_state = "u32 \<times> u32 \<times> u32 \<times> u32 \<times> u32 \<times> u32 \<times> u32 \<times> u32"

definition sha_h0 :: sha_state where
  "sha_h0 =
    (let r = root_fraction 2 in (r 2, r 3, r 5, r 7, r 11, r 13, r 17, r 19))"

definition sha_round :: "sha_state \<Rightarrow> u32 \<times> u32 \<Rightarrow> sha_state" where
  "sha_round = (\<lambda>(a, b, c, d, e, f, g, h) (k, w).
     (let s1 = word_rotr 6 e XOR word_rotr 11 e XOR word_rotr 25 e;
          ch = (e AND f) XOR (NOT e AND g);
          t1 = h + s1 + ch + k + w;
          s0 = word_rotr 2 a XOR word_rotr 13 a XOR word_rotr 22 a;
          maj = (a AND b) XOR (a AND c) XOR (b AND c)
      in (t1 + s0 + maj, a, b, c, d + t1, e, f, g)))"

text \<open>The message schedule, kept as a window of the last sixteen words.\<close>

definition sha_next :: "u32 list \<Rightarrow> u32" where
  "sha_next w =
     (let x = w ! 1; y = w ! 14;
          s0 = word_rotr 7 x XOR word_rotr 18 x XOR drop_bit 3 x;
          s1 = word_rotr 17 y XOR word_rotr 19 y XOR drop_bit 10 y
      in w ! 0 + s0 + w ! 9 + s1)"

fun sha_schedule :: "nat \<Rightarrow> u32 list \<Rightarrow> u32 list" where
  "sha_schedule 0 w = []"
| "sha_schedule (Suc n) w = hd w # sha_schedule n (tl w @ [sha_next w])"

definition sha_block :: "sha_state \<Rightarrow> bytes \<Rightarrow> sha_state" where
  "sha_block st block =
     (let w = sha_schedule 64 (map be_word (split_every 4 16 block));
          (a, b, c, d, e, f, g, h) = foldl sha_round st (zip sha_k w);
          (a0, b0, c0, d0, e0, f0, g0, h0) = st
      in (a0 + a, b0 + b, c0 + c, d0 + d, e0 + e, f0 + f, g0 + g, h0 + h))"

definition sha256 :: "bytes \<Rightarrow> bytes" where
  "sha256 m =
     (let p = sha_pad m;
          (a, b, c, d, e, f, g, h) = foldl sha_block sha_h0 (split_every 64 (length p div 64) p)
      in concat (map be_bytes [a, b, c, d, e, f, g, h]))"

definition hmac_sha256 :: "bytes \<Rightarrow> bytes \<Rightarrow> bytes" where
  "hmac_sha256 key m =
     (let k0 = (if 64 < length key then sha256 key else key);
          k = k0 @ replicate (64 - length k0) 0
      in sha256 (map ((XOR) 0x5c) k @ sha256 (map ((XOR) 0x36) k @ m)))"

section \<open>Sizes\<close>

lemma length_sha256 [simp]: "length (sha256 m) = 32"
  by (simp add: sha256_def be_bytes_def Let_def split: prod.split)

lemma length_hmac_sha256 [simp]: "length (hmac_sha256 k m) = 32"
  by (simp add: hmac_sha256_def Let_def)

text \<open>The padded message is a whole number of blocks.\<close>

lemma length_sha_pad: "length (sha_pad m) mod 64 = 0"
proof -
  define r where "r = length m mod 64"
  define q where "q = length m div 64"
  have len: "length m = 64 * q + r" and r: "r < 64" by (simp_all add: r_def q_def)
  have total: "length (sha_pad m) = 64 * q + r + 9 + (119 - r) mod 64"
    using r by (simp add: sha_pad_def be_length_def len)
  show ?thesis
  proof (cases "r \<le> 55")
    case True
    then have "(119 - r) mod 64 = 55 - r" by (simp add: mod_if)
    then have "length (sha_pad m) = 64 * (q + 1)" using True total by simp
    then show ?thesis by simp
  next
    case False
    then have "(119 - r) mod 64 = 119 - r" using r by simp
    then have "length (sha_pad m) = 64 * (q + 2)" using False r total by simp
    then show ?thesis by simp
  qed
qed

end
