(* ===== verification/Crypto.thy ===== *)
theory Crypto
  imports Sha256
begin

text \<open>
  \<open>discovery/crypto.py\<close>: the envelope around every discovery datagram. AES-256-ECB and the
  PKCS7 padder are code of the \<open>cryptography\<close> package, so they are the parameter
  \<open>crypto_lib\<close>; \<open>library_ok\<close> states the documented behaviour the envelope relies on.
  SHA-256 and HMAC are Python's standard library and are modelled in \<open>Sha256\<close>.
\<close>

section \<open>The library parameter\<close>

record crypto_lib =
  ecb_encrypt :: "bytes \<Rightarrow> bytes \<Rightarrow> bytes result"
  ecb_decrypt :: "bytes \<Rightarrow> bytes \<Rightarrow> bytes result"
  pkcs7_pad :: "bytes \<Rightarrow> bytes"
  pkcs7_unpad :: "bytes \<Rightarrow> bytes result"

definition padded_size :: "nat \<Rightarrow> nat" where
  "padded_size n = (n div 16 + 1) * 16"

text \<open>
  The only exception these calls are documented to raise on such inputs is \<open>ValueError\<close>, which
  \<open>open\<close> catches. ECB under a 32-byte key maps whole blocks to as many bytes and is undone by decryption;
  PKCS7 fills up to the next block border, always adding a byte, and is undone by unpadding.
\<close>

definition library_ok :: "crypto_lib \<Rightarrow> bool" where
  "library_ok lib \<longleftrightarrow>
     (\<forall>key p. length key = 32 \<and> length p mod 16 = 0 \<longrightarrow>
        (\<exists>c. ecb_encrypt lib key p = Inr c \<and> length c = length p \<and> ecb_decrypt lib key c = Inr p)) \<and>
     (\<forall>p. length (pkcs7_pad lib p) = padded_size (length p)) \<and>
     (\<forall>p. pkcs7_unpad lib (pkcs7_pad lib p) = Inr p)"

section \<open>Sealing and opening\<close>

definition MAC_SIZE :: nat where "MAC_SIZE = 32"

text \<open>\<open>app_id.to_bytes(8, "little")\<close> raises \<open>OverflowError\<close> outside \<open>u64\<close>.\<close>

definition derive_key :: "int \<Rightarrow> bytes result" where
  "derive_key app_id =
     (if in_range 8 app_id then Inr (sha256 (le_bytes 8 app_id)) else Inl OverflowError)"

record envelope = key :: bytes

definition new_envelope :: "int \<Rightarrow> envelope result" where
  "new_envelope app_id = rbind (derive_key app_id) (\<lambda>k. Inr \<lparr>key = k\<rparr>)"

definition seal :: "crypto_lib \<Rightarrow> envelope \<Rightarrow> bytes \<Rightarrow> bytes result" where
  "seal lib env plaintext =
     (let mac = hmac_sha256 (key env) plaintext; padded = pkcs7_pad lib plaintext in
      rbind (ecb_encrypt lib (key env) padded) (\<lambda>ciphertext. Inr (mac @ ciphertext)))"

definition decrypt_unpad :: "crypto_lib \<Rightarrow> envelope \<Rightarrow> bytes \<Rightarrow> bytes result" where
  "decrypt_unpad lib env ciphertext =
     rbind (ecb_decrypt lib (key env) ciphertext) (\<lambda>padded. pkcs7_unpad lib padded)"

definition open_envelope :: "crypto_lib \<Rightarrow> envelope \<Rightarrow> bytes \<Rightarrow> bytes option" where
  "open_envelope lib env data =
     (if length data < MAC_SIZE then None
      else let received_mac = take MAC_SIZE data; ciphertext = drop MAC_SIZE data in
        case decrypt_unpad lib env ciphertext of
          Inl _ \<Rightarrow> None
        | Inr plaintext \<Rightarrow>
            if received_mac \<noteq> hmac_sha256 (key env) plaintext then None else Some plaintext)"

section \<open>Lemmas\<close>

definition wf_envelope :: "envelope \<Rightarrow> bool" where
  "wf_envelope env \<longleftrightarrow> length (key env) = 32"

lemma new_envelope_wf: "new_envelope app_id = Inr env \<Longrightarrow> wf_envelope env"
  by (auto simp: new_envelope_def derive_key_def rbind_eq_Inr wf_envelope_def split: if_splits)

lemma new_envelope_ok: "is_ok (new_envelope app_id) \<longleftrightarrow> in_range 8 app_id"
  by (simp add: new_envelope_def derive_key_def)

lemma padded_size_mod [simp]: "padded_size n mod 16 = 0"
  by (simp add: padded_size_def)

lemma padded_size_mono: "m \<le> n \<Longrightarrow> padded_size m \<le> padded_size n"
  by (simp add: padded_size_def div_le_mono)

lemma seal_shape:
  assumes "library_ok lib" and "wf_envelope env"
  obtains c where "seal lib env p = Inr (hmac_sha256 (key env) p @ c)"
    and "length c = padded_size (length p)" and "decrypt_unpad lib env c = Inr p"
proof -
  have "length (pkcs7_pad lib p) = padded_size (length p)" and unpad: "pkcs7_unpad lib (pkcs7_pad lib p) = Inr p"
    using assms(1) by (simp_all add: library_ok_def)
  moreover from this assms obtain c where "ecb_encrypt lib (key env) (pkcs7_pad lib p) = Inr c"
    and "length c = length (pkcs7_pad lib p)" and "ecb_decrypt lib (key env) c = Inr (pkcs7_pad lib p)"
    unfolding library_ok_def wf_envelope_def by (metis padded_size_mod)
  ultimately show ?thesis using that by (simp add: seal_def decrypt_unpad_def)
qed

lemma open_mac_cipher:
  assumes "length mac = 32" and "decrypt_unpad lib env c = Inr p"
  shows "open_envelope lib env (mac @ c) = (if mac = hmac_sha256 (key env) p then Some p else None)"
  using assms by (simp add: open_envelope_def MAC_SIZE_def)

lemma open_seal:
  assumes "library_ok lib" and "wf_envelope env" and "seal lib env p = Inr e"
  shows "open_envelope lib env e = Some p"
  using assms by (auto elim!: seal_shape [where p = p] simp: open_mac_cipher)

lemma open_Some:
  "open_envelope lib env e = Some p \<longleftrightarrow>
   (\<exists>c. e = hmac_sha256 (key env) p @ c \<and> decrypt_unpad lib env c = Inr p)"
proof
  assume o: "open_envelope lib env e = Some p"
  then have "e = hmac_sha256 (key env) p @ drop MAC_SIZE e"
    and "decrypt_unpad lib env (drop MAC_SIZE e) = Inr p"
    by (auto simp: open_envelope_def Let_def split: if_splits sum.splits)
      (metis append_take_drop_id)
  then show "\<exists>c. e = hmac_sha256 (key env) p @ c \<and> decrypt_unpad lib env c = Inr p" by blast
qed (auto simp: open_mac_cipher)

text \<open>
  A concrete library for the witnesses: PKCS7 as RFC 5652 defines it, and for the block
  cipher the exclusive-or with the first key byte, which satisfies the same laws.
\<close>

definition pad16 :: "bytes \<Rightarrow> bytes" where
  "pad16 p = (let n = 16 - length p mod 16 in p @ replicate n (of_nat n))"

definition unpad16 :: "bytes \<Rightarrow> bytes result" where
  "unpad16 p =
     (if p = [] then Inl ValueError
      else let n = unat (last p) in
        if n = 0 \<or> 16 < n \<or> length p < n \<or> drop (length p - n) p \<noteq> replicate n (last p) then Inl ValueError
        else Inr (take (length p - n) p))"

definition xor_cipher :: "bytes \<Rightarrow> bytes \<Rightarrow> bytes result" where
  "xor_cipher k p =
     (if length p mod 16 \<noteq> 0 \<or> k = [] then Inl ValueError else Inr (map ((XOR) (hd k)) p))"

definition xor_lib :: crypto_lib where
  "xor_lib = \<lparr>ecb_encrypt = xor_cipher, ecb_decrypt = xor_cipher, pkcs7_pad = pad16, pkcs7_unpad = unpad16\<rparr>"

lemma length_pad16: "length (pad16 p) = padded_size (length p)"
proof -
  have "length p = length p div 16 * 16 + length p mod 16" "length p mod 16 < 16" by simp_all
  then have "length p + (16 - length p mod 16) = length p div 16 * 16 + 16" by linarith
  then show ?thesis by (simp add: pad16_def padded_size_def Let_def)
qed

lemma unpad16_pad16: "unpad16 (pad16 p) = Inr p"
proof -
  define n where "n = 16 - length p mod 16"
  have "length p mod 16 < 16" by simp
  then have n: "0 < n" "n \<le> 16" unfolding n_def by linarith+
  then have "unat (of_nat n :: byte) = n" by (simp add: unat_of_nat)
  moreover have "last (p @ replicate n (of_nat n :: byte)) = of_nat n" using n by simp
  ultimately show ?thesis using n by (simp add: unpad16_def pad16_def Let_def flip: n_def)
qed

lemma xor_lib_ok: "library_ok xor_lib"
  by (auto simp: library_ok_def xor_lib_def xor_cipher_def length_pad16 unpad16_pad16 o_def
      simp flip: xor.assoc)

section \<open>Properties\<close>

text \<open>
  C30: what is sealed opens again to the same plaintext under the same application id, and a
  sealed datagram is 32 bytes of MAC and whole cipher blocks.
\<close>

theorem envelope_open_seal:
  assumes "library_ok lib" and "new_envelope app_id = Inr env"
  shows "\<exists>e. seal lib env p = Inr e \<and> open_envelope lib env e = Some p \<and>
    length e = 32 + padded_size (length p)"
proof -
  have wf: "wf_envelope env" using assms(2) by (rule new_envelope_wf)
  obtain c where "seal lib env p = Inr (hmac_sha256 (key env) p @ c)" "length c = padded_size (length p)"
    using seal_shape [OF assms(1) wf, of p] by metis
  with open_seal [OF assms(1) wf, of p] show ?thesis by auto
qed

theorem envelope_open_seal_witness:
  "\<exists>e. seal xor_lib \<lparr>key = sha256 (le_bytes 8 1)\<rparr> [1, 2] = Inr e \<and>
    open_envelope xor_lib \<lparr>key = sha256 (le_bytes 8 1)\<rparr> e = Some [1, 2] \<and> length e = 32 + padded_size (length [1 :: byte, 2])"
  using envelope_open_seal [OF xor_lib_ok, of 1 "\<lparr>key = sha256 (le_bytes 8 1)\<rparr>" "[1, 2]"]
  by (simp add: new_envelope_def derive_key_def in_range_def)

text \<open>
  A datagram that opens carries the MAC of its plaintext, and with any other 32 bytes in
  the place of the MAC the same ciphertext is refused.
\<close>

theorem envelope_authentic:
  assumes "open_envelope lib env e = Some p"
  shows "take 32 e = hmac_sha256 (key env) p \<and> decrypt_unpad lib env (drop 32 e) = Inr p \<and>
    (\<forall>mac. length mac = 32 \<and> mac \<noteq> take 32 e \<longrightarrow> open_envelope lib env (mac @ drop 32 e) = None)"
proof -
  from assms obtain c where e: "e = hmac_sha256 (key env) p @ c" and c: "decrypt_unpad lib env c = Inr p"
    by (auto simp: open_Some)
  have "take 32 e = hmac_sha256 (key env) p" "drop 32 e = c" by (simp_all add: e)
  with c show ?thesis by (simp add: open_mac_cipher)
qed

theorem envelope_authentic_witness:
  "\<exists>e. open_envelope xor_lib \<lparr>key = replicate 32 1\<rparr> e = Some [3] \<and>
    take 32 e = hmac_sha256 (replicate 32 1) [3]"
proof -
  obtain c where "seal xor_lib \<lparr>key = replicate 32 1\<rparr> [3] = Inr c"
    using seal_shape [OF xor_lib_ok, of "\<lparr>key = replicate 32 1\<rparr>" "[3]"] by (auto simp: wf_envelope_def)
  from open_seal [OF xor_lib_ok _ this] have "open_envelope xor_lib \<lparr>key = replicate 32 1\<rparr> c = Some [3]"
    by (simp add: wf_envelope_def)
  with envelope_authentic [OF this] show ?thesis by auto
qed

end
