(* ===== verification/Packets.thy ===== *)
theory Packets
  imports Prelude
begin

text \<open>
  \<open>discovery/packets.py\<close>: the LAN discovery packets and their byte layout. A field packed by
  \<open>struct\<close> outside its width raises \<open>struct.error\<close>; \<open>parse_discovery\<close> is the module's
  \<open>parse\<close> (the name under which \<open>discovery/lan.py\<close> imports it).
\<close>

section \<open>Packets\<close>

datatype discovery_packet =
    DiscoveryRequest (sender_id: int)
  | DiscoveryResponse (sender_id: int) (application_data: bytes)
  | DiscoveryMessage (sender_id: int) (recipient_id: int) (message_data: bytes)

fun packet_type :: "discovery_packet \<Rightarrow> int" where
  "packet_type (DiscoveryRequest _) = 0"
| "packet_type (DiscoveryResponse _ _) = 1"
| "packet_type (DiscoveryMessage _ _ _) = 2"

definition BASE_HEADER_SIZE :: nat where "BASE_HEADER_SIZE = 20"
definition RESPONSE_HEADER_SIZE :: nat where "RESPONSE_HEADER_SIZE = 24"
definition MESSAGE_HEADER_SIZE :: nat where "MESSAGE_HEADER_SIZE = 32"
definition RESPONSE_PAYLOAD_MAX :: nat where "RESPONSE_PAYLOAD_MAX = 1148"
definition MESSAGE_PAYLOAD_MAX :: nat where "MESSAGE_PAYLOAD_MAX = 1140"

lemmas packet_consts [codec_simps] =
  BASE_HEADER_SIZE_def RESPONSE_HEADER_SIZE_def MESSAGE_HEADER_SIZE_def
  RESPONSE_PAYLOAD_MAX_def MESSAGE_PAYLOAD_MAX_def

section \<open>struct\<close>

text \<open>One unsigned little-endian field of \<open>n\<close> bytes.\<close>

definition pack_uint :: "nat \<Rightarrow> int \<Rightarrow> bytes result" where
  "pack_uint n x = (if in_range n x then Inr (le_bytes n x) else Inl StructError)"

text \<open>\<open>Struct("<HHQ8x")\<close>, \<open>Struct("<I")\<close> and \<open>Struct("<QI")\<close>.\<close>

definition base_pack :: "int \<Rightarrow> int \<Rightarrow> int \<Rightarrow> bytes result" where
  "base_pack len typ sender =
     rbind (pack_uint 2 len) (\<lambda>l. rbind (pack_uint 2 typ) (\<lambda>t. rbind (pack_uint 8 sender) (\<lambda>s.
       Inr (l @ t @ s @ replicate 8 0))))"

definition base_unpack :: "bytes \<Rightarrow> int \<times> int \<times> int" where
  "base_unpack data = (le_int (slice 0 2 data), le_int (slice 2 4 data), le_int (slice 4 12 data))"

definition message_extra_pack :: "int \<Rightarrow> int \<Rightarrow> bytes result" where
  "message_extra_pack recipient len =
     rbind (pack_uint 8 recipient) (\<lambda>r. rbind (pack_uint 4 len) (\<lambda>l. Inr (r @ l)))"

definition message_extra_unpack :: "bytes \<Rightarrow> int \<times> int" where
  "message_extra_unpack data = (le_int (slice 20 28 data), le_int (slice 28 32 data))"

section \<open>Serialising and parsing\<close>

fun serialize_discovery :: "discovery_packet \<Rightarrow> bytes result" where
  "serialize_discovery (DiscoveryRequest s) = base_pack (int BASE_HEADER_SIZE) 0 s"
| "serialize_discovery (DiscoveryResponse s d) =
     (let payload = take RESPONSE_PAYLOAD_MAX d in
      rbind (base_pack (int (RESPONSE_HEADER_SIZE + length payload)) 1 s) (\<lambda>header.
      rbind (pack_uint 4 (int (length payload))) (\<lambda>extra. Inr (header @ extra @ payload))))"
| "serialize_discovery (DiscoveryMessage s r d) =
     (let payload = take MESSAGE_PAYLOAD_MAX d in
      rbind (base_pack (int (MESSAGE_HEADER_SIZE + length payload)) 2 s) (\<lambda>header.
      rbind (message_extra_pack r (int (length payload))) (\<lambda>extra. Inr (header @ extra @ payload))))"

definition parse_discovery :: "bytes \<Rightarrow> discovery_packet option" where
  "parse_discovery data =
     (if length data < BASE_HEADER_SIZE then None
      else let (packet_length, typ, sender) = base_unpack data in
        if typ = 0 then Some (DiscoveryRequest sender)
        else if typ = 1 then
          (if length data < RESPONSE_HEADER_SIZE then None
           else let app_len = le_int (slice 20 24 data); end = int RESPONSE_HEADER_SIZE + app_len in
             if int (length data) < end then None
             else Some (DiscoveryResponse sender (slice RESPONSE_HEADER_SIZE (nat end) data)))
        else if typ = 2 then
          (if length data < MESSAGE_HEADER_SIZE then None
           else let (recipient, msg_len) = message_extra_unpack data; end = int MESSAGE_HEADER_SIZE + msg_len in
             if int (length data) < end then None
             else Some (DiscoveryMessage sender recipient (slice MESSAGE_HEADER_SIZE (nat end) data)))
        else None)"

section \<open>Layout lemmas\<close>

lemma in_range_small [codec_simps]:
  "in_range 2 x \<longleftrightarrow> 0 \<le> x \<and> x < 65536" "in_range 4 x \<longleftrightarrow> 0 \<le> x \<and> x < 4294967296"
  by (simp_all add: in_range_def)

lemma pack_uint_Inr: "pack_uint n x = Inr b \<longleftrightarrow> in_range n x \<and> b = le_bytes n x"
  by (auto simp: pack_uint_def)

lemma base_pack_Inr:
  "base_pack l t s = Inr b \<longleftrightarrow> in_range 2 l \<and> in_range 2 t \<and> in_range 8 s \<and>
     b = le_bytes 2 l @ le_bytes 2 t @ le_bytes 8 s @ replicate 8 0"
  by (auto simp: base_pack_def rbind_eq_Inr pack_uint_Inr)

lemma base_pack_length: "base_pack l t s = Inr b \<Longrightarrow> length b = 20"
  by (auto simp: base_pack_Inr)

lemma base_unpack_pack:
  "base_pack l t s = Inr b \<Longrightarrow> base_unpack (b @ rest) = (l, t, s)"
  by (auto simp: base_pack_Inr base_unpack_def slice_def)

lemma message_extra_Inr:
  "message_extra_pack r n = Inr b \<longleftrightarrow> in_range 8 r \<and> in_range 4 n \<and> b = le_bytes 8 r @ le_bytes 4 n"
  by (auto simp: message_extra_pack_def rbind_eq_Inr pack_uint_Inr)

lemma message_extra_unpack_pack:
  "message_extra_pack r n = Inr b \<Longrightarrow> length h = 20 \<Longrightarrow> message_extra_unpack (h @ b @ rest) = (r, n)"
  by (auto simp: message_extra_Inr message_extra_unpack_def slice_def)

text \<open>What the receiver can get back: the payload cut at the header's maximum.\<close>

fun truncate_packet :: "discovery_packet \<Rightarrow> discovery_packet" where
  "truncate_packet (DiscoveryRequest s) = DiscoveryRequest s"
| "truncate_packet (DiscoveryResponse s d) = DiscoveryResponse s (take RESPONSE_PAYLOAD_MAX d)"
| "truncate_packet (DiscoveryMessage s r d) = DiscoveryMessage s r (take MESSAGE_PAYLOAD_MAX d)"

fun packet_ids_ok :: "discovery_packet \<Rightarrow> bool" where
  "packet_ids_ok (DiscoveryRequest s) \<longleftrightarrow> in_range 8 s"
| "packet_ids_ok (DiscoveryResponse s d) \<longleftrightarrow> in_range 8 s"
| "packet_ids_ok (DiscoveryMessage s r d) \<longleftrightarrow> in_range 8 s \<and> in_range 8 r"

definition packet_ok :: "discovery_packet \<Rightarrow> bool" where
  "packet_ok p \<longleftrightarrow> packet_ids_ok p \<and> truncate_packet p = p"

lemma take_length_less: "length (take n xs) < Suc n" by simp

lemma serialize_discovery_ok: "is_ok (serialize_discovery p) \<longleftrightarrow> packet_ids_ok p"
  by (cases p)
    (auto simp: is_ok_iff rbind_eq_Inr base_pack_Inr message_extra_Inr pack_uint_Inr Let_def
      codec_simps min_def)

lemma parse_serialize_discovery:
  assumes "serialize_discovery p = Inr b"
  shows "parse_discovery b = Some (truncate_packet p)"
proof (cases p)
  case (DiscoveryRequest s)
  with assms have "base_pack 20 0 s = Inr b" by (simp add: codec_simps)
  with base_unpack_pack [OF this, of "[]"] base_pack_length [OF this] show ?thesis
    by (simp add: parse_discovery_def DiscoveryRequest codec_simps)
next
  case (DiscoveryResponse s d)
  define pl where "pl = take RESPONSE_PAYLOAD_MAX d"
  have t: "truncate_packet p = DiscoveryResponse s pl" by (simp add: DiscoveryResponse pl_def)
  from assms DiscoveryResponse obtain h e where h: "base_pack (24 + int (length pl)) 1 s = Inr h"
    and e: "pack_uint 4 (int (length pl)) = Inr e" and b: "b = h @ e @ pl"
    by (auto simp: rbind_eq_Inr Let_def pl_def codec_simps)
  note unpack = base_unpack_pack [OF h, of "e @ pl"] and len = base_pack_length [OF h]
  have "length e = 4" "le_int e = int (length pl)" using e by (auto simp: pack_uint_Inr)
  then show ?thesis
    using unpack len by (simp add: parse_discovery_def t b slice_def codec_simps nat_add_distrib)
next
  case (DiscoveryMessage s r d)
  define pl where "pl = take MESSAGE_PAYLOAD_MAX d"
  have t: "truncate_packet p = DiscoveryMessage s r pl" by (simp add: DiscoveryMessage pl_def)
  from assms DiscoveryMessage obtain h e where h: "base_pack (32 + int (length pl)) 2 s = Inr h"
    and e: "message_extra_pack r (int (length pl)) = Inr e" and b: "b = h @ e @ pl"
    by (auto simp: rbind_eq_Inr Let_def pl_def codec_simps)
  note unpack = base_unpack_pack [OF h, of "e @ pl"] and len = base_pack_length [OF h]
  have "message_extra_unpack b = (r, int (length pl))" "length e = 12"
    using message_extra_unpack_pack [OF e len, of pl] e by (auto simp: b message_extra_Inr)
  then show ?thesis
    using unpack len by (simp add: parse_discovery_def t b slice_def codec_simps nat_add_distrib)
qed

lemma serialize_discovery_length:
  assumes "serialize_discovery p = Inr b"
  shows "20 \<le> length b \<and> length b \<le> 1172"
  using assms
  by (cases p) (auto simp: rbind_eq_Inr base_pack_Inr message_extra_Inr pack_uint_Inr Let_def codec_simps)

lemma in_range_slice: "length (slice a b data) = n \<Longrightarrow> in_range n (le_int (slice a b data))"
  by (rule in_range_le_int)

text \<open>Whatever the parser accepts has ids that fit, and a payload that lies inside the datagram.\<close>

lemma parse_discovery_ids: "parse_discovery data = Some p \<Longrightarrow> packet_ids_ok p"
  using in_range_slice [of 4 12 data 8] in_range_slice [of 20 28 data 8]
  by (auto simp: parse_discovery_def base_unpack_def message_extra_unpack_def Let_def codec_simps
      split: if_splits)

lemma parse_discovery_sender: "parse_discovery data = Some p \<Longrightarrow> in_range 8 (sender_id p)"
  by (drule parse_discovery_ids) (cases p; simp)

fun packet_payload :: "discovery_packet \<Rightarrow> bytes" where
  "packet_payload (DiscoveryRequest _) = []"
| "packet_payload (DiscoveryResponse _ d) = d"
| "packet_payload (DiscoveryMessage _ _ d) = d"

lemma parse_discovery_payload:
  "parse_discovery data = Some p \<Longrightarrow>
   \<exists>h t. data = h @ packet_payload p @ t \<and> length h \<in> {20, 24, 32}"
proof -
  assume "parse_discovery data = Some p"
  then consider "packet_payload p = []" "20 \<le> length data"
    | n where "packet_payload p = slice 24 (24 + n) data" "24 \<le> length data"
    | n where "packet_payload p = slice 32 (32 + n) data" "32 \<le> length data"
    by (auto simp: parse_discovery_def base_unpack_def message_extra_unpack_def Let_def codec_simps
        nat_add_distrib split: if_splits)
  then show ?thesis
  proof cases
    case 1
    then have "data = take 20 data @ packet_payload p @ drop 20 data" by simp
    with 1 show ?thesis by (metis (no_types) insertI1 length_take min_absorb2)
  next
    case (2 n)
    then have "data = take 24 data @ packet_payload p @ drop (24 + n) data"
      by (simp add: slice_step)
    with 2 show ?thesis by (metis (no_types) insertI1 insertI2 length_take min_absorb2)
  next
    case (3 n)
    then have "data = take 32 data @ packet_payload p @ drop (32 + n) data"
      by (simp add: slice_step)
    with 3 show ?thesis by (metis (no_types) insertI1 insertI2 length_take min_absorb2)
  qed
qed

interpretation discovery: codec
  "\<lambda>p b. serialize_discovery p = Inr b" "\<lambda>b p. parse_discovery b = Some p" packet_ok
  using serialize_discovery_ok
  by unfold_locales (auto simp: packet_ok_def is_ok_iff dest: parse_serialize_discovery)

section \<open>Properties\<close>

text \<open>
  C31: a packet whose ids fit 64 bits is serialised without a raise into 20 to 1172 bytes, and
  parsing them gives the packet with its payload cut at the header's maximum.
\<close>

theorem discovery_round_trip:
  assumes "packet_ids_ok p"
  shows "\<exists>b. serialize_discovery p = Inr b \<and> parse_discovery b = Some (truncate_packet p) \<and>
    20 \<le> length b \<and> length b \<le> 1172"
proof -
  from assms obtain b where b: "serialize_discovery p = Inr b"
    using serialize_discovery_ok by (auto simp: is_ok_iff)
  with parse_serialize_discovery [OF b] serialize_discovery_length [OF b] show ?thesis by blast
qed

theorem discovery_round_trip_witness:
  "\<exists>b. serialize_discovery (DiscoveryMessage 1 2 (replicate 1141 0)) = Inr b \<and>
    parse_discovery b = Some (DiscoveryMessage 1 2 (replicate 1140 0)) \<and> 20 \<le> length b \<and> length b \<le> 1172"
  using discovery_round_trip [of "DiscoveryMessage 1 2 (replicate 1141 0)"]
  by (simp add: in_range_def MESSAGE_PAYLOAD_MAX_def)

text \<open>
  The parser reads inside the datagram only: the payload it returns is a part of the
  datagram after a whole header, and the ids fit 64 bits.
\<close>

theorem discovery_parse_inside:
  assumes "parse_discovery data = Some p"
  shows "packet_ids_ok p \<and> (\<exists>h t. data = h @ packet_payload p @ t \<and> length h \<in> {20, 24, 32})"
  using parse_discovery_ids [OF assms] parse_discovery_payload [OF assms] by blast

theorem discovery_parse_inside_witness:
  "packet_ids_ok (DiscoveryResponse 5 [9])"
proof -
  have "parse_discovery ([25, 0, 1, 0, 5] @ replicate 15 0 @ [1, 0, 0, 0, 9, 77]) = Some (DiscoveryResponse 5 [9])"
    by code_simp
  then show ?thesis by (rule discovery_parse_inside [THEN conjunct1])
qed

end
