(* ===== verification/Lan.thy ===== *)
theory Lan
  imports Crypto Packets Utf8 NetworkId
begin

text \<open>
  \<open>discovery/lan.py\<close>: \<open>LanTransport\<close>, the UDP endpoint that discovers hosts and carries
  signaling strings in sealed Message packets. The socket is not modelled: what an operation
  sends or hands to its callbacks is a list of effects. An address is any type. A raise in an
  operation is \<open>Inl\<close>, beside the state the operation has reached by then.
\<close>

section \<open>State\<close>

datatype 'a lan_effect =
    SendTo bytes 'a                          \<comment> \<open>\<open>self._transport.sendto(data, addr)\<close>\<close>
  | LanSignal network_id pystr               \<comment> \<open>\<open>on_signal\<close>\<close>
  | HostDiscovered network_id bytes 'a       \<comment> \<open>\<open>on_host_discovered\<close>\<close>

record 'a lan =
  local_id :: int
  lan_envelope :: envelope
  broadcast_addr :: 'a
  has_on_signal :: bool
  has_on_host_discovered :: bool
  transport :: bool                          \<comment> \<open>\<open>self._transport is not None\<close>\<close>
  peers :: "int \<Rightarrow> 'a option"
  broadcast_task :: bool                     \<comment> \<open>\<open>self._broadcast_task is not None\<close>\<close>
  bound_port :: "int option"

type_synonym 'a lan_result = "'a lan_effect list result \<times> 'a lan"

definition new_lan :: "int \<Rightarrow> int \<Rightarrow> 'a \<Rightarrow> bool \<Rightarrow> bool \<Rightarrow> 'a lan result" where
  "new_lan lid application_id broadcast on_sig on_host =
     rbind (new_envelope application_id) (\<lambda>env.
       Inr \<lparr>local_id = lid, lan_envelope = env, broadcast_addr = broadcast, has_on_signal = on_sig,
            has_on_host_discovered = on_host, transport = False, peers = Map.empty,
            broadcast_task = False, bound_port = None\<rparr>)"

definition connection_made :: "'a lan \<Rightarrow> 'a lan" where
  "connection_made l = l\<lparr>transport := True\<rparr>"

text \<open>\<open>start\<close> binds the socket; \<open>port\<close> is what \<open>getsockname\<close> returns.\<close>

definition lan_start :: "int \<Rightarrow> 'a lan \<Rightarrow> 'a lan" where
  "lan_start port l = connection_made (l\<lparr>bound_port := Some port\<rparr>)"

definition lan_start_broadcasting :: "'a lan \<Rightarrow> 'a lan" where
  "lan_start_broadcasting l = (if \<not> broadcast_task l then l\<lparr>broadcast_task := True\<rparr> else l)"

definition lan_close :: "'a lan \<Rightarrow> 'a lan" where
  "lan_close l = l\<lparr>broadcast_task := False, transport := False\<rparr>"

section \<open>Sending\<close>

definition send_packet :: "crypto_lib \<Rightarrow> discovery_packet \<Rightarrow> 'a \<Rightarrow> 'a lan \<Rightarrow> 'a lan_effect list result" where
  "send_packet lib packet addr l =
     (if \<not> transport l then Inr []
      else rbind (serialize_discovery packet) (\<lambda>plaintext.
           rbind (seal lib (lan_envelope l) plaintext) (\<lambda>e. Inr [SendTo e addr])))"

definition broadcast_request :: "crypto_lib \<Rightarrow> 'a lan \<Rightarrow> 'a lan_effect list result" where
  "broadcast_request lib l = send_packet lib (DiscoveryRequest (local_id l)) (broadcast_addr l) l"

text \<open>One round of the task's \<open>_broadcast_loop\<close>.\<close>

definition broadcast_round :: "crypto_lib \<Rightarrow> 'a lan \<Rightarrow> 'a lan_effect list result" where
  "broadcast_round lib l = (if broadcast_task l then broadcast_request lib l else Inr [])"

definition send_signal :: "crypto_lib \<Rightarrow> network_id \<Rightarrow> pystr \<Rightarrow> 'a lan \<Rightarrow> 'a lan_effect list result" where
  "send_signal lib remote_id message l =
     rbind (utf8_encode message) (\<lambda>data.
       send_packet lib (DiscoveryMessage (local_id l) (nid_value remote_id) data)
         (case peers l (nid_value remote_id) of Some addr \<Rightarrow> addr | None \<Rightarrow> broadcast_addr l) l)"

definition remember_peer :: "network_id \<Rightarrow> 'a \<Rightarrow> 'a lan \<Rightarrow> 'a lan" where
  "remember_peer nid addr l = l\<lparr>peers := (peers l)(nid_value nid \<mapsto> addr)\<rparr>"

section \<open>Receiving\<close>

text \<open>
  \<open>advertise\<close> is the callback \<open>get_advertisement\<close> (\<open>None\<close> if there is none) with what it
  returns at this call.
\<close>

definition answer_request :: "crypto_lib \<Rightarrow> bytes option option \<Rightarrow> 'a \<Rightarrow> 'a lan \<Rightarrow> 'a lan_effect list result" where
  "answer_request lib advertise addr l =
     (case advertise of
        None \<Rightarrow> Inr []
      | Some None \<Rightarrow> Inr []
      | Some (Some advertisement) \<Rightarrow> send_packet lib (DiscoveryResponse (local_id l) advertisement) addr l)"

definition handle_message :: "int \<Rightarrow> int \<Rightarrow> bytes \<Rightarrow> 'a lan \<Rightarrow> 'a lan_effect list result" where
  "handle_message sender recipient data l =
     (if recipient \<noteq> local_id l then Inr []
      else if data = [] then Inr []
      else case utf8_decode data of
          None \<Rightarrow> Inr []
        | Some message \<Rightarrow>
            if has_on_signal l then rbind (p2p sender) (\<lambda>nid. Inr [LanSignal nid message]) else Inr [])"

definition dispatch_packet ::
    "crypto_lib \<Rightarrow> bytes option option \<Rightarrow> discovery_packet \<Rightarrow> 'a \<Rightarrow> 'a lan \<Rightarrow> 'a lan_effect list result" where
  "dispatch_packet lib advertise packet addr l =
     (case packet of
        DiscoveryRequest s \<Rightarrow> answer_request lib advertise addr l
      | DiscoveryResponse s data \<Rightarrow>
          if has_on_host_discovered l then rbind (p2p s) (\<lambda>nid. Inr [HostDiscovered nid data addr]) else Inr []
      | DiscoveryMessage s r data \<Rightarrow> handle_message s r data l)"

definition on_datagram :: "crypto_lib \<Rightarrow> bytes option option \<Rightarrow> bytes \<Rightarrow> 'a \<Rightarrow> 'a lan \<Rightarrow> 'a lan_result" where
  "on_datagram lib advertise data addr l =
     (case open_envelope lib (lan_envelope l) data of
        None \<Rightarrow> (Inr [], l)
      | Some plaintext \<Rightarrow>
          (case parse_discovery plaintext of
             None \<Rightarrow> (Inr [], l)
           | Some packet \<Rightarrow>
               if sender_id packet = local_id l then (Inr [], l)
               else let l1 = (if sender_id packet \<noteq> 0
                              then l\<lparr>peers := (peers l)(sender_id packet \<mapsto> addr)\<rparr> else l)
                    in (dispatch_packet lib advertise packet addr l1, l1)))"

section \<open>Lemmas\<close>

text \<open>Two endpoints that can talk: ids of 64 bits, the same application id, a bound socket.\<close>

definition lan_ok :: "'a lan \<Rightarrow> bool" where
  "lan_ok l \<longleftrightarrow> in_range 8 (local_id l) \<and> wf_envelope (lan_envelope l)"

lemma new_lan_ok: "new_lan lid app b os oh = Inr l \<Longrightarrow> in_range 8 lid \<Longrightarrow> lan_ok l"
  by (auto simp: new_lan_def rbind_eq_Inr lan_ok_def dest: new_envelope_wf)

lemma in_range_u64: "in_range 8 n \<longleftrightarrow> 0 \<le> n \<and> n \<le> U64_MAX"
  by (auto simp: in_range_def U64_MAX_def)

lemma p2p_in_range: "in_range 8 n \<Longrightarrow> p2p n = Inr (mk_p2p n)"
  by (simp add: in_range_u64 p2p_def)

text \<open>A packet that is sent opens and parses to itself, its payload cut.\<close>

lemma send_packet_opens:
  assumes "library_ok lib" and "wf_envelope (lan_envelope l)" and "transport l" and "packet_ids_ok p"
  obtains e where "send_packet lib p addr l = Inr [SendTo e addr]"
    and "Option.bind (open_envelope lib (lan_envelope l) e) parse_discovery = Some (truncate_packet p)"
    and "length e \<le> 1216"
proof -
  obtain b where b: "serialize_discovery p = Inr b"
    using assms(4) serialize_discovery_ok by (auto simp: is_ok_iff)
  obtain c where c: "seal lib (lan_envelope l) b = Inr (hmac_sha256 (key (lan_envelope l)) b @ c)"
      "length c = padded_size (length b)"
    using seal_shape [OF assms(1,2), of b] by metis
  have "padded_size (length b) \<le> padded_size 1172"
    using serialize_discovery_length [OF b] by (intro padded_size_mono) simp
  then have "length c \<le> 1184" by (simp add: c(2) padded_size_def)
  with that b c open_seal [OF assms(1,2) c(1)] parse_serialize_discovery [OF b] assms(3) show ?thesis
    by (simp add: send_packet_def)
qed

lemma send_packet_is_ok:
  "library_ok lib \<Longrightarrow> lan_ok l \<Longrightarrow> packet_ids_ok p \<Longrightarrow> is_ok (send_packet lib p addr l)"
proof (cases "transport l")
  case True
  assume "library_ok lib" "lan_ok l" "packet_ids_ok p"
  with True obtain e where "send_packet lib p addr l = Inr [SendTo e addr]"
    unfolding lan_ok_def by (metis send_packet_opens)
  then show ?thesis by simp
qed (simp add: send_packet_def)

lemma on_datagram_packet:
  assumes "Option.bind (open_envelope lib (lan_envelope l) e) parse_discovery = Some p"
    and "sender_id p \<noteq> local_id l"
  shows "on_datagram lib adv e addr l =
    (let l1 = (if sender_id p \<noteq> 0 then l\<lparr>peers := (peers l)(sender_id p \<mapsto> addr)\<rparr> else l)
     in (dispatch_packet lib adv p addr l1, l1))"
  using assms by (auto simp: on_datagram_def Option.bind_eq_Some_conv)

lemma dispatch_ok:
  assumes "library_ok lib" and "lan_ok l" and "packet_ids_ok p"
  shows "is_ok (dispatch_packet lib adv p addr l)"
proof (cases p)
  case (DiscoveryRequest s)
  have "in_range 8 (local_id l)" using assms(2) by (simp add: lan_ok_def)
  with DiscoveryRequest show ?thesis
    by (auto simp: dispatch_packet_def answer_request_def send_packet_is_ok [OF assms(1,2)] split: option.split)
next
  case (DiscoveryResponse s d)
  with assms(3) show ?thesis by (simp add: dispatch_packet_def p2p_in_range)
next
  case (DiscoveryMessage s r d)
  with assms(3) show ?thesis by (simp add: dispatch_packet_def handle_message_def p2p_in_range split: option.split)
qed

text \<open>Signaling from \<open>a\<close> to \<open>b\<close>, whatever its length.\<close>

lemma signal_arrives:
  assumes "library_ok lib" and "lan_ok a" and "lan_ok b" and "lan_envelope a = lan_envelope b"
    and "transport a" and "has_on_signal b" and "local_id a \<noteq> local_id b" and "local_id a \<noteq> 0"
    and "utf8_encode message = Inr data" and "data \<noteq> []"
  shows "\<exists>e to. send_signal lib (mk_p2p (local_id b)) message a = Inr [SendTo e to] \<and> length e \<le> 1216 \<and>
    on_datagram lib adv e addr b =
      (Inr (case utf8_decode (take MESSAGE_PAYLOAD_MAX data) of None \<Rightarrow> []
            | Some m \<Rightarrow> [LanSignal (mk_p2p (local_id a)) m]),
       b\<lparr>peers := (peers b)(local_id a \<mapsto> addr)\<rparr>)"
proof -
  note wf = assms(2,3) [unfolded lan_ok_def]
  define to where "to = (case peers a (local_id b) of Some addr \<Rightarrow> addr | None \<Rightarrow> broadcast_addr a)"
  let ?p = "DiscoveryMessage (local_id a) (local_id b) data"
  have ids: "packet_ids_ok ?p" using wf by simp
  obtain e where e: "send_packet lib ?p to a = Inr [SendTo e to]" "length e \<le> 1216"
    "Option.bind (open_envelope lib (lan_envelope a) e) parse_discovery = Some (truncate_packet ?p)"
    using send_packet_opens [OF assms(1) _ assms(5) ids, of to] wf by metis
  have "send_signal lib (mk_p2p (local_id b)) message a = Inr [SendTo e to]"
    using e(1) assms(9) by (simp add: send_signal_def mk_p2p_def to_def)
  moreover have "on_datagram lib adv e addr b =
      (Inr (case utf8_decode (take MESSAGE_PAYLOAD_MAX data) of None \<Rightarrow> []
            | Some m \<Rightarrow> [LanSignal (mk_p2p (local_id a)) m]),
       b\<lparr>peers := (peers b)(local_id a \<mapsto> addr)\<rparr>)"
    using on_datagram_packet [OF e(3) [unfolded assms(4)], of adv addr] assms(6-8,10) wf
    by (auto simp: dispatch_packet_def handle_message_def p2p_in_range MESSAGE_PAYLOAD_MAX_def split: option.split)
  ultimately show ?thesis using e(2) by blast
qed

text \<open>An endpoint for the witnesses.\<close>

definition example_lan :: "int \<Rightarrow> nat lan" where
  "example_lan lid =
     \<lparr>local_id = lid, lan_envelope = \<lparr>key = replicate 32 0\<rparr>, broadcast_addr = 0, has_on_signal = True,
      has_on_host_discovered = True, transport = True, peers = Map.empty,
      broadcast_task = False, bound_port = None\<rparr>"

lemmas example_lan_simps = example_lan_def xor_lib_ok lan_ok_def wf_envelope_def in_range_def

section \<open>Properties\<close>

text \<open>
  LAN signaling. A signaling string of 1 to 1140 UTF-8 bytes that one endpoint sends to
  another of the same application arrives as that string under the sender's identity, in one
  datagram of at most 1216 bytes; the receiver remembers where it came from.
\<close>

theorem lan_signal_delivery:
  assumes "library_ok lib" and "lan_ok a" and "lan_ok b" and "lan_envelope a = lan_envelope b"
    and "transport a" and "has_on_signal b" and "local_id a \<noteq> local_id b" and "local_id a \<noteq> 0"
    and "utf8_encode message = Inr data" and "data \<noteq> []" and "length data \<le> MESSAGE_PAYLOAD_MAX"
  shows "\<exists>e to. send_signal lib (mk_p2p (local_id b)) message a = Inr [SendTo e to] \<and> length e \<le> 1216 \<and>
    on_datagram lib adv e addr b =
      (Inr [LanSignal (mk_p2p (local_id a)) message], b\<lparr>peers := (peers b)(local_id a \<mapsto> addr)\<rparr>)"
proof -
  have cut: "take MESSAGE_PAYLOAD_MAX data = data" "utf8_decode data = Some message"
    using assms(9,11) by (simp_all add: utf8_decode_encode)
  obtain e to where "send_signal lib (mk_p2p (local_id b)) message a = Inr [SendTo e to] \<and> length e \<le> 1216 \<and>
    on_datagram lib adv e addr b =
      (Inr (case utf8_decode (take MESSAGE_PAYLOAD_MAX data) of None \<Rightarrow> []
            | Some m \<Rightarrow> [LanSignal (mk_p2p (local_id a)) m]),
       b\<lparr>peers := (peers b)(local_id a \<mapsto> addr)\<rparr>)"
    using signal_arrives [OF assms(1-10)] by blast
  with cut show ?thesis by auto
qed

theorem lan_signal_delivery_witness:
  "\<exists>e to. send_signal xor_lib (mk_p2p (local_id (example_lan 2))) [65] (example_lan 1) = Inr [SendTo e to] \<and>
    length e \<le> 1216 \<and>
    on_datagram xor_lib None e 7 (example_lan 2) =
      (Inr [LanSignal (mk_p2p (local_id (example_lan 1))) [65]],
       (example_lan 2)\<lparr>peers := (peers (example_lan 2))(local_id (example_lan 1) \<mapsto> 7)\<rparr>)"
  by (rule lan_signal_delivery [where data = "[65]"])
    (simp_all add: example_lan_simps MESSAGE_PAYLOAD_MAX_def utf8_encode_ascii is_ascii_def)

text \<open>
  A longer signaling string is cut without notice: the receiver sees its first 1140 bytes,
  as a string if they end at a character border, and nothing if they do not.
\<close>

theorem lan_signal_truncated:
  assumes "library_ok lib" and "lan_ok a" and "lan_ok b" and "lan_envelope a = lan_envelope b"
    and "transport a" and "has_on_signal b" and "local_id a \<noteq> local_id b" and "local_id a \<noteq> 0"
    and "utf8_encode message = Inr data" and "MESSAGE_PAYLOAD_MAX < length data"
  shows "\<exists>e to. send_signal lib (mk_p2p (local_id b)) message a = Inr [SendTo e to] \<and>
    fst (on_datagram lib adv e addr b) =
      Inr (case utf8_decode (take MESSAGE_PAYLOAD_MAX data) of None \<Rightarrow> []
           | Some m \<Rightarrow> [LanSignal (mk_p2p (local_id a)) m])"
proof -
  have "data \<noteq> []" using assms(10) by auto
  from signal_arrives [OF assms(1-9) this, of adv addr] obtain e to where
    "send_signal lib (mk_p2p (local_id b)) message a = Inr [SendTo e to] \<and> on_datagram lib adv e addr b =
      (Inr (case utf8_decode (take MESSAGE_PAYLOAD_MAX data) of None \<Rightarrow> []
            | Some m \<Rightarrow> [LanSignal (mk_p2p (local_id a)) m]),
       b\<lparr>peers := (peers b)(local_id a \<mapsto> addr)\<rparr>)"
    by blast
  then show ?thesis by (intro exI [of _ e] exI [of _ to]) simp
qed

theorem lan_signal_truncated_witness:
  "\<exists>e to. send_signal xor_lib (mk_p2p (local_id (example_lan 2))) (replicate 1141 65) (example_lan 1) =
      Inr [SendTo e to] \<and>
    fst (on_datagram xor_lib None e 7 (example_lan 2)) =
      Inr (case utf8_decode (take MESSAGE_PAYLOAD_MAX (replicate 1141 65)) of None \<Rightarrow> []
           | Some m \<Rightarrow> [LanSignal (mk_p2p (local_id (example_lan 1))) m])"
proof -
  have cut: "1140 < n \<Longrightarrow> \<exists>e to. send_signal xor_lib (mk_p2p (local_id (example_lan 2))) (replicate n 65) (example_lan 1) =
      Inr [SendTo e to] \<and>
    fst (on_datagram xor_lib None e 7 (example_lan 2)) =
      Inr (case utf8_decode (take MESSAGE_PAYLOAD_MAX (replicate n 65)) of None \<Rightarrow> []
           | Some m \<Rightarrow> [LanSignal (mk_p2p (local_id (example_lan 1))) m])" for n
    by (rule lan_signal_truncated)
      (simp_all add: example_lan_simps MESSAGE_PAYLOAD_MAX_def utf8_encode_ascii is_ascii_def list_all_iff)
  show ?thesis by (rule cut) simp
qed

text \<open>
  Discovery. A host that advertises answers a broadcast request, and the requester is
  told the host's identity, its advertisement (cut at 1148 bytes) and its address, and
  remembers the address.
\<close>

theorem lan_discovery:
  assumes "library_ok lib" and "lan_ok a" and "lan_ok b" and "lan_envelope a = lan_envelope b"
    and "transport a" and "transport b" and "has_on_host_discovered a" and "local_id a \<noteq> local_id b"
  shows "\<exists>request reply. broadcast_request lib a = Inr [SendTo request (broadcast_addr a)] \<and>
    fst (on_datagram lib (Some (Some advertisement)) request addr_a b) = Inr [SendTo reply addr_a] \<and>
    on_datagram lib adv reply addr_b a =
      (Inr [HostDiscovered (mk_p2p (local_id b)) (take RESPONSE_PAYLOAD_MAX advertisement) addr_b],
       if local_id b \<noteq> 0 then a\<lparr>peers := (peers a)(local_id b \<mapsto> addr_b)\<rparr> else a)"
proof -
  note wf = assms(2,3) [unfolded lan_ok_def]
  obtain e where e: "broadcast_request lib a = Inr [SendTo e (broadcast_addr a)]"
    "Option.bind (open_envelope lib (lan_envelope a) e) parse_discovery = Some (DiscoveryRequest (local_id a))"
    using send_packet_opens [OF assms(1) _ assms(5), of "DiscoveryRequest (local_id a)" "broadcast_addr a"] wf
    unfolding broadcast_request_def by (metis packet_ids_ok.simps(1) truncate_packet.simps(1))
  define b1 where "b1 = snd (on_datagram lib (Some (Some advertisement)) e addr_a b)"
  have b1: "fst (on_datagram lib (Some (Some advertisement)) e addr_a b) =
      send_packet lib (DiscoveryResponse (local_id b) advertisement) addr_a b1"
      "local_id b1 = local_id b" "lan_envelope b1 = lan_envelope b" "transport b1"
    using on_datagram_packet [of lib b e "DiscoveryRequest (local_id a)"] e(2) assms(4,6,8)
    by (auto simp: b1_def dispatch_packet_def answer_request_def Let_def)
  obtain r where r: "send_packet lib (DiscoveryResponse (local_id b) advertisement) addr_a b1 = Inr [SendTo r addr_a]"
    "Option.bind (open_envelope lib (lan_envelope b) r) parse_discovery =
      Some (DiscoveryResponse (local_id b) (take RESPONSE_PAYLOAD_MAX advertisement))"
    using send_packet_opens [OF assms(1) _ b1(4), of "DiscoveryResponse (local_id b) advertisement" addr_a] wf b1(3)
    by (metis packet_ids_ok.simps(2) truncate_packet.simps(2))
  have "on_datagram lib adv r addr_b a =
      (Inr [HostDiscovered (mk_p2p (local_id b)) (take RESPONSE_PAYLOAD_MAX advertisement) addr_b],
       if local_id b \<noteq> 0 then a\<lparr>peers := (peers a)(local_id b \<mapsto> addr_b)\<rparr> else a)"
    using on_datagram_packet [OF r(2) [folded assms(4)], of adv addr_b] assms(7,8) wf
    by (simp add: dispatch_packet_def p2p_in_range Let_def)
  with e(1) b1(1) r(1) show ?thesis by auto
qed

theorem lan_discovery_witness:
  "\<exists>request reply. broadcast_request xor_lib (example_lan 1) =
      Inr [SendTo request (broadcast_addr (example_lan 1))] \<and>
    fst (on_datagram xor_lib (Some (Some [9])) request 5 (example_lan 2)) = Inr [SendTo reply 5] \<and>
    on_datagram xor_lib None reply 7 (example_lan 1) =
      (Inr [HostDiscovered (mk_p2p (local_id (example_lan 2))) (take RESPONSE_PAYLOAD_MAX [9]) 7],
       if local_id (example_lan 2) \<noteq> 0
       then (example_lan 1)\<lparr>peers := (peers (example_lan 1))(local_id (example_lan 2) \<mapsto> 7)\<rparr> else example_lan 1)"
  by (rule lan_discovery) (simp_all add: example_lan_simps)

text \<open>
  C27: no datagram makes the endpoint raise, whatever bytes arrive; one that does not open,
  does not parse or carries the endpoint's own id has no effect; and any other changes the
  address of its sender only.
\<close>

theorem lan_datagram_safe:
  assumes "library_ok lib" and "lan_ok l"
  shows "is_ok (fst (on_datagram lib adv data addr l)) \<and>
    (case Option.bind (open_envelope lib (lan_envelope l) data) parse_discovery of
       None \<Rightarrow> on_datagram lib adv data addr l = (Inr [], l)
     | Some p \<Rightarrow>
         if sender_id p = local_id l then on_datagram lib adv data addr l = (Inr [], l)
         else snd (on_datagram lib adv data addr l) =
           (if sender_id p = 0 then l else l\<lparr>peers := (peers l)(sender_id p \<mapsto> addr)\<rparr>))"
proof (cases "Option.bind (open_envelope lib (lan_envelope l) data) parse_discovery")
  case None
  then show ?thesis by (auto simp: on_datagram_def Option.bind_eq_None_conv split: option.split)
next
  case (Some p)
  show ?thesis
  proof (cases "sender_id p = local_id l")
    case True
    with Some show ?thesis by (auto simp: on_datagram_def Option.bind_eq_Some_conv)
  next
    case False
    have "packet_ids_ok p" using Some by (auto simp: Option.bind_eq_Some_conv dest: parse_discovery_ids)
    then have "is_ok (dispatch_packet lib adv p addr l1)" if "lan_ok l1" for l1 :: "'a lan"
      using dispatch_ok [OF assms(1) that] by simp
    moreover have "lan_ok (l\<lparr>peers := ps\<rparr>)" for ps using assms(2) by (simp add: lan_ok_def)
    ultimately show ?thesis
      using on_datagram_packet [OF Some False, of adv addr] Some False assms(2) by (simp add: Let_def)
  qed
qed

theorem lan_datagram_safe_witness:
  "is_ok (fst (on_datagram xor_lib None [1, 2, 3] 7 (example_lan 1)))"
  by (rule lan_datagram_safe [THEN conjunct1]) (simp_all add: example_lan_simps)

end
