(* ===== verification/Exceptions.thy ===== *)
theory Exceptions
  imports Negotiation
begin

text \<open>
  The public exceptions of \<open>errors.py\<close>. Their constructors put the error's name into the
  message text; an error code the enumeration does not know is a bare \<open>int\<close>, which has no
  \<open>name\<close>. The constructors run when a connection fails or is closed (\<open>api.py\<close>).
\<close>

fun error_name :: "session_error \<Rightarrow> string" where
  "error_name E_NONE = ''NONE''"
| "error_name E_DESTINATION_NOT_LOGGED_IN = ''DESTINATION_NOT_LOGGED_IN''"
| "error_name E_NEGOTIATION_TIMEOUT = ''NEGOTIATION_TIMEOUT''"
| "error_name E_WRONG_TRANSPORT_VERSION = ''WRONG_TRANSPORT_VERSION''"
| "error_name E_FAILED_TO_CREATE_PEER_CONNECTION = ''FAILED_TO_CREATE_PEER_CONNECTION''"
| "error_name E_ICE = ''ICE''"
| "error_name E_CONNECT_REQUEST = ''CONNECT_REQUEST''"
| "error_name E_CONNECT_RESPONSE = ''CONNECT_RESPONSE''"
| "error_name E_CANDIDATE_ADD = ''CANDIDATE_ADD''"
| "error_name E_INACTIVITY_TIMEOUT = ''INACTIVITY_TIMEOUT''"
| "error_name E_FAILED_TO_CREATE_OFFER = ''FAILED_TO_CREATE_OFFER''"
| "error_name E_FAILED_TO_CREATE_ANSWER = ''FAILED_TO_CREATE_ANSWER''"
| "error_name E_FAILED_TO_SET_LOCAL_DESCRIPTION = ''FAILED_TO_SET_LOCAL_DESCRIPTION''"
| "error_name E_FAILED_TO_SET_REMOTE_DESCRIPTION = ''FAILED_TO_SET_REMOTE_DESCRIPTION''"
| "error_name E_NEGOTIATION_TIMEOUT_WAITING_FOR_RESPONSE = ''NEGOTIATION_TIMEOUT_WAITING_FOR_RESPONSE''"
| "error_name E_NEGOTIATION_TIMEOUT_WAITING_FOR_ACCEPT = ''NEGOTIATION_TIMEOUT_WAITING_FOR_ACCEPT''"
| "error_name E_INCOMING_CONNECTION_IGNORED = ''INCOMING_CONNECTION_IGNORED''"
| "error_name E_SIGNALING_PARSING_FAILURE = ''SIGNALING_PARSING_FAILURE''"
| "error_name E_SIGNALING_UNKNOWN_ERROR = ''SIGNALING_UNKNOWN_ERROR''"
| "error_name E_SIGNALING_UNICAST_MESSAGE_DELIVERY_FAILED = ''SIGNALING_UNICAST_MESSAGE_DELIVERY_FAILED''"
| "error_name E_SIGNALING_BROADCAST_DELIVERY_FAILED = ''SIGNALING_BROADCAST_DELIVERY_FAILED''"
| "error_name E_SIGNALING_MESSAGE_DELIVERY_FAILED = ''SIGNALING_MESSAGE_DELIVERY_FAILED''"
| "error_name E_SIGNALING_TURN_AUTH_FAILED = ''SIGNALING_TURN_AUTH_FAILED''"
| "error_name E_SIGNALING_FALLBACK_TO_BEST_EFFORT_DELIVERY = ''SIGNALING_FALLBACK_TO_BEST_EFFORT_DELIVERY''"
| "error_name E_NO_SIGNALING_CHANNEL = ''NO_SIGNALING_CHANNEL''"
| "error_name E_NOT_LOGGED_IN = ''NOT_LOGGED_IN''"
| "error_name E_SIGNALING_FAILED_TO_SEND = ''SIGNALING_FAILED_TO_SEND''"
| "error_name E_RELAY_SERVER_CONFIGURATION_RESULT_FAILURE = ''RELAY_SERVER_CONFIGURATION_RESULT_FAILURE''"
| "error_name E_RELAY_SERVER_CONFIG_PARSING_ERROR_NO_URLS = ''RELAY_SERVER_CONFIG_PARSING_ERROR_NO_URLS''"
| "error_name E_RELAY_SERVER_CONFIG_PARSING_ERROR_NO_CREDS = ''RELAY_SERVER_CONFIG_PARSING_ERROR_NO_CREDS''"
| "error_name E_RELAY_SERVER_CONFIG_PARSING_ERROR_NO_SERVERS = ''RELAY_SERVER_CONFIG_PARSING_ERROR_NO_SERVERS''"
| "error_name E_RELAY_SERVER_CONFIG_PARSING_ERROR_NO_EXPIRATION = ''RELAY_SERVER_CONFIG_PARSING_ERROR_NO_EXPIRATION''"
| "error_name E_DATA_CHANNEL_CLOSED = ''DATA_CHANNEL_CLOSED''"
| "error_name E_INTERNAL_ERROR_JSON_SERIALIZATION = ''INTERNAL_ERROR_JSON_SERIALIZATION''"
| "error_name E_INVALID_ARGUMENT = ''INVALID_ARGUMENT''"
| "error_name E_GENERIC_FAILURE = ''GENERIC_FAILURE''"
| "error_name E_FAILED_TO_CREATE_IDENTITY_ASSERTION = ''FAILED_TO_CREATE_IDENTITY_ASSERTION''"
| "error_name E_IDENTITY_NOT_ALLOWED = ''IDENTITY_NOT_ALLOWED''"

text \<open>\<open>error.name\<close>: an attribute of members only.\<close>

definition name_of :: "wire_error \<Rightarrow> pystr result" where
  "name_of err = (case err of Known e \<Rightarrow> Inr (lit (error_name e)) | Unknown _ \<Rightarrow> Inl AttributeError)"

definition exception_text :: "string \<Rightarrow> wire_error \<Rightarrow> pystr result" where
  "exception_text what err =
     rbind (name_of err) (\<lambda>n. Inr (lit what @ n @ lit '' ('' @ str_of_int (wire_error_int err) @ lit '')''))"

definition connection_failed :: "wire_error \<Rightarrow> pystr result" where
  "connection_failed err = exception_text ''connection failed: '' err"

definition connection_closed :: "wire_error \<Rightarrow> pystr result" where
  "connection_closed err = exception_text ''connection closed: '' err"

lemma exception_raises:
  "exception_text what err = Inl x \<longleftrightarrow> x = AttributeError \<and> (\<exists>n. err = Unknown n)"
  by (cases err) (auto simp: exception_text_def name_of_def)

lemma error_name_inject: "error_name d = error_name e \<longleftrightarrow> d = e"
proof
  have "distinct (map error_name all_session_errors)" by (simp add: all_session_errors_def)
  then show "error_name d = error_name e \<Longrightarrow> d = e"
    using all_session_errors_complete by (auto simp: distinct_map dest: inj_onD)
qed simp

section \<open>Properties\<close>

text \<open>
  A CONNECTERROR with a code outside the enumeration is accepted, and closes a dialer's
  session with that bare number; the exception that is to report the failure then cannot be
  built: its constructor raises \<open>AttributeError\<close>.
\<close>

theorem unknown_error_breaks_report:
  assumes "u64 c" and "normal_error (Unknown n)" and "state s \<noteq> CLOSED" and "is_dialer s" and "has_on_close s"
  shows "closes (log (receive_signal udec from_sdp s (serialize_signaling (ConnectError c (Unknown n))))) =
      closes (log s) @ [Unknown n] \<and>
    connection_failed (Unknown n) = Inl AttributeError \<and> connection_closed (Unknown n) = Inl AttributeError"
proof -
  have "wire_message (ConnectError c (Unknown n))" using assms(1,2) by (simp add: wire_message_def u64_def)
  from receive_own [OF this, of udec from_sdp s] have
    "receive_signal udec from_sdp s (serialize_signaling (ConnectError c (Unknown n))) =
      new_task (None, close (Unknown n) False s)"
    using assms(3,4) by (simp add: handle_signal_def handle_connect_error_def)
  then show ?thesis
    using assms(3,5) by (simp add: new_task_def close_notices connection_failed_def connection_closed_def exception_raises)
qed

theorem unknown_error_breaks_report_witness:
  "closes (log (receive_signal (\<lambda>_. None) (\<lambda>_. None :: nat option) (new_session 1 True True True True False)
     (serialize_signaling (ConnectError 1 (Unknown 99))))) = [Unknown 99]"
proof -
  let ?s = "new_session 1 True True True True False :: nat session"
  have "normal_error (Unknown 99)" by code_simp
  moreover have "u64 1" "state ?s \<noteq> CLOSED" "is_dialer ?s" "has_on_close ?s" "closes (log ?s) = []"
    by (simp_all add: new_session_def u64_def U64_MAX_def)
  ultimately show ?thesis using unknown_error_breaks_report [of 1 99 ?s "\<lambda>_. None" "\<lambda>_. None"] by simp
qed

end
