(* ===== verification/StunIntegrity.thy ===== *)
theory StunIntegrity
  imports Prelude
begin

text \<open>
  \<open>transport/stun_integrity.py\<close>: the patch of aioice's \<open>StunProtocol\<close> that drops responses
  without a valid MESSAGE-INTEGRITY. aioice's parser is the parameter \<open>stun_lib\<close>; the original
  \<open>datagram_received\<close> is the list of datagrams handed to it. \<open>keys\<close> is the dictionary
  \<open>integrity_keys\<close> of one protocol object.
\<close>

section \<open>State and parameters\<close>

datatype stun_class = REQUEST | INDICATION | RESPONSE | ERROR

record stun_message =
  message_class :: stun_class
  has_integrity :: bool                       \<comment> \<open>\<open>"MESSAGE-INTEGRITY" in message.attributes\<close>\<close>

text \<open>\<open>None\<close> and \<open>False\<close> stand for the \<open>ValueError\<close> of \<open>parse_message\<close> without and with a key.\<close>

record stun_lib =
  parse_message :: "bytes \<Rightarrow> stun_message option"
  parse_with_key :: "bytes \<Rightarrow> bytes \<Rightarrow> bool"

record stun_protocol =
  keys :: "bytes \<Rightarrow> bytes option"
  forwarded :: "bytes list"

definition is_authentic :: "stun_lib \<Rightarrow> bytes \<Rightarrow> bytes \<Rightarrow> bool" where
  "is_authentic lib data key =
     (case parse_message lib data of
        None \<Rightarrow> True
      | Some message \<Rightarrow>
          if message_class message \<notin> {RESPONSE, ERROR} then True
          else if \<not> has_integrity message then False
          else parse_with_key lib data key)"

definition stun_datagram_received :: "stun_lib \<Rightarrow> bytes \<Rightarrow> stun_protocol \<Rightarrow> stun_protocol" where
  "stun_datagram_received lib data p =
     (case keys p (slice 8 20 data) of
        None \<Rightarrow> p\<lparr>forwarded := forwarded p @ [data]\<rparr>
      | Some key \<Rightarrow> if \<not> is_authentic lib data key then p else p\<lparr>forwarded := forwarded p @ [data]\<rparr>)"

text \<open>\<open>_request\<close> before the await of the original, and its \<open>finally\<close>.\<close>

definition request_begin :: "bytes \<Rightarrow> bytes option \<Rightarrow> stun_protocol \<Rightarrow> stun_protocol" where
  "request_begin transaction_id integrity_key p =
     (case integrity_key of
        None \<Rightarrow> p | Some key \<Rightarrow> p\<lparr>keys := (keys p)(transaction_id \<mapsto> key)\<rparr>)"

definition request_finally :: "bytes \<Rightarrow> stun_protocol \<Rightarrow> stun_protocol" where
  "request_finally transaction_id p = p\<lparr>keys := (keys p)(transaction_id := None)\<rparr>"

datatype stun_event =
    StunRequest bytes "bytes option"
  | StunRequestDone bytes                     \<comment> \<open>returned, raised or cancelled\<close>
  | StunDatagram bytes

fun stun_step :: "stun_lib \<Rightarrow> stun_protocol \<Rightarrow> stun_event \<Rightarrow> stun_protocol" where
  "stun_step lib p (StunRequest t k) = request_begin t k p"
| "stun_step lib p (StunRequestDone t) = request_finally t p"
| "stun_step lib p (StunDatagram d) = stun_datagram_received lib d p"

definition new_protocol :: stun_protocol where
  "new_protocol = \<lparr>keys = Map.empty, forwarded = []\<rparr>"

section \<open>The patch of the class\<close>

datatype implementation = Original | Patched

record stun_class_object =
  request_impl :: implementation
  datagram_impl :: implementation

definition install :: "stun_class_object \<Rightarrow> stun_class_object" where
  "install c = (if request_impl c \<noteq> Patched then c\<lparr>request_impl := Patched, datagram_impl := Patched\<rparr> else c)"

section \<open>What is outstanding\<close>

text \<open>
  The specification: the key of a transaction is that of its last request with a key, unless
  a request of the transaction has ended since.
\<close>

fun outstanding :: "bytes \<Rightarrow> stun_event list \<Rightarrow> bytes option" where
  "outstanding t [] = None"
| "outstanding t (e # before) =
     (case e of
        StunRequest u (Some key) \<Rightarrow> if u = t then Some key else outstanding t before
      | StunRequestDone u \<Rightarrow> if u = t then None else outstanding t before
      | _ \<Rightarrow> outstanding t before)"

text \<open>The datagrams a run may forward.\<close>

fun admissible :: "stun_lib \<Rightarrow> stun_event list \<Rightarrow> bytes list" where
  "admissible lib [] = []"
| "admissible lib (e # before) =
     (case e of
        StunDatagram d \<Rightarrow>
          admissible lib before @
          (case outstanding (slice 8 20 d) before of
             None \<Rightarrow> [d] | Some key \<Rightarrow> if is_authentic lib d key then [d] else [])
      | _ \<Rightarrow> admissible lib before)"

lemma run_keys: "keys (foldl (stun_step lib) new_protocol es) t = outstanding t (rev es)"
  by (induction es rule: rev_induct)
    (auto simp: new_protocol_def request_begin_def request_finally_def stun_datagram_received_def
      split: stun_event.splits option.splits)

lemma run_forwarded: "forwarded (foldl (stun_step lib) new_protocol es) = admissible lib (rev es)"
proof (induction es rule: rev_induct)
  case Nil
  then show ?case by (simp add: new_protocol_def)
next
  case (snoc e es)
  have k: "keys (foldl (stun_step lib) new_protocol es) t = outstanding t (rev es)" for t by (rule run_keys)
  show ?case
    by (cases e) (auto simp: snoc.IH k request_begin_def request_finally_def stun_datagram_received_def
        split: option.splits)
qed

section \<open>Properties\<close>

text \<open>
  C39: over all interleavings of requests, their ends and datagrams, the original handler gets,
  in order, exactly the datagrams of transactions without an outstanding keyed request and
  those that the key of the outstanding request authenticates.
\<close>

theorem stun_forwards_authentic:
  "forwarded (foldl (stun_step lib) new_protocol es) = admissible lib (rev es)"
  by (rule run_forwarded)

text \<open>
  While a keyed request is outstanding, a response or error response of its transaction
  that carries no MESSAGE-INTEGRITY, or one that does not verify, never reaches aioice.
\<close>

theorem stun_forged_response_dropped:
  assumes "outstanding (slice 8 20 d) (rev es) = Some key"
    and "parse_message lib d = Some message" and "message_class message \<in> {RESPONSE, ERROR}"
    and "\<not> has_integrity message \<or> \<not> parse_with_key lib d key"
  shows "foldl (stun_step lib) new_protocol (es @ [StunDatagram d]) = foldl (stun_step lib) new_protocol es"
  using assms run_keys [of lib es "slice 8 20 d"] by (auto simp: stun_datagram_received_def is_authentic_def)

theorem stun_forged_response_dropped_witness:
  "let lib = \<lparr>parse_message = \<lambda>_. Some \<lparr>message_class = RESPONSE, has_integrity = False\<rparr>, parse_with_key = \<lambda>_ _. True\<rparr>
   in foldl (stun_step lib) new_protocol ([StunRequest (replicate 12 0) (Some [1])] @ [StunDatagram (replicate 20 0)]) =
      foldl (stun_step lib) new_protocol [StunRequest (replicate 12 0) (Some [1])]"
  unfolding Let_def
  by (rule stun_forged_response_dropped [where key = "[1]" and message = "\<lparr>message_class = RESPONSE, has_integrity = False\<rparr>"])
    (simp_all add: slice_def)

end
