(* ===== verification/Connection.thy ===== *)
theory Connection
  imports Exceptions
begin

text \<open>
  The class \<open>Connection\<close> of \<open>api.py\<close>: the receive queue of a session, the future that
  \<open>connect\<close> waits for and the close notice. A call that would block returns \<open>Waits\<close>; the event
  loop makes it again when something has changed.
\<close>

section \<open>State\<close>

text \<open>The items of the queue: packets, and the sentinel \<open>_CLOSED\<close>.\<close>

datatype recv_item = Packet bytes | ClosedMark

datatype future = Pending | Resolved | Failed wire_error | Cancelled

record connection =
  conn_session :: nat
  owns_endpoint :: bool
  recv_queue :: "recv_item list"
  connected :: future
  conn_closed :: bool
  closed_error :: "wire_error option"

definition new_connection :: "nat \<Rightarrow> bool \<Rightarrow> connection" where
  "new_connection i owns =
     \<lparr>conn_session = i, owns_endpoint = owns, recv_queue = [], connected = Pending,
      conn_closed = False, closed_error = None\<rparr>"

text \<open>What a coroutine of the connection has done when it is resumed.\<close>

datatype outcome = Waits | Returned bytes | Finished | ClosedExn wire_error | FailedExn wire_error | StopIteration
  | CancelledError | Raises py_exn

section \<open>Notices of the endpoint\<close>

definition mark_connected :: "connection \<Rightarrow> connection" where
  "mark_connected c = (if connected c = Pending then c\<lparr>connected := Resolved\<rparr> else c)"

text \<open>
  \<open>_mark_closed\<close> builds a \<open>ConnectionFailed\<close> if nobody has been told the outcome of the connect;
  its constructor may raise, and then the rest does not happen.
\<close>

definition finish_close :: "connection \<Rightarrow> connection" where
  "finish_close c = c\<lparr>recv_queue := recv_queue c @ [ClosedMark], conn_closed := True\<rparr>"

definition mark_closed :: "wire_error \<Rightarrow> connection \<Rightarrow> py_exn option \<times> connection" where
  "mark_closed err c =
     (let c1 = c\<lparr>closed_error := Some err\<rparr> in
      if connected c1 = Pending
      then (case connection_failed err of
              Inl x \<Rightarrow> (Some x, c1)
            | Inr _ \<Rightarrow> (None, finish_close (c1\<lparr>connected := Failed err\<rparr>)))
      else (None, finish_close c1))"

definition enqueue :: "bytes \<Rightarrow> connection \<Rightarrow> connection" where
  "enqueue data c = c\<lparr>recv_queue := recv_queue c @ [Packet data]\<rparr>"

section \<open>Calls of the application\<close>

text \<open>\<open>self._closed_error or SessionError.NONE\<close>: no error and the error 0 are falsy.\<close>

definition closed_reason :: "connection \<Rightarrow> wire_error" where
  "closed_reason c =
     (case closed_error c of None \<Rightarrow> Known E_NONE
      | Some err \<Rightarrow> if wire_error_int err = 0 then Known E_NONE else err)"

definition raise_closed :: "connection \<Rightarrow> outcome" where
  "raise_closed c =
     (case connection_closed (closed_reason c) of Inl x \<Rightarrow> Raises x | Inr _ \<Rightarrow> ClosedExn (closed_reason c))"

definition recv :: "connection \<Rightarrow> outcome \<times> connection" where
  "recv c =
     (case recv_queue c of
        [] \<Rightarrow> (Waits, c)
      | Packet data # q \<Rightarrow> (Returned data, c\<lparr>recv_queue := q\<rparr>)
      | ClosedMark # q \<Rightarrow> (let c1 = c\<lparr>recv_queue := q @ [ClosedMark]\<rparr> in (raise_closed c1, c1)))"

definition anext :: "connection \<Rightarrow> outcome \<times> connection" where
  "anext c =
     (case recv c of
        (ClosedExn err, c1) \<Rightarrow> (if wire_error_int err = error_code E_NONE then StopIteration else ClosedExn err, c1)
      | r \<Rightarrow> r)"

definition conn_send :: "bytes \<Rightarrow> send_type \<Rightarrow> connection \<Rightarrow> 'c session \<Rightarrow> outcome \<times> 'c session" where
  "conn_send data t c s =
     (if state s \<noteq> CONNECTED then (raise_closed c, s)
      else case session_send data t s of Inl x \<Rightarrow> (Raises x, s) | Inr (ok, s1) \<Rightarrow> (Finished, s1))"

definition wait_closed :: "connection \<Rightarrow> wire_error option" where
  "wait_closed c = (if conn_closed c then Some (closed_reason c) else None)"

text \<open>
  \<open>_await_connected\<close>: a look at the future, and the timeout of \<open>wait_for\<close>, which cancels the
  future and reports a negotiation timeout.
\<close>

definition await_connected :: "connection \<Rightarrow> outcome" where
  "await_connected c =
     (case connected c of Pending \<Rightarrow> Waits | Resolved \<Rightarrow> Finished | Failed err \<Rightarrow> FailedExn err
      | Cancelled \<Rightarrow> CancelledError)"

definition await_timeout :: "connection \<Rightarrow> outcome \<times> connection" where
  "await_timeout c =
     (if connected c = Pending
      then (FailedExn (Known E_NEGOTIATION_TIMEOUT_WAITING_FOR_RESPONSE), c\<lparr>connected := Cancelled\<rparr>)
      else (await_connected c, c))"

text \<open>\<open>async for\<close> over a connection: the packets, and how the loop ends.\<close>

partial_function (option) async_for :: "connection \<Rightarrow> (bytes list \<times> outcome \<times> connection) option" where
  "async_for c =
     (case anext c of
        (Returned data, c1) \<Rightarrow>
          Option.bind (async_for c1) (\<lambda>(rest, ending). Some (data # rest, ending))
      | (Waits, c1) \<Rightarrow> None
      | (ending, c1) \<Rightarrow> Some ([], ending, c1))"

section \<open>Lemmas\<close>

definition open_queue :: "connection \<Rightarrow> bool" where
  "open_queue c \<longleftrightarrow> ClosedMark \<notin> set (recv_queue c)"

fun packet_of :: "recv_item \<Rightarrow> bytes option" where
  "packet_of (Packet data) = Some data"
| "packet_of ClosedMark = None"

definition queued :: "connection \<Rightarrow> bytes list" where
  "queued c = List.map_filter packet_of (recv_queue c)"

lemma queued_map [simp]: "List.map_filter packet_of (map Packet ps) = ps"
  by (induction ps) (simp_all add: map_filter_simps)

lemma packets_queue: "ClosedMark \<notin> set q \<Longrightarrow> q = map Packet (List.map_filter packet_of q)"
proof (induction q)
  case (Cons x q)
  then show ?case by (cases x) (simp_all add: map_filter_simps)
qed (simp add: map_filter_simps)

lemma split_at_mark:
  "ClosedMark \<in> set q \<Longrightarrow> \<exists>ps rest. q = map Packet ps @ ClosedMark # rest"
  using split_list_first [of ClosedMark q] packets_queue by metis

lemma map_filter_append: "List.map_filter f (xs @ ys) = List.map_filter f xs @ List.map_filter f ys"
  by (simp add: map_filter_def)

lemma queued_simps [simp]:
  "queued (c\<lparr>recv_queue := q\<rparr>) = List.map_filter packet_of q"
  "queued (c\<lparr>connected := f\<rparr>) = queued c" "queued (c\<lparr>closed_error := e\<rparr>) = queued c"
  "queued (c\<lparr>conn_closed := b\<rparr>) = queued c"
  "queued (enqueue data c) = queued c @ [data]" "queued (mark_connected c) = queued c"
  "queued (finish_close c) = queued c" "queued (snd (mark_closed err c)) = queued c"
  "queued (new_connection i owns) = []"
  by (simp_all add: queued_def enqueue_def mark_connected_def finish_close_def mark_closed_def
      new_connection_def map_filter_append map_filter_simps Let_def split: sum.split)

lemma open_queue_simps [simp]:
  "open_queue (enqueue data c) = open_queue c" "open_queue (mark_connected c) = open_queue c"
  "open_queue (new_connection i owns)" "\<not> open_queue (finish_close c)"
  by (simp_all add: open_queue_def enqueue_def mark_connected_def new_connection_def finish_close_def)

text \<open>Before the close: \<open>recv\<close> takes the head, or waits.\<close>

lemma recv_open:
  assumes "open_queue c"
  shows "recv c = (case queued c of [] \<Rightarrow> (Waits, c) | data # ps \<Rightarrow> (Returned data, c\<lparr>recv_queue := map Packet ps\<rparr>))"
    and "open_queue (snd (recv c))"
proof -
  have q: "recv_queue c = map Packet (queued c)"
    using assms packets_queue by (simp add: open_queue_def queued_def)
  then show "recv c = (case queued c of [] \<Rightarrow> (Waits, c)
      | data # ps \<Rightarrow> (Returned data, c\<lparr>recv_queue := map Packet ps\<rparr>))"
    by (simp add: recv_def split: list.split)
  then show "open_queue (snd (recv c))" using assms by (auto simp: open_queue_def split: list.split)
qed

text \<open>After it: the packets that are left, then the close, again and again.\<close>

definition recv_step :: "connection \<Rightarrow> unit \<Rightarrow> outcome list \<times> connection" where
  "recv_step c u = (let (r, c1) = recv c in ([r], c1))"

lemma closed_reason_queue [simp]: "closed_reason (c\<lparr>recv_queue := q\<rparr>) = closed_reason c"
  by (simp add: closed_reason_def)

lemma raise_closed_queue [simp]: "raise_closed (c\<lparr>recv_queue := q\<rparr>) = raise_closed c"
  by (simp only: raise_closed_def closed_reason_queue)

lemma recv_closed:
  "recv_queue c = map Packet ps @ [ClosedMark] \<Longrightarrow>
   run_out recv_step c us =
     (map Returned (take (length us) ps) @ replicate (length us - length ps) (raise_closed c),
      c\<lparr>recv_queue := map Packet (drop (length us) ps) @ [ClosedMark]\<rparr>)"
proof (induction us arbitrary: c ps)
  case Nil
  then show ?case by simp
next
  case (Cons u us)
  show ?case
  proof (cases ps)
    case Nil
    then have "recv_step c u = ([raise_closed c], c\<lparr>recv_queue := [ClosedMark]\<rparr>)"
      using Cons.prems by (simp add: recv_step_def recv_def)
    moreover have "run_out recv_step (c\<lparr>recv_queue := [ClosedMark]\<rparr>) us =
        (replicate (length us) (raise_closed c), c\<lparr>recv_queue := [ClosedMark]\<rparr>)"
      using Cons.IH [of "c\<lparr>recv_queue := [ClosedMark]\<rparr>" "[]"] by simp
    ultimately show ?thesis using Nil by simp
  next
    case (Cons b ps')
    then have "recv_step c u = ([Returned b], c\<lparr>recv_queue := map Packet ps' @ [ClosedMark]\<rparr>)"
      using Cons.prems by (simp add: recv_step_def recv_def)
    then show ?thesis
      using Cons Cons.IH [of "c\<lparr>recv_queue := map Packet ps' @ [ClosedMark]\<rparr>" ps'] by simp
  qed
qed

lemma mark_closed_known:
  "mark_closed (Known e) c = (None, finish_close (c\<lparr>closed_error := Some (Known e),
     connected := (if connected c = Pending then Failed (Known e) else connected c)\<rparr>))"
  by (cases "connection_failed (Known e)")
    (auto simp: mark_closed_def connection_failed_def exception_raises Let_def)

lemma closed_reason_known [simp]: "closed_error c = Some (Known e) \<Longrightarrow> closed_reason c = Known e"
  using error_code_inject [of e E_NONE] by (simp add: closed_reason_def del: error_code_inject)

lemma raise_closed_known: "closed_error c = Some (Known e) \<Longrightarrow> raise_closed c = ClosedExn (Known e)"
  by (cases "connection_closed (Known e)") (auto simp: raise_closed_def connection_closed_def exception_raises)

lemma async_for_open: "open_queue c \<Longrightarrow> async_for c = None"
proof (induction "queued c" arbitrary: c)
  case Nil
  then show ?case by (simp add: async_for.simps [of c] anext_def recv_open)
next
  case (Cons b ps)
  have "async_for (c\<lparr>recv_queue := map Packet ps\<rparr>) = None"
    by (rule Cons.hyps(1)) (auto simp: open_queue_def)
  then show ?case using Cons.prems Cons.hyps(2) [symmetric]
    by (simp add: async_for.simps [of c] anext_def recv_open)
qed

lemma raise_closed_cases: "raise_closed c = ClosedExn (closed_reason c) \<or> (\<exists>x. raise_closed c = Raises x)"
  by (simp add: raise_closed_def split: sum.split)

lemma anext_packet: "recv_queue c = Packet b # q \<Longrightarrow> anext c = (Returned b, c\<lparr>recv_queue := q\<rparr>)"
  by (simp add: anext_def recv_def)

definition loop_end :: "connection \<Rightarrow> outcome" where
  "loop_end c =
     (case raise_closed c of
        ClosedExn err \<Rightarrow> if wire_error_int err = 0 then StopIteration else ClosedExn err
      | r \<Rightarrow> r)"

lemma loop_end_queue [simp]: "loop_end (c\<lparr>recv_queue := q\<rparr>) = loop_end c"
  by (simp add: loop_end_def)

lemma anext_mark:
  "recv_queue c = ClosedMark # q \<Longrightarrow> anext c = (loop_end c, c\<lparr>recv_queue := q @ [ClosedMark]\<rparr>)"
  using raise_closed_cases [of c] by (auto simp: anext_def recv_def loop_end_def Let_def)

lemma loop_end_simps: "loop_end c \<noteq> Waits" "loop_end c \<noteq> Returned b"
  using raise_closed_cases [of c] by (auto simp: loop_end_def split: if_splits)

lemma async_for_closed:
  "recv_queue c = map Packet ps @ ClosedMark # rest \<Longrightarrow>
   async_for c = Some (ps, loop_end c, c\<lparr>recv_queue := rest @ [ClosedMark]\<rparr>)"
proof (induction ps arbitrary: c)
  case Nil
  then show ?case using loop_end_simps [of c]
    by (simp add: async_for.simps [of c] anext_mark split: outcome.split)
next
  case (Cons b ps)
  then show ?case by (simp add: async_for.simps [of c] anext_packet)
qed

section \<open>Properties\<close>

text \<open>
  C18: \<open>async for\<close> over a connection ends exactly when the connection has been marked closed,
  after all the packets that were queued before; it ends quietly if the close had no error, and
  with the exception of \<open>recv\<close> otherwise.
\<close>

theorem async_for_ends:
  "((\<exists>r. async_for c = Some r) = (ClosedMark \<in> set (recv_queue c))) \<and>
   (recv_queue c = map Packet ps @ ClosedMark # rest \<longrightarrow>
    async_for c = Some (ps,
      (if raise_closed c = ClosedExn (Known E_NONE) then StopIteration else raise_closed c),
      c\<lparr>recv_queue := rest @ [ClosedMark]\<rparr>))"
proof
  show "(\<exists>r. async_for c = Some r) = (ClosedMark \<in> set (recv_queue c))"
  proof (cases "open_queue c")
    case True
    then show ?thesis by (simp add: async_for_open, simp add: open_queue_def)
  next
    case False
    then have m: "ClosedMark \<in> set (recv_queue c)" by (simp add: open_queue_def)
    then obtain ps rest where "recv_queue c = map Packet ps @ ClosedMark # rest"
      using split_at_mark by blast
    with m show ?thesis by (simp add: async_for_closed)
  qed
  have "loop_end c = (if raise_closed c = ClosedExn (Known E_NONE) then StopIteration else raise_closed c)"
    using raise_closed_cases [of c]
    by (auto simp: loop_end_def closed_reason_def split: option.splits if_splits)
  then show "recv_queue c = map Packet ps @ ClosedMark # rest \<longrightarrow>
    async_for c = Some (ps,
      (if raise_closed c = ClosedExn (Known E_NONE) then StopIteration else raise_closed c),
      c\<lparr>recv_queue := rest @ [ClosedMark]\<rparr>)"
    using async_for_closed [of c ps rest] by simp
qed

theorem async_for_ends_witness:
  "async_for (snd (mark_closed (Known E_NONE) (enqueue [1] (new_connection 0 True)))) =
     Some ([[1]], StopIteration, snd (mark_closed (Known E_NONE) (new_connection 0 True)))"
proof -
  let ?c = "snd (mark_closed (Known E_NONE) (enqueue [1] (new_connection 0 True)))"
  have q: "recv_queue ?c = map Packet [[1]] @ ClosedMark # []" "closed_error ?c = Some (Known E_NONE)"
    by (simp_all add: mark_closed_known finish_close_def enqueue_def new_connection_def)
  from async_for_ends [of ?c "[[1]]" "[]"] q(1) raise_closed_known [OF q(2)] show ?thesis
    by (simp add: mark_closed_known finish_close_def enqueue_def new_connection_def)
qed

end
