(* ===== verification/Transport.thy ===== *)
theory Transport
  imports SessionManager Lan
begin

text \<open>
  \<open>transport_api.py\<close>: \<open>Transport\<close> joins the LAN endpoint and the session manager of one peer.
  A signal that arrives starts a task; the event loop runs tasks in the order in which they were
  created, so \<open>signal_tasks\<close> is a queue. What the transport does to the outside is the list of
  effects that a step returns.
\<close>

section \<open>State\<close>

record ('a, 'c) transport =
  t_local_id :: network_id
  t_advertisement :: "bytes option"
  t_on_host_discovered :: bool
  t_discovered :: "(network_id \<times> bytes) list"
  signal_tasks :: "(network_id \<times> pystr) list"
  t_manager :: "'c manager"
  t_lan :: "'a lan"

datatype 'a transport_effect =
    Wire bytes 'a                     \<comment> \<open>a datagram for the socket\<close>
  | SignalRaises py_exn               \<comment> \<open>a raise of \<open>send_signal\<close>, in the coroutine of the session\<close>
  | Notice mgr_effect                 \<comment> \<open>\<open>on_session\<close>, \<open>on_session_close\<close>, \<open>on_packet\<close>, end of \<open>connect\<close>\<close>
  | HostNotice network_id bytes 'a    \<comment> \<open>\<open>on_host_discovered\<close>\<close>

definition new_transport ::
    "network_id \<Rightarrow> int \<Rightarrow> 'a \<Rightarrow> bytes option \<Rightarrow> bool \<Rightarrow> bool \<Rightarrow> bool \<Rightarrow> bool \<Rightarrow> bool \<Rightarrow> ('a, 'c) transport result" where
  "new_transport lid application_id broadcast ad on_op on_cl on_pkt on_host relay =
     (if nid_type lid \<noteq> P2P then Inl ValueError
      else rbind (new_lan (nid_value lid) application_id broadcast True True) (\<lambda>l.
        Inr \<lparr>t_local_id = lid, t_advertisement = ad, t_on_host_discovered = on_host, t_discovered = [],
             signal_tasks = [], t_manager = new_manager on_op on_cl on_pkt relay, t_lan = l\<rparr>))"

section \<open>Wiring\<close>

fun run_lan_effect :: "('a, 'c) transport \<Rightarrow> 'a lan_effect \<Rightarrow> 'a transport_effect list \<times> ('a, 'c) transport" where
  "run_lan_effect t (SendTo data addr) = ([Wire data addr], t)"
| "run_lan_effect t (LanSignal sender message) = ([], t\<lparr>signal_tasks := signal_tasks t @ [(sender, message)]\<rparr>)"
| "run_lan_effect t (HostDiscovered nid data addr) =
     (if t_on_host_discovered t then [HostNotice nid data addr] else [],
      t\<lparr>t_discovered := AList.update nid data (t_discovered t)\<rparr>)"

text \<open>The callbacks of the manager; the end of its \<open>aclose\<close> goes on with \<open>self._lan.close()\<close>.\<close>

fun run_mgr_effect ::
    "crypto_lib \<Rightarrow> ('a, 'c) transport \<Rightarrow> mgr_effect \<Rightarrow> 'a transport_effect list \<times> ('a, 'c) transport" where
  "run_mgr_effect lib t (SendSignal remote_id message) =
     (case send_signal lib remote_id message (t_lan t) of
        Inl x \<Rightarrow> ([SignalRaises x], t)
      | Inr es \<Rightarrow> run_out run_lan_effect t es)"
| "run_mgr_effect lib t AcloseReturns = ([], t\<lparr>t_lan := lan_close (t_lan t)\<rparr>)"
| "run_mgr_effect lib t e = ([Notice e], t)"

definition manager_call ::
    "crypto_lib \<Rightarrow> ('c manager \<Rightarrow> 'c manager) \<Rightarrow> ('a, 'c) transport \<Rightarrow>
     'a transport_effect list \<times> ('a, 'c) transport" where
  "manager_call lib f t =
     (let m = t_manager t in
      run_out (run_mgr_effect lib) (t\<lparr>t_manager := f m\<rparr>) (drop (length (mgr_log m)) (mgr_log (f m))))"

text \<open>A raise in a callback of the socket ends the callback.\<close>

definition lan_call ::
    "'a lan_effect list result \<times> 'a lan \<Rightarrow> ('a, 'c) transport \<Rightarrow> 'a transport_effect list \<times> ('a, 'c) transport" where
  "lan_call r t =
     (let t1 = t\<lparr>t_lan := snd r\<rparr> in
      case fst r of Inl x \<Rightarrow> ([], t1) | Inr es \<Rightarrow> run_out run_lan_effect t1 es)"

definition on_lan_datagram ::
    "crypto_lib \<Rightarrow> bytes \<Rightarrow> 'a \<Rightarrow> ('a, 'c) transport \<Rightarrow> 'a transport_effect list \<times> ('a, 'c) transport" where
  "on_lan_datagram lib data addr t =
     lan_call (on_datagram lib (Some (t_advertisement t)) data addr (t_lan t)) t"

definition run_signal_task ::
    "crypto_lib \<Rightarrow> (nat \<Rightarrow> nat option) \<Rightarrow> (pystr \<Rightarrow> 'c option) \<Rightarrow> ('a, 'c) transport \<Rightarrow>
     'a transport_effect list \<times> ('a, 'c) transport" where
  "run_signal_task lib udec from_sdp t =
     (case signal_tasks t of
        [] \<Rightarrow> ([], t)
      | (sender, message) # ts \<Rightarrow>
          manager_call lib (mgr_handle_signal udec from_sdp sender message) (t\<lparr>signal_tasks := ts\<rparr>))"

section \<open>Operations\<close>

definition set_advertisement :: "bytes option \<Rightarrow> ('a, 'c) transport \<Rightarrow> ('a, 'c) transport" where
  "set_advertisement ad t = t\<lparr>t_advertisement := ad\<rparr>"

definition transport_connect ::
    "crypto_lib \<Rightarrow> (nat \<Rightarrow> nat option) \<Rightarrow> (pystr \<Rightarrow> 'c option) \<Rightarrow> network_id \<Rightarrow> 64 word \<Rightarrow> ('a, 'c) transport \<Rightarrow>
     'a transport_effect list \<times> ('a, 'c) transport" where
  "transport_connect lib udec from_sdp remote_id bits =
     manager_call lib (mgr_connect udec from_sdp remote_id (new_connection_id bits))"

text \<open>\<open>discover\<close> clears, broadcasts, sleeps, and returns what is in \<open>t_discovered\<close> then.\<close>

definition begin_discover ::
    "crypto_lib \<Rightarrow> ('a, 'c) transport \<Rightarrow> 'a transport_effect list \<times> ('a, 'c) transport" where
  "begin_discover lib t =
     (let t1 = t\<lparr>t_discovered := []\<rparr> in lan_call (broadcast_request lib (t_lan t1), t_lan t1) t1)"

datatype 'a transport_event =
    TStart int | TStartBroadcasting | TBroadcastRound | TDiscover
  | TDatagram bytes 'a | TSignalTask
  | TSetAdvertisement "bytes option" | TRememberPeer network_id 'a
  | TConnect network_id "64 word"
  | TSession nat session_event | TSessionClosed nat
  | TAclose

fun transport_step ::
    "crypto_lib \<Rightarrow> (nat \<Rightarrow> nat option) \<Rightarrow> (pystr \<Rightarrow> 'c option) \<Rightarrow> ('a, 'c) transport \<Rightarrow> 'a transport_event \<Rightarrow>
     'a transport_effect list \<times> ('a, 'c) transport" where
  "transport_step lib udec from_sdp t (TStart port) = ([], t\<lparr>t_lan := lan_start port (t_lan t)\<rparr>)"
| "transport_step lib udec from_sdp t TStartBroadcasting =
     ([], t\<lparr>t_lan := lan_start_broadcasting (t_lan t)\<rparr>)"
| "transport_step lib udec from_sdp t TBroadcastRound = lan_call (broadcast_round lib (t_lan t), t_lan t) t"
| "transport_step lib udec from_sdp t TDiscover = begin_discover lib t"
| "transport_step lib udec from_sdp t (TDatagram data addr) = on_lan_datagram lib data addr t"
| "transport_step lib udec from_sdp t TSignalTask = run_signal_task lib udec from_sdp t"
| "transport_step lib udec from_sdp t (TSetAdvertisement ad) = ([], set_advertisement ad t)"
| "transport_step lib udec from_sdp t (TRememberPeer nid addr) =
     ([], t\<lparr>t_lan := remember_peer nid addr (t_lan t)\<rparr>)"
| "transport_step lib udec from_sdp t (TConnect remote_id bits) = transport_connect lib udec from_sdp remote_id bits t"
| "transport_step lib udec from_sdp t (TSession i e) =
     manager_call lib (\<lambda>m. manager_step udec from_sdp m (MgrSession i e)) t"
| "transport_step lib udec from_sdp t (TSessionClosed i) =
     manager_call lib (\<lambda>m. manager_step udec from_sdp m (MgrClosed i)) t"
| "transport_step lib udec from_sdp t TAclose = manager_call lib (mgr_aclose udec from_sdp) t"

section \<open>The invariant\<close>

definition transport_inv :: "('a, 'c) transport \<Rightarrow> bool" where
  "transport_inv t \<longleftrightarrow> mgr_inv (t_manager t) \<and> lan_ok (t_lan t) \<and> local_id (t_lan t) = nid_value (t_local_id t) \<and>
     distinct (map fst (t_discovered t))"

definition fresh_transport :: "('a, 'c) transport \<Rightarrow> bool" where
  "fresh_transport t \<longleftrightarrow> (\<exists>lid app b ad on_op on_cl on_pkt on_host relay. in_range 8 (nid_value lid) \<and>
     new_transport lid app b ad on_op on_cl on_pkt on_host relay = Inr t)"

lemma fresh_transport_inv: "fresh_transport t \<Longrightarrow> transport_inv t"
  by (auto simp: fresh_transport_def new_transport_def transport_inv_def rbind_eq_Inr new_manager_inv
      split: if_splits intro: new_lan_ok) (simp add: new_lan_def rbind_eq_Inr, auto)

text \<open>The effects of a step change no manager, and of the LAN endpoint only what is not in \<open>lan_ok\<close>.\<close>

lemma lan_ok_updates [simp]:
  "lan_ok (lan_close l) = lan_ok l" "lan_ok (lan_start port l) = lan_ok l"
  "lan_ok (lan_start_broadcasting l) = lan_ok l" "lan_ok (remember_peer nid addr l) = lan_ok l"
  "local_id (lan_close l) = local_id l" "local_id (lan_start port l) = local_id l"
  "local_id (lan_start_broadcasting l) = local_id l" "local_id (remember_peer nid addr l) = local_id l"
  by (simp_all add: lan_ok_def lan_close_def lan_start_def lan_start_broadcasting_def remember_peer_def
      connection_made_def)

lemma lan_effect_inv: "transport_inv t \<Longrightarrow> transport_inv (snd (run_lan_effect t e))"
  by (cases e) (simp_all add: transport_inv_def AList.distinct_update)

lemma lan_effects_inv: "transport_inv t \<Longrightarrow> transport_inv (snd (run_out run_lan_effect t es))"
  by (rule run_out_inv [where P = transport_inv]) (simp_all add: lan_effect_inv)

lemma mgr_effect_inv: "transport_inv t \<Longrightarrow> transport_inv (snd (run_mgr_effect lib t e))"
  by (cases e) (auto simp: lan_effects_inv split: sum.split, simp add: transport_inv_def)

lemma manager_call_inv:
  assumes "transport_inv t" and "mgr_inv (t_manager t) \<Longrightarrow> mgr_inv (f (t_manager t))"
  shows "transport_inv (snd (manager_call lib f t))"
proof -
  have "transport_inv (t\<lparr>t_manager := f (t_manager t)\<rparr>)" using assms by (simp add: transport_inv_def)
  then show ?thesis
    unfolding manager_call_def Let_def by (rule run_out_inv) (simp add: mgr_effect_inv)
qed

lemma lan_call_inv:
  "transport_inv t \<Longrightarrow> lan_ok (snd r) \<Longrightarrow> local_id (snd r) = local_id (t_lan t) \<Longrightarrow> transport_inv (snd (lan_call r t))"
  using lan_effects_inv [of "t\<lparr>t_lan := snd r\<rparr>"]
  by (auto simp: lan_call_def Let_def transport_inv_def split: sum.split)

lemma on_datagram_lan:
  "lan_ok l \<Longrightarrow> lan_ok (snd (on_datagram lib adv data addr l))"
  "local_id (snd (on_datagram lib adv data addr l)) = local_id l"
  "lan_envelope (snd (on_datagram lib adv data addr l)) = lan_envelope l"
  by (auto simp: on_datagram_def lan_ok_def Let_def split: option.split)

lemma transport_inv_step:
  assumes "transport_inv t"
  shows "transport_inv (snd (transport_step lib udec from_sdp t e))"
proof -
  have mgr: "mgr_inv (t_manager t) \<Longrightarrow> mgr_inv (manager_step udec from_sdp (t_manager t) e')" for e'
    by (rule manager_step_inv)
  have lan: "lan_ok (t_lan t)" using assms by (simp add: transport_inv_def)
  show ?thesis
  proof (cases e)
    case TSignalTask
    show ?thesis
    proof (cases "signal_tasks t")
      case Nil
      then show ?thesis using TSignalTask assms by (simp add: run_signal_task_def)
    next
      case (Cons x ts)
      have "transport_inv (t\<lparr>signal_tasks := ts\<rparr>)" using assms by (simp add: transport_inv_def)
      then show ?thesis using TSignalTask Cons mgr [of "MgrSignal (fst x) (snd x)"]
        by (auto simp: run_signal_task_def split_beta intro!: manager_call_inv)
    qed
  next
    case TDiscover
    have "transport_inv (t\<lparr>t_discovered := []\<rparr>)" using assms by (simp add: transport_inv_def)
    then show ?thesis using TDiscover lan by (simp add: begin_discover_def lan_call_inv Let_def)
  next
    case (TConnect r bits)
    then show ?thesis using assms mgr [of "MgrConnect r bits"]
      by (simp add: transport_connect_def manager_call_inv)
  next
    case TAclose
    then show ?thesis using assms mgr [of MgrAclose] by (simp add: manager_call_inv)
  next
    case (TSession i e')
    then show ?thesis using assms mgr [of "MgrSession i e'"] manager_call_inv [OF assms] by simp
  next
    case (TSessionClosed i)
    then show ?thesis using assms mgr [of "MgrClosed i"] manager_call_inv [OF assms] by simp
  qed (use assms lan in \<open>simp_all add: lan_call_inv on_lan_datagram_def on_datagram_lan set_advertisement_def\<close>,
      simp_all add: transport_inv_def)
qed

interpretation transport_machine: state_machine
  "\<lambda>t e. snd (transport_step lib udec from_sdp t e)" fresh_transport transport_inv
  by unfold_locales (simp_all add: fresh_transport_inv transport_inv_step)

section \<open>What goes to the wire\<close>

text \<open>A datagram of endpoint \<open>lid\<close>: it opens to a packet of that sender, and is short.\<close>

definition own_datagram :: "crypto_lib \<Rightarrow> envelope \<Rightarrow> int \<Rightarrow> bytes \<Rightarrow> bool" where
  "own_datagram lib env lid d \<longleftrightarrow> length d \<le> 1216 \<and>
     (\<exists>p. Option.bind (open_envelope lib env d) parse_discovery = Some p \<and> sender_id p = lid)"

fun sound_send :: "crypto_lib \<Rightarrow> envelope \<Rightarrow> int \<Rightarrow> 'a lan_effect \<Rightarrow> bool" where
  "sound_send lib env lid (SendTo d addr) = own_datagram lib env lid d"
| "sound_send lib env lid _ = True"

fun sound_wire :: "crypto_lib \<Rightarrow> envelope \<Rightarrow> int \<Rightarrow> 'a transport_effect \<Rightarrow> bool" where
  "sound_wire lib env lid (Wire d addr) = own_datagram lib env lid d"
| "sound_wire lib env lid _ = True"

definition tied :: "envelope \<Rightarrow> int \<Rightarrow> ('a, 'c) transport \<Rightarrow> bool" where
  "tied env lid t \<longleftrightarrow> lan_ok (t_lan t) \<and> lan_envelope (t_lan t) = env \<and> local_id (t_lan t) = lid"

lemma sender_truncate [simp]: "sender_id (truncate_packet p) = sender_id p"
  by (cases p) simp_all

lemma send_packet_sound:
  assumes "library_ok lib" and "lan_ok l" and "sender_id p = local_id l" and "send_packet lib p addr l = Inr es"
  shows "list_all (sound_send lib (lan_envelope l) (local_id l)) es \<and> (\<forall>e \<in> set es. \<exists>d a. e = SendTo d a)"
proof (cases "transport l")
  case True
  then have "is_ok (serialize_discovery p)" using assms(4) by (auto simp: send_packet_def rbind_eq_Inr is_ok_iff)
  then have "packet_ids_ok p" by (simp add: serialize_discovery_ok)
  then obtain e where "send_packet lib p addr l = Inr [SendTo e addr]" "length e \<le> 1216"
      "Option.bind (open_envelope lib (lan_envelope l) e) parse_discovery = Some (truncate_packet p)"
    using send_packet_opens [OF assms(1) _ True] assms(2) by (metis lan_ok_def)
  with assms(3,4) show ?thesis by (auto simp: own_datagram_def)
qed (use assms(4) in \<open>auto simp: send_packet_def\<close>)

lemma send_signal_sound:
  "library_ok lib \<Longrightarrow> lan_ok l \<Longrightarrow> send_signal lib r x l = Inr es \<Longrightarrow>
   list_all (sound_send lib (lan_envelope l) (local_id l)) es"
  by (auto simp: send_signal_def rbind_eq_Inr dest!: send_packet_sound [rotated 3])

lemma send_signal_sends: "send_signal lib r x l = Inr es \<Longrightarrow> \<forall>e \<in> set es. \<exists>d a. e = SendTo d a"
  by (auto simp: send_signal_def send_packet_def rbind_eq_Inr split: if_splits)

lemma broadcast_sound:
  "library_ok lib \<Longrightarrow> lan_ok l \<Longrightarrow> broadcast_request lib l = Inr es \<Longrightarrow>
   list_all (sound_send lib (lan_envelope l) (local_id l)) es"
  using send_packet_sound [of lib l "DiscoveryRequest (local_id l)"] by (auto simp: broadcast_request_def)

lemma dispatch_sound:
  assumes "library_ok lib" and "lan_ok l" and "dispatch_packet lib adv p addr l = Inr es"
  shows "list_all (sound_send lib (lan_envelope l) (local_id l)) es"
proof (cases p)
  case (DiscoveryRequest s)
  then show ?thesis
    using assms send_packet_sound [OF assms(1,2), of "DiscoveryResponse (local_id l) _" addr es]
    by (auto simp: dispatch_packet_def answer_request_def split: option.splits)
next
  case (DiscoveryResponse s d)
  with assms(3) show ?thesis by (auto simp: dispatch_packet_def rbind_eq_Inr split: if_splits)
next
  case (DiscoveryMessage s r d)
  with assms(3) show ?thesis
    by (auto simp: dispatch_packet_def handle_message_def rbind_eq_Inr split: if_splits option.splits)
qed

lemma datagram_sound:
  assumes "library_ok lib" and "lan_ok l" and "fst (on_datagram lib adv data addr l) = Inr es"
  shows "list_all (sound_send lib (lan_envelope l) (local_id l)) es"
proof -
  have "lan_ok (l\<lparr>peers := ps\<rparr>)" for ps using assms(2) by (simp add: lan_ok_def)
  with assms(2,3) show ?thesis
    using dispatch_sound [OF assms(1), of "l\<lparr>peers := _\<rparr>" adv _ addr es] dispatch_sound [OF assms(1,2), of adv _ addr es]
    by (auto simp: on_datagram_def Let_def split: option.splits if_splits)
qed

lemma lan_effects_tied:
  "list_all (sound_send lib env lid) es \<Longrightarrow> tied env lid t \<Longrightarrow>
   tied env lid (snd (run_out run_lan_effect t es)) \<and> list_all (sound_wire lib env lid) (fst (run_out run_lan_effect t es))"
proof (induction es arbitrary: t)
  case (Cons e es)
  have "tied env lid (snd (run_lan_effect t e)) \<and> list_all (sound_wire lib env lid) (fst (run_lan_effect t e))"
    using Cons.prems by (cases e) (simp_all add: tied_def)
  with Cons show ?case by (simp add: split_beta Let_def)
qed simp

lemma lan_call_tied:
  assumes "tied env lid (t\<lparr>t_lan := snd r\<rparr>)" and "\<And>es. fst r = Inr es \<Longrightarrow> list_all (sound_send lib env lid) es"
  shows "tied env lid (snd (lan_call r t)) \<and> list_all (sound_wire lib env lid) (fst (lan_call r t))"
  using assms lan_effects_tied [of lib env lid _ "t\<lparr>t_lan := snd r\<rparr>"]
  by (auto simp: lan_call_def Let_def split: sum.split)

lemma mgr_effect_tied:
  assumes "library_ok lib" and "tied env lid t"
  shows "tied env lid (snd (run_mgr_effect lib t e)) \<and> list_all (sound_wire lib env lid) (fst (run_mgr_effect lib t e))"
proof (cases e)
  case (SendSignal r x)
  show ?thesis
  proof (cases "send_signal lib r x (t_lan t)")
    case (Inr es)
    then have "list_all (sound_send lib env lid) es"
      using send_signal_sound [OF assms(1)] assms(2) by (auto simp: tied_def)
    then show ?thesis using lan_effects_tied [OF _ assms(2)] SendSignal Inr by simp
  qed (use SendSignal assms(2) in simp)
qed (use assms(2) in \<open>auto simp: tied_def lan_close_def lan_ok_def\<close>)

lemma manager_call_tied:
  assumes "library_ok lib" and "tied env lid t"
  shows "tied env lid (snd (manager_call lib f t)) \<and> list_all (sound_wire lib env lid) (fst (manager_call lib f t))"
  unfolding manager_call_def Let_def
  by (rule run_out_all) (use assms mgr_effect_tied in \<open>auto simp: tied_def\<close>)

lemma lan_updates_tied [simp]:
  "tied env lid t \<Longrightarrow> tied env lid (t\<lparr>t_lan := lan_start port (t_lan t)\<rparr>)"
  "tied env lid t \<Longrightarrow> tied env lid (t\<lparr>t_lan := lan_start_broadcasting (t_lan t)\<rparr>)"
  "tied env lid t \<Longrightarrow> tied env lid (t\<lparr>t_lan := remember_peer nid addr (t_lan t)\<rparr>)"
  "tied env lid (t\<lparr>t_discovered := d\<rparr>) = tied env lid t" "tied env lid (t\<lparr>signal_tasks := ts\<rparr>) = tied env lid t"
  "tied env lid (t\<lparr>t_lan := t_lan t\<rparr>) = tied env lid t" "tied env lid (set_advertisement ad t) = tied env lid t"
  by (auto simp: tied_def lan_start_def lan_start_broadcasting_def remember_peer_def connection_made_def lan_ok_def
      set_advertisement_def)

lemma step_tied:
  assumes "library_ok lib" and "tied env lid t"
  shows "tied env lid (snd (transport_step lib udec from_sdp t e)) \<and>
    list_all (sound_wire lib env lid) (fst (transport_step lib udec from_sdp t e))"
proof -
  have lan: "lan_ok (t_lan t)" "lan_envelope (t_lan t) = env" "local_id (t_lan t) = lid"
    using assms(2) by (simp_all add: tied_def)
  note bc = broadcast_sound [OF assms(1) lan(1), unfolded lan]
  show ?thesis
  proof (cases e)
    case TBroadcastRound
    then show ?thesis using assms(2) bc
      by (auto simp: broadcast_round_def intro!: lan_call_tied split: if_splits)
  next
    case TDiscover
    then show ?thesis using assms(2) bc by (auto simp: begin_discover_def Let_def intro!: lan_call_tied)
  next
    case (TDatagram data addr)
    then show ?thesis using lan datagram_sound [OF assms(1) lan(1)] unfolding TDatagram transport_step.simps on_lan_datagram_def
      by (intro lan_call_tied) (auto simp: tied_def on_datagram_lan)
  next
    case TSignalTask
    then show ?thesis using assms
      by (auto simp: run_signal_task_def manager_call_tied split: list.split)
  qed (use assms in \<open>simp_all add: manager_call_tied transport_connect_def del: manager_step.simps\<close>)
qed

section \<open>What the effects leave alone\<close>

lemma lan_effects_manager: "t_manager (snd (run_out run_lan_effect t es)) = t_manager t"
  by (rule run_out_same [where f = t_manager]) (rename_tac s e, case_tac e; simp)

lemma sends_keep: "\<forall>e \<in> set es. \<exists>d a. e = SendTo d a \<Longrightarrow> snd (run_out run_lan_effect t es) = t"
  by (induction es arbitrary: t) (auto simp: split_beta Let_def)

lemma mgr_effect_keeps:
  "t_manager (snd (run_mgr_effect lib t e)) = t_manager t" "signal_tasks (snd (run_mgr_effect lib t e)) = signal_tasks t"
  "t_discovered (snd (run_mgr_effect lib t e)) = t_discovered t"
  by (cases e; auto simp: sends_keep dest: send_signal_sends split: sum.split)+

lemma manager_call_keeps:
  "t_manager (snd (manager_call lib f t)) = f (t_manager t)" "signal_tasks (snd (manager_call lib f t)) = signal_tasks t"
  "t_discovered (snd (manager_call lib f t)) = t_discovered t"
  by (simp_all add: manager_call_def Let_def run_out_same [where f = t_manager]
      run_out_same [where f = signal_tasks] run_out_same [where f = t_discovered] mgr_effect_keeps)

text \<open>The tasks of a burst of signals run in the order of the datagrams.\<close>

lemma run_tasks:
  "signal_tasks t = map (Pair sender) xs \<Longrightarrow>
   t_manager (snd (run_out (transport_step lib udec from_sdp) t (replicate (length xs) TSignalTask))) =
     foldl (\<lambda>m x. mgr_handle_signal udec from_sdp sender x m) (t_manager t) xs"
proof (induction xs arbitrary: t)
  case (Cons x xs)
  let ?t = "snd (manager_call lib (mgr_handle_signal udec from_sdp sender x) (t\<lparr>signal_tasks := map (Pair sender) xs\<rparr>))"
  have step: "transport_step lib udec from_sdp t TSignalTask =
      manager_call lib (mgr_handle_signal udec from_sdp sender x) (t\<lparr>signal_tasks := map (Pair sender) xs\<rparr>)"
    using Cons.prems by (simp add: run_signal_task_def)
  have "signal_tasks ?t = map (Pair sender) xs" "t_manager ?t = mgr_handle_signal udec from_sdp sender x (t_manager t)"
    by (simp_all add: manager_call_keeps)
  with Cons.IH [of ?t] step show ?case by (simp add: split_beta Let_def)
qed simp

text \<open>A signaling text that a Message packet carries whole.\<close>

definition lan_text :: "pystr \<Rightarrow> bool" where
  "lan_text x \<longleftrightarrow>
     (case utf8_encode x of Inl _ \<Rightarrow> False | Inr data \<Rightarrow> data \<noteq> [] \<and> length data \<le> MESSAGE_PAYLOAD_MAX)"

lemma lan_text_arrives:
  assumes "library_ok lib" and "lan_ok a" and "lan_ok (t_lan t)" and "lan_envelope a = lan_envelope (t_lan t)"
    and "transport a" and "has_on_signal (t_lan t)" and "local_id a \<noteq> local_id (t_lan t)" and "local_id a \<noteq> 0"
    and "lan_text x"
  shows "\<exists>d to. send_signal lib (mk_p2p (local_id (t_lan t))) x a = Inr [SendTo d to] \<and>
    (\<forall>addr. transport_step lib udec from_sdp t (TDatagram d addr) =
      ([], t\<lparr>t_lan := (t_lan t)\<lparr>peers := (peers (t_lan t))(local_id a \<mapsto> addr)\<rparr>,
             signal_tasks := signal_tasks t @ [(mk_p2p (local_id a), x)]\<rparr>))"
proof -
  obtain data where data: "utf8_encode x = Inr data" "data \<noteq> []" "length data \<le> MESSAGE_PAYLOAD_MAX"
    using assms(9) by (auto simp: lan_text_def split: sum.splits)
  then have cut: "utf8_decode (take MESSAGE_PAYLOAD_MAX data) = Some x" by (simp add: utf8_decode_encode)
  have arrives: "\<exists>d to. send_signal lib (mk_p2p (local_id (t_lan t))) x a = Inr [SendTo d to] \<and>
      on_datagram lib adv d addr (t_lan t) = (Inr [LanSignal (mk_p2p (local_id a)) x],
        (t_lan t)\<lparr>peers := (peers (t_lan t))(local_id a \<mapsto> addr)\<rparr>)" for adv addr
    using signal_arrives [OF assms(1-8) data(1,2), of adv addr] cut by auto
  then obtain d to where d: "send_signal lib (mk_p2p (local_id (t_lan t))) x a = Inr [SendTo d to]" by blast
  have "on_datagram lib adv d addr (t_lan t) = (Inr [LanSignal (mk_p2p (local_id a)) x],
        (t_lan t)\<lparr>peers := (peers (t_lan t))(local_id a \<mapsto> addr)\<rparr>)" for adv addr
    using arrives [of adv addr] d by auto
  then have "transport_step lib udec from_sdp t (TDatagram d addr) =
      ([], t\<lparr>t_lan := (t_lan t)\<lparr>peers := (peers (t_lan t))(local_id a \<mapsto> addr)\<rparr>,
             signal_tasks := signal_tasks t @ [(mk_p2p (local_id a), x)]\<rparr>)" for addr
    by (simp add: on_lan_datagram_def lan_call_def Let_def)
  with d show ?thesis by blast
qed

text \<open>What a LAN endpoint sends for texts to one recipient: \<open>ds\<close> are the datagrams, in order.\<close>

definition sends_texts :: "crypto_lib \<Rightarrow> network_id \<Rightarrow> 'a lan \<Rightarrow> pystr list \<Rightarrow> bytes list \<Rightarrow> bool" where
  "sends_texts lib r l xs ds \<longleftrightarrow> list_all2 (\<lambda>x d. \<exists>to. send_signal lib r x l = Inr [SendTo d to]) xs ds"

definition hears :: "crypto_lib \<Rightarrow> 'a lan \<Rightarrow> ('a, 'c) transport \<Rightarrow> bool" where
  "hears lib a t \<longleftrightarrow> library_ok lib \<and> lan_ok a \<and> lan_ok (t_lan t) \<and> lan_envelope a = lan_envelope (t_lan t) \<and>
     transport a \<and> has_on_signal (t_lan t) \<and> local_id a \<noteq> local_id (t_lan t) \<and> local_id a \<noteq> 0"

lemma texts_queue:
  assumes "list_all lan_text xs"
  shows "hears lib a t \<Longrightarrow> \<exists>ds. sends_texts lib (mk_p2p (local_id (t_lan t))) a xs ds \<and>
    (\<exists>l. snd (run_out (transport_step lib udec from_sdp) t (map (\<lambda>d. TDatagram d addr) ds)) =
       t\<lparr>t_lan := l, signal_tasks := signal_tasks t @ map (Pair (mk_p2p (local_id a))) xs\<rparr>)"
  using assms
proof (induction xs arbitrary: t)
  case Nil
  then show ?case by (intro exI [of _ "[]"] conjI exI [of _ "t_lan t"]) (simp_all add: sends_texts_def)
next
  case (Cons x xs)
  let ?t = "t\<lparr>t_lan := (t_lan t)\<lparr>peers := (peers (t_lan t))(local_id a \<mapsto> addr)\<rparr>,
      signal_tasks := signal_tasks t @ [(mk_p2p (local_id a), x)]\<rparr>"
  have "lan_text x" using Cons.prems by simp
  then obtain d to where d: "send_signal lib (mk_p2p (local_id (t_lan t))) x a = Inr [SendTo d to]"
      "transport_step lib udec from_sdp t (TDatagram d addr) = ([], ?t)"
    using Cons.prems lan_text_arrives [of lib a t x udec from_sdp] unfolding hears_def by blast
  have "hears lib a ?t" using Cons.prems by (simp add: hears_def lan_ok_def)
  with Cons.IH [of ?t] Cons.prems obtain ds l where
    "sends_texts lib (mk_p2p (local_id (t_lan t))) a xs ds"
    "snd (run_out (transport_step lib udec from_sdp) ?t (map (\<lambda>d. TDatagram d addr) ds)) =
      ?t\<lparr>t_lan := l, signal_tasks := signal_tasks ?t @ map (Pair (mk_p2p (local_id a))) xs\<rparr>"
    by auto
  with d show ?case
    by (intro exI [of _ "d # ds"] conjI exI [of _ l]) (auto simp: sends_texts_def split_beta Let_def)
qed

section \<open>Discovery\<close>

definition hosts :: "'a transport_effect list \<Rightarrow> (network_id \<times> bytes) list" where
  "hosts es = List.map_filter (\<lambda>e. case e of HostNotice n d a \<Rightarrow> Some (n, d) | _ \<Rightarrow> None) es"

lemma hosts_simps [simp]:
  "hosts [] = []" "hosts (a @ b) = hosts a @ hosts b" "hosts (Wire d x # es) = hosts es"
  "hosts (SignalRaises e # es) = hosts es" "hosts (Notice notice # es) = hosts es"
  "hosts (HostNotice n d x # es) = (n, d) # hosts es"
  by (simp_all add: hosts_def map_filter_def)

definition collect :: "(network_id \<times> bytes) list \<Rightarrow> (network_id \<times> bytes) list \<Rightarrow> (network_id \<times> bytes) list" where
  "collect found hs = foldl (\<lambda>found (n, d). AList.update n d found) found hs"

lemma collect_simps [simp]: "collect found [] = found" "collect (collect found a) b = collect found (a @ b)"
  by (simp_all add: collect_def)

lemma map_of_collect: "map_of (collect found hs) n = map_of (rev hs @ found) n"
proof (induction hs arbitrary: found)
  case (Cons h hs)
  obtain k d where h: "h = (k, d)" by (cases h)
  have "map_of (collect found (h # hs)) n = map_of (rev hs @ AList.update k d found) n"
    using Cons.IH [of "AList.update k d found"] by (simp add: h collect_def)
  also have "\<dots> = map_of (rev (h # hs) @ found) n"
    by (simp add: h map_add_def update_conv' split: option.split)
  finally show ?case .
qed simp

text \<open>\<open>collects t r\<close>: the step \<open>r\<close> from \<open>t\<close> has put into the dictionary what it has notified.\<close>

definition collects :: "('a, 'c) transport \<Rightarrow> 'a transport_effect list \<times> ('a, 'c) transport \<Rightarrow> bool" where
  "collects t r \<longleftrightarrow> t_on_host_discovered (snd r) = t_on_host_discovered t \<and>
     (t_on_host_discovered t \<longrightarrow> t_discovered (snd r) = collect (t_discovered t) (hosts (fst r)))"

interpretation collecting: behaviour collects
  by unfold_locales (auto simp: collects_def)

lemma lan_effect_collects: "collects t (run_lan_effect t e)"
  by (cases e) (simp_all add: collects_def, simp add: collect_def)

lemma lan_call_collects: "collects t (lan_call r t)"
  using collecting.run [of _ run_lan_effect "t\<lparr>t_lan := snd r\<rparr>"] lan_effect_collects
  by (auto simp: lan_call_def Let_def collects_def split: sum.split)

lemma mgr_effect_collects: "collects t (run_mgr_effect lib t e)"
proof (cases e)
  case (SendSignal r x)
  then show ?thesis
    using collecting.run [of _ run_lan_effect t] lan_effect_collects by (auto split: sum.split simp: collects_def)
qed (simp_all add: collects_def)

lemma manager_call_collects: "collects t (manager_call lib f t)"
  using collecting.run [of _ "run_mgr_effect lib" "t\<lparr>t_manager := f (t_manager t)\<rparr>"] mgr_effect_collects
  by (auto simp: manager_call_def Let_def collects_def)

lemma step_collects: "e \<noteq> TDiscover \<Longrightarrow> collects t (transport_step lib udec from_sdp t e)"
proof (cases e)
  case TSignalTask
  then show ?thesis
    using manager_call_collects [of "t\<lparr>signal_tasks := _\<rparr>" lib]
    by (auto simp: run_signal_task_def collects_def split: list.split)
qed (simp_all add: lan_call_collects on_lan_datagram_def manager_call_collects transport_connect_def
    del: manager_step.simps, simp_all add: collects_def set_advertisement_def)

section \<open>Properties\<close>

text \<open>
  C21: over all runs of a transport, whatever arrives and whatever the sessions do: every datagram
  it sends opens, under its application's key, to a discovery packet in its own name, and is
  at most 1216 bytes long.
\<close>

theorem transport_wire_sound:
  assumes "library_ok lib" and "in_range 8 (nid_value lid)"
    and "new_transport lid app b ad on_op on_cl on_pkt on_host relay = Inr t"
  shows "\<forall>d addr. Wire d addr \<in> set (fst (run_out (transport_step lib udec from_sdp) t es)) \<longrightarrow>
    length d \<le> 1216 \<and>
    (\<exists>p. Option.bind (open_envelope lib (lan_envelope (t_lan t)) d) parse_discovery = Some p \<and>
         sender_id p = nid_value lid)"
proof -
  have "fresh_transport t" unfolding fresh_transport_def using assms(2,3) by blast
  then have "transport_inv t" by (rule fresh_transport_inv)
  then have start: "tied (lan_envelope (t_lan t)) (local_id (t_lan t)) t"
    by (simp add: tied_def transport_inv_def)
  have "list_all (sound_wire lib (lan_envelope (t_lan t)) (local_id (t_lan t)))
      (fst (run_out (transport_step lib udec from_sdp) t es))"
    by (rule run_out_all [where P = "tied (lan_envelope (t_lan t)) (local_id (t_lan t))", THEN conjunct2])
      (rule step_tied [OF assms(1)], assumption, rule start)
  moreover have "local_id (t_lan t) = nid_value lid"
    using assms(3) by (auto simp: new_transport_def new_lan_def rbind_eq_Inr split: if_splits)
  ultimately show ?thesis by (fastforce simp: list_all_iff own_datagram_def)
qed

theorem transport_wire_sound_witness:
  "\<exists>t :: (nat, nat) transport.
     new_transport (mk_p2p 1) 5 0 None True True True True False = Inr t \<and>
     (\<forall>d addr. Wire d addr \<in> set (fst (run_out (transport_step xor_lib (\<lambda>_. None) (\<lambda>_. None)) t [TStart 9, TDiscover])) \<longrightarrow>
       length d \<le> 1216)"
proof -
  have "\<exists>t. (new_transport (mk_p2p 1) 5 0 None True True True True False :: (nat, nat) transport result) = Inr t"
    by (simp add: new_transport_def mk_p2p_def new_lan_def new_envelope_def derive_key_def in_range_def)
  then obtain t :: "(nat, nat) transport" where t: "new_transport (mk_p2p 1) 5 0 None True True True True False = Inr t" ..
  moreover have "in_range 8 (nid_value (mk_p2p 1))" by (simp add: mk_p2p_def in_range_def)
  ultimately show ?thesis using transport_wire_sound [OF xor_lib_ok _ t, of "\<lambda>_. None" "\<lambda>_. None" "[TStart 9, TDiscover]"] by blast
qed

text \<open>
  LAN is a faithful channel between two transports: the texts that one sends (of up to 1140
  bytes each) reach the other's session manager, under the sender's identity, in order and
  each once, when the datagrams arrive in order and the event loop has run the tasks.
\<close>

theorem transport_channel:
  assumes "hears lib a t" and "list_all lan_text xs" and "signal_tasks t = []"
  shows "\<exists>ds. sends_texts lib (mk_p2p (local_id (t_lan t))) a xs ds \<and>
    t_manager (snd (run_out (transport_step lib udec from_sdp) t
      (map (\<lambda>d. TDatagram d addr) ds @ replicate (length xs) TSignalTask))) =
    foldl (\<lambda>m x. mgr_handle_signal udec from_sdp (mk_p2p (local_id a)) x m) (t_manager t) xs"
proof -
  obtain ds l where ds: "sends_texts lib (mk_p2p (local_id (t_lan t))) a xs ds"
    "snd (run_out (transport_step lib udec from_sdp) t (map (\<lambda>d. TDatagram d addr) ds)) =
      t\<lparr>t_lan := l, signal_tasks := map (Pair (mk_p2p (local_id a))) xs\<rparr>"
    using texts_queue [OF assms(2,1), of udec from_sdp addr] assms(3) by auto
  then show ?thesis
    using run_tasks [of "t\<lparr>t_lan := l, signal_tasks := map (Pair (mk_p2p (local_id a))) xs\<rparr>"]
    by (intro exI [of _ ds]) (simp add: run_out_append split_beta Let_def)
qed

definition example_transport :: "int \<Rightarrow> (nat, nat) transport" where
  "example_transport lid =
     \<lparr>t_local_id = mk_p2p lid, t_advertisement = None, t_on_host_discovered = True, t_discovered = [],
      signal_tasks = [], t_manager = new_manager True True True False, t_lan = example_lan lid\<rparr>"

theorem transport_channel_witness:
  "\<exists>ds. sends_texts xor_lib (mk_p2p 2) (example_lan 1) [[65], [66]] ds \<and>
    t_manager (snd (run_out (transport_step xor_lib (\<lambda>_. None) (\<lambda>_. None)) (example_transport 2)
      (map (\<lambda>d. TDatagram d 7) ds @ replicate 2 TSignalTask))) =
    foldl (\<lambda>m x. mgr_handle_signal (\<lambda>_. None) (\<lambda>_. None) (mk_p2p 1) x m) (new_manager True True True False) [[65], [66]]"
proof -
  have "hears xor_lib (example_lan 1) (example_transport 2)" "signal_tasks (example_transport 2) = []"
    by (simp_all add: hears_def example_transport_def example_lan_simps)
  moreover have "list_all lan_text [[65], [66]]"
    by (simp add: lan_text_def utf8_encode_ascii is_ascii_def MESSAGE_PAYLOAD_MAX_def)
  ultimately show ?thesis
    using transport_channel [of xor_lib "example_lan 1" "example_transport 2" "[[65], [66]]" "\<lambda>_. None" "\<lambda>_. None" 7]
    by (simp add: example_transport_def example_lan_def numeral_2_eq_2 del: run_out.simps foldl_Cons foldl_Nil)
qed

text \<open>
  \<open>discover\<close>. Whatever happens while it sleeps, the dictionary it returns has, for every host
  that was heard since the call, the advertisement that was heard last, and no other host.
\<close>

theorem transport_discover:
  assumes "t_on_host_discovered t" and "TDiscover \<notin> set es"
    and "run_out (transport_step lib udec from_sdp) t (TDiscover # es) = (outs, t')"
  shows "map_of (t_discovered t') n = map_of (rev (hosts outs)) n"
proof -
  let ?r = "transport_step lib udec from_sdp t TDiscover"
  have first: "t_discovered (snd ?r) = collect [] (hosts (fst ?r))" "t_on_host_discovered (snd ?r)"
    using lan_call_collects [of "t\<lparr>t_discovered := []\<rparr>"] assms(1)
    by (auto simp: begin_discover_def Let_def collects_def)
  have "collects (snd ?r) (run_out (transport_step lib udec from_sdp) (snd ?r) es)"
    by (rule collecting.run, rule step_collects) (use assms(2) in auto)
  with first assms(3) have "t_discovered t' = collect [] (hosts outs)"
    by (auto simp: collects_def split_beta Let_def)
  then show ?thesis by (simp add: map_of_collect)
qed

theorem transport_discover_witness:
  "map_of (t_discovered (snd (run_out (transport_step xor_lib (\<lambda>_. None) (\<lambda>_. None)) (example_transport 1) [TDiscover]))) (mk_p2p 2) =
    map_of (rev (hosts (fst (run_out (transport_step xor_lib (\<lambda>_. None) (\<lambda>_. None)) (example_transport 1) [TDiscover])))) (mk_p2p 2)"
  by (rule transport_discover [where t = "example_transport 1" and es = "[]"])
    (simp_all add: example_transport_def del: run_out.simps)

end
