(* ===== verification/Endpoint.thy ===== *)
theory Endpoint
  imports Connection Transport
begin

text \<open>
  The class \<open>_Endpoint\<close> of \<open>api.py\<close>: it owns a transport and routes the notices of its sessions
  to \<open>Connection\<close> objects. The objects live in \<open>conn_store\<close>, which only grows; \<open>conns\<close> is the
  dictionary \<open>_conns\<close> from connection ids to them. Calls of the application on a connection are
  events of the endpoint, since they share its event loop.
\<close>

section \<open>State\<close>

record 'a discovered_host =
  host_id :: network_id
  host_advertisement :: bytes
  host_address :: 'a

record ('a, 'c) endpoint =
  conn_store :: "connection list"
  conns :: "(int \<times> nat) list"
  pending_packets :: "int \<Rightarrow> bytes list option"
  incoming :: "nat list"
  host_queue :: "'a discovered_host list"
  closing :: "nat list"                    \<comment> \<open>connections in the first await of \<open>close\<close>\<close>
  e_transport :: "('a, 'c) transport"

datatype 'a endpoint_effect =
    EWire bytes 'a
  | EOutcome nat outcome                   \<comment> \<open>a call on a connection has returned or waits\<close>
  | ECallback int mgr_effect               \<comment> \<open>the engine has called back, for this connection id\<close>
  | ECallbackRaises py_exn                 \<comment> \<open>the callback, or a \<open>send_signal\<close>, has raised\<close>

definition MAX_PENDING_PACKETS :: nat where "MAX_PENDING_PACKETS = 256"

definition new_endpoint :: "('a, 'c) transport \<Rightarrow> ('a, 'c) endpoint" where
  "new_endpoint t =
     \<lparr>conn_store = [], conns = [], pending_packets = Map.empty, incoming = [], host_queue = [],
      closing = [], e_transport = t\<rparr>"

section \<open>Engine callbacks\<close>

definition pending_of_id :: "int \<Rightarrow> ('a, 'c) endpoint \<Rightarrow> bytes list" where
  "pending_of_id conn e = (case pending_packets e conn of None \<Rightarrow> [] | Some b \<Rightarrow> b)"

definition register :: "nat \<Rightarrow> int \<Rightarrow> bool \<Rightarrow> ('a, 'c) endpoint \<Rightarrow> ('a, 'c) endpoint" where
  "register i conn owns e =
     (let c = foldl (\<lambda>c data. enqueue data c) (new_connection i owns) (pending_of_id conn e)
      in e\<lparr>conn_store := conn_store e @ [c], conns := AList.update conn (length (conn_store e)) (conns e),
           pending_packets := (pending_packets e)(conn := None)\<rparr>)"

definition update_conn :: "nat \<Rightarrow> (connection \<Rightarrow> connection) \<Rightarrow> ('a, 'c) endpoint \<Rightarrow> ('a, 'c) endpoint" where
  "update_conn k f e = e\<lparr>conn_store := (conn_store e)[k := f (conn_store e ! k)]\<rparr>"

definition on_session_open :: "nat \<Rightarrow> int \<Rightarrow> ('a, 'c) endpoint \<Rightarrow> ('a, 'c) endpoint" where
  "on_session_open i conn e =
     (case map_of (conns e) conn of
        None \<Rightarrow>
          (let k = length (conn_store e); e1 = register i conn False e
           in update_conn k mark_connected (e1\<lparr>incoming := incoming e1 @ [k]\<rparr>))
      | Some k \<Rightarrow> update_conn k mark_connected e)"

definition on_session_close ::
    "int \<Rightarrow> wire_error \<Rightarrow> ('a, 'c) endpoint \<Rightarrow> py_exn option \<times> ('a, 'c) endpoint" where
  "on_session_close conn err e =
     (case map_of (conns e) conn of
        None \<Rightarrow> (None, e)
      | Some k \<Rightarrow>
          (let e1 = e\<lparr>conns := AList.delete conn (conns e)\<rparr>
           in (fst (mark_closed err (conn_store e ! k)), update_conn k (\<lambda>c. snd (mark_closed err c)) e1)))"

definition on_packet :: "int \<Rightarrow> bytes \<Rightarrow> ('a, 'c) endpoint \<Rightarrow> ('a, 'c) endpoint" where
  "on_packet conn data e =
     (case map_of (conns e) conn of
        Some k \<Rightarrow> update_conn k (enqueue data) e
      | None \<Rightarrow>
          (let buffer = pending_of_id conn e
           in e\<lparr>pending_packets := (pending_packets e)(conn \<mapsto>
                  (if length buffer < MAX_PENDING_PACKETS then buffer @ [data] else buffer))\<rparr>))"

definition on_host_discovered :: "network_id \<Rightarrow> bytes \<Rightarrow> 'a \<Rightarrow> ('a, 'c) endpoint \<Rightarrow> ('a, 'c) endpoint" where
  "on_host_discovered nid data addr e =
     e\<lparr>host_queue := host_queue e @ [\<lparr>host_id = nid, host_advertisement = data, host_address = addr\<rparr>]\<rparr>"

text \<open>A notice about session \<open>i\<close>, whose connection id is \<open>ids i\<close>. The end of the manager's \<open>connect\<close>
  goes on in \<open>_Endpoint.connect\<close>, which registers the connection.\<close>

fun session_of :: "mgr_effect \<Rightarrow> nat option" where
  "session_of (SessionOpen i) = Some i"
| "session_of (SessionClose i err) = Some i"
| "session_of (SessionPacket i data) = Some i"
| "session_of (ConnectReturns i) = Some i"
| "session_of _ = None"

fun endpoint_notice ::
    "(nat \<Rightarrow> int) \<Rightarrow> ('a, 'c) endpoint \<Rightarrow> mgr_effect \<Rightarrow> 'a endpoint_effect list \<times> ('a, 'c) endpoint" where
  "endpoint_notice ids e (SessionOpen i) = ([], on_session_open i (ids i) e)"
| "endpoint_notice ids e (SessionClose i err) =
     (let (x, e1) = on_session_close (ids i) err e
      in (case x of None \<Rightarrow> [] | Some x \<Rightarrow> [ECallbackRaises x], e1))"
| "endpoint_notice ids e (SessionPacket i data) = ([], on_packet (ids i) data e)"
| "endpoint_notice ids e (ConnectReturns i) = ([], register i (ids i) True e)"
| "endpoint_notice ids e _ = ([], e)"

fun run_transport_effect ::
    "(nat \<Rightarrow> int) \<Rightarrow> ('a, 'c) endpoint \<Rightarrow> 'a transport_effect \<Rightarrow>
     'a endpoint_effect list \<times> ('a, 'c) endpoint" where
  "run_transport_effect ids e (Wire data addr) = ([EWire data addr], e)"
| "run_transport_effect ids e (SignalRaises x) = ([ECallbackRaises x], e)"
| "run_transport_effect ids e (Notice n) =
     (case session_of n of
        None \<Rightarrow> ([], e)
      | Some i \<Rightarrow> (let (out, e1) = endpoint_notice ids e n in (ECallback (ids i) n # out, e1)))"
| "run_transport_effect ids e (HostNotice nid data addr) = ([], on_host_discovered nid data addr e)"

section \<open>Calls\<close>

text \<open>A step of the transport, and then the notices it has given.\<close>

definition drive ::
    "crypto_lib \<Rightarrow> (nat \<Rightarrow> nat option) \<Rightarrow> (pystr \<Rightarrow> 'c option) \<Rightarrow> 'a transport_event \<Rightarrow> ('a, 'c) endpoint \<Rightarrow>
     'a endpoint_effect list \<times> ('a, 'c) endpoint" where
  "drive lib udec from_sdp ev e =
     (let (out, t) = transport_step lib udec from_sdp (e_transport e) ev
      in run_out (run_transport_effect (\<lambda>i. cid (session_at i (t_manager t)))) (e\<lparr>e_transport := t\<rparr>) out)"

definition on_connection ::
    "nat \<Rightarrow> (connection \<Rightarrow> outcome \<times> connection) \<Rightarrow> ('a, 'c) endpoint \<Rightarrow>
     'a endpoint_effect list \<times> ('a, 'c) endpoint" where
  "on_connection k f e =
     (if k < length (conn_store e)
      then let (r, c) = f (conn_store e ! k) in ([EOutcome k r], update_conn k (\<lambda>_. c) e)
      else ([], e))"

text \<open>\<open>Connection.send\<close>: the session's step is one of the transport, so its effects are kept.\<close>

definition send_call ::
    "crypto_lib \<Rightarrow> (nat \<Rightarrow> nat option) \<Rightarrow> (pystr \<Rightarrow> 'c option) \<Rightarrow> nat \<Rightarrow> bytes \<Rightarrow> send_type \<Rightarrow>
     ('a, 'c) endpoint \<Rightarrow> 'a endpoint_effect list \<times> ('a, 'c) endpoint" where
  "send_call lib udec from_sdp k data ty e =
     (if k < length (conn_store e)
      then let c = conn_store e ! k; s = session_at (conn_session c) (t_manager (e_transport e));
               (r, _) = conn_send data ty c s;
               (out, e1) = drive lib udec from_sdp (TSession (conn_session c) (SendCall data ty)) e
           in (out @ [EOutcome k r], e1)
      else ([], e))"

text \<open>
  \<open>Connection.close\<close> up to its first await, and what follows when the session's close task is
  done: the owner of its endpoint closes that too.
\<close>

definition close_call ::
    "crypto_lib \<Rightarrow> (nat \<Rightarrow> nat option) \<Rightarrow> (pystr \<Rightarrow> 'c option) \<Rightarrow> nat \<Rightarrow> session_error \<Rightarrow> ('a, 'c) endpoint \<Rightarrow>
     'a endpoint_effect list \<times> ('a, 'c) endpoint" where
  "close_call lib udec from_sdp k err e =
     (if k < length (conn_store e)
      then let (out, e1) = drive lib udec from_sdp
                 (TSession (conn_session (conn_store e ! k)) (AcloseCall (Known err))) e
           in (out, e1\<lparr>closing := closing e1 @ [k]\<rparr>)
      else ([], e))"

definition close_continues :: "nat \<Rightarrow> ('a, 'c) endpoint \<Rightarrow> nat list" where
  "close_continues i e = filter (\<lambda>k. conn_session (conn_store e ! k) = i) (closing e)"

definition session_closed ::
    "crypto_lib \<Rightarrow> (nat \<Rightarrow> nat option) \<Rightarrow> (pystr \<Rightarrow> 'c option) \<Rightarrow> nat \<Rightarrow> ('a, 'c) endpoint \<Rightarrow>
     'a endpoint_effect list \<times> ('a, 'c) endpoint" where
  "session_closed lib udec from_sdp i e =
     (let ks = close_continues i e;
          (out, e1) = drive lib udec from_sdp (TSessionClosed i) e;
          e2 = e1\<lparr>closing := filter (\<lambda>k. k \<notin> set ks) (closing e1)\<rparr>;
          done = map (\<lambda>k. EOutcome k Finished) ks
      in if list_ex (\<lambda>k. owns_endpoint (conn_store e ! k)) ks
         then let (out', e3) = drive lib udec from_sdp TAclose e2 in (out @ out' @ done, e3)
         else (out @ done, e2))"

datatype 'a endpoint_event =
    Drive "'a transport_event"             \<comment> \<open>whatever happens below\<close>
  | SessionClosed nat                      \<comment> \<open>a session's close task is done\<close>
  | RecvCall nat | AnextCall nat
  | AwaitCall nat | AwaitTimeout nat
  | SendData nat bytes send_type
  | CloseConnection nat session_error

fun endpoint_step ::
    "crypto_lib \<Rightarrow> (nat \<Rightarrow> nat option) \<Rightarrow> (pystr \<Rightarrow> 'c option) \<Rightarrow> ('a, 'c) endpoint \<Rightarrow> 'a endpoint_event \<Rightarrow>
     'a endpoint_effect list \<times> ('a, 'c) endpoint" where
  "endpoint_step lib udec from_sdp e (Drive ev) = drive lib udec from_sdp ev e"
| "endpoint_step lib udec from_sdp e (SessionClosed i) = session_closed lib udec from_sdp i e"
| "endpoint_step lib udec from_sdp e (RecvCall k) = on_connection k recv e"
| "endpoint_step lib udec from_sdp e (AnextCall k) = on_connection k anext e"
| "endpoint_step lib udec from_sdp e (AwaitCall k) = on_connection k (\<lambda>c. (await_connected c, c)) e"
| "endpoint_step lib udec from_sdp e (AwaitTimeout k) = on_connection k await_timeout e"
| "endpoint_step lib udec from_sdp e (SendData k data ty) = send_call lib udec from_sdp k data ty e"
| "endpoint_step lib udec from_sdp e (CloseConnection k err) = close_call lib udec from_sdp k err e"

section \<open>Behaviours of every run\<close>

text \<open>The calls that only look at a connection.\<close>

definition connection_call :: "(connection \<Rightarrow> outcome \<times> connection) \<Rightarrow> bool" where
  "connection_call f \<longleftrightarrow> f = recv \<or> f = anext \<or> f = (\<lambda>c. (await_connected c, c)) \<or> f = await_timeout"

fun is_returned :: "outcome \<Rightarrow> bool" where
  "is_returned (Returned data) = True"
| "is_returned _ = False"

text \<open>
  A relation between states and outcomes that the atomic steps of an endpoint have: each callback
  of the engine, each call on a connection, and what does not concern connections. It then
  holds of every event and of every run.
\<close>

locale endpoint_behaviour = behaviour R
  for R :: "('a, 'c) endpoint \<Rightarrow> 'a endpoint_effect list \<times> ('a, 'c) endpoint \<Rightarrow> bool" +
  assumes effect: "R e (run_transport_effect ids e x)"
    and call: "connection_call f \<Longrightarrow> R e (on_connection k f e)"
    and quiet: "R e ([], e\<lparr>e_transport := t\<rparr>)" "R e ([], e\<lparr>closing := ks\<rparr>)"
    and outcome: "\<not> is_returned r \<Longrightarrow> R e ([EOutcome k r], e)"
begin

lemma drive: "R e (drive lib udec from_sdp ev e)"
proof -
  obtain out t where t: "transport_step lib udec from_sdp (e_transport e) ev = (out, t)" by fastforce
  let ?r = "run_out (run_transport_effect (\<lambda>i. cid (session_at i (t_manager t)))) (e\<lparr>e_transport := t\<rparr>) out"
  have "R (e\<lparr>e_transport := t\<rparr>) ?r" by (rule run) (rule effect)
  then have "R e ([] @ fst ?r, snd ?r)" by (intro chain [OF quiet(1)]) simp
  then show ?thesis by (simp add: drive_def t)
qed

lemma outcomes: "list_all (\<lambda>x. \<exists>k r. x = EOutcome k r \<and> \<not> is_returned r) xs \<Longrightarrow> R e (xs, e)"
proof (induction xs)
  case (Cons x xs)
  then obtain k r where x: "x = EOutcome k r" "\<not> is_returned r" "R e (xs, e)" by auto
  from chain [OF outcome [OF x(2), of e k] x(3)] x(1) show ?case by simp
qed (simp add: still)

lemma send: "R e (send_call lib udec from_sdp k data ty e)"
proof (cases "k < length (conn_store e)")
  case True
  obtain r s where r: "conn_send data ty (conn_store e ! k)
      (session_at (conn_session (conn_store e ! k)) (t_manager (e_transport e))) = (r, s)" by fastforce
  then have "\<not> is_returned r"
    by (auto simp: conn_send_def raise_closed_def split: if_splits sum.splits)
  then have "R e1 ([EOutcome k r], e1)" for e1 by (rule outcome)
  then show ?thesis
    using True r chain [of e "fst (drive lib udec from_sdp ev e)" "snd (drive lib udec from_sdp ev e)" for ev] drive
    by (simp add: send_call_def Let_def split_beta)
qed (simp add: send_call_def still)

lemma closes: "R e (close_call lib udec from_sdp k err e)"
proof -
  have "R e (fst r @ [], (snd r)\<lparr>closing := ks\<rparr>)" if "R e r" for r ks
    using chain [of e "fst r" "snd r", OF _ quiet(2)] that by simp
  then show ?thesis using drive by (auto simp: close_call_def Let_def split_beta still)
qed

lemma closed: "R e (session_closed lib udec from_sdp i e)"
proof -
  let ?ks = "close_continues i e" and ?r = "drive lib udec from_sdp (TSessionClosed i) e"
  let ?e2 = "(snd ?r)\<lparr>closing := filter (\<lambda>k. k \<notin> set ?ks) (closing (snd ?r))\<rparr>"
  let ?done = "map (\<lambda>k. EOutcome k Finished) ?ks" and ?r2 = "drive lib udec from_sdp TAclose ?e2"
  have "R e (fst ?r @ [], ?e2)" by (rule chain [OF _ quiet(2)]) (simp add: drive)
  then have first: "R e (fst ?r, ?e2)" by simp
  have ends: "R e1 (?done, e1)" for e1 by (rule outcomes) (simp add: list_all_iff)
  have "R e (fst ?r @ ?done, ?e2)" by (rule chain [OF first ends])
  moreover have "R e (fst ?r @ fst ?r2 @ ?done, snd ?r2)"
    by (rule chain [OF first], rule chain [OF _ ends]) (simp add: drive)
  ultimately show ?thesis by (simp add: session_closed_def Let_def split_beta)
qed

lemma step: "R e (endpoint_step lib udec from_sdp e ev)"
  by (cases ev) (simp_all add: drive closed send closes call connection_call_def)

lemma steps: "R e (run_out (endpoint_step lib udec from_sdp) e es)"
  by (rule run) (rule step)

end

section \<open>The invariant\<close>

definition live_conn :: "connection \<Rightarrow> bool" where
  "live_conn c \<longleftrightarrow> open_queue c \<and> \<not> conn_closed c \<and> closed_error c = None"

definition endpoint_inv :: "('a, 'c) endpoint \<Rightarrow> bool" where
  "endpoint_inv e \<longleftrightarrow> distinct (map fst (conns e)) \<and> distinct (map snd (conns e)) \<and>
     (\<forall>conn k. map_of (conns e) conn = Some k \<longrightarrow>
       k < length (conn_store e) \<and> live_conn (conn_store e ! k) \<and> pending_packets e conn = None) \<and>
     (\<forall>conn b. pending_packets e conn = Some b \<longrightarrow> length b \<le> MAX_PENDING_PACKETS) \<and>
     list_all (\<lambda>k. k < length (conn_store e)) (incoming e)"

lemma new_endpoint_inv: "endpoint_inv (new_endpoint t)"
  by (simp add: endpoint_inv_def new_endpoint_def)

lemma live_conn_simps [simp]:
  "live_conn (new_connection i owns)" "live_conn (mark_connected c) = live_conn c"
  "live_conn (enqueue data c) = live_conn c" "live_conn (c\<lparr>connected := f\<rparr>) = live_conn c"
  by (simp_all add: live_conn_def, simp_all add: new_connection_def mark_connected_def enqueue_def open_queue_def)

lemma live_puts [simp]: "live_conn (foldl (\<lambda>c data. enqueue data c) c ps) = live_conn c"
  by (induction ps arbitrary: c) simp_all

lemma recv_live: "live_conn c \<Longrightarrow> live_conn (snd (recv c))"
  using recv_open [of c] by (auto simp: live_conn_def split: list.split)

lemma call_live: "connection_call f \<Longrightarrow> live_conn c \<Longrightarrow> live_conn (snd (f c))"
  using recv_live [of c]
  by (auto simp: connection_call_def anext_def await_timeout_def split: outcome.split prod.splits)

lemma update_conn_simps [simp]:
  "conns (update_conn k f e) = conns e" "pending_packets (update_conn k f e) = pending_packets e"
  "incoming (update_conn k f e) = incoming e" "length (conn_store (update_conn k f e)) = length (conn_store e)"
  "j \<noteq> k \<Longrightarrow> conn_store (update_conn k f e) ! j = conn_store e ! j"
  "k < length (conn_store e) \<Longrightarrow> conn_store (update_conn k f e) ! k = f (conn_store e ! k)"
  "pending_of_id conn (update_conn k f e) = pending_of_id conn e"
  by (simp_all add: update_conn_def pending_of_id_def)

text \<open>The invariant of one entry of the dictionary.\<close>

definition entry_live :: "('a, 'c) endpoint \<Rightarrow> int \<Rightarrow> nat \<Rightarrow> bool" where
  "entry_live e conn k \<longleftrightarrow>
     k < length (conn_store e) \<and> live_conn (conn_store e ! k) \<and> pending_packets e conn = None"

lemma endpoint_inv_iff:
  "endpoint_inv e \<longleftrightarrow> distinct (map fst (conns e)) \<and> distinct (map snd (conns e)) \<and>
     (\<forall>conn k. map_of (conns e) conn = Some k \<longrightarrow> entry_live e conn k) \<and>
     (\<forall>conn b. pending_packets e conn = Some b \<longrightarrow> length b \<le> MAX_PENDING_PACKETS) \<and>
     list_all (\<lambda>k. k < length (conn_store e)) (incoming e)"
  by (simp add: endpoint_inv_def entry_live_def)

lemma distinct_snd_update:
  "v \<notin> snd ` set al \<Longrightarrow> distinct (map snd al) \<Longrightarrow> distinct (map snd (AList.update k v al))"
  by (induction al) (auto dest: in_update)

lemma distinct_snd_delete: "distinct (map snd al) \<Longrightarrow> distinct (map snd (AList.delete k al))"
  by (simp add: AList.delete_eq distinct_map_filter)

lemma endpoint_inv_inject:
  assumes "endpoint_inv e" and "map_of (conns e) conn = Some k" and "map_of (conns e) conn' = Some k"
  shows "conn = conn'"
proof -
  have "inj_on snd (set (conns e))" using assms(1) by (simp add: endpoint_inv_def distinct_map)
  moreover have "(conn, k) \<in> set (conns e)" "(conn', k) \<in> set (conns e)"
    using assms(2,3) by (simp_all add: map_of_SomeD)
  ultimately have "(conn, k) = (conn', k)" by (intro inj_onD [of snd]) simp_all
  then show ?thesis by simp
qed

lemma endpoint_inv_entry:
  "endpoint_inv e \<Longrightarrow> map_of (conns e) conn = Some k \<Longrightarrow> entry_live e conn k"
  by (simp add: endpoint_inv_iff)

lemma update_conn_inv:
  assumes "endpoint_inv e" and "live_conn (conn_store e ! k) \<Longrightarrow> live_conn (f (conn_store e ! k))"
  shows "endpoint_inv (update_conn k f e)"
proof -
  have "entry_live e conn j \<Longrightarrow> entry_live (update_conn k f e) conn j" for conn j
    using assms(2) by (cases "j = k") (auto simp: entry_live_def)
  with assms(1) show ?thesis by (simp add: endpoint_inv_iff)
qed

lemma register_conns:
  "map_of (conns (register i conn owns e)) c =
     (if c = conn then Some (length (conn_store e)) else map_of (conns e) c)"
  by (simp add: register_def Let_def update_conv')

lemma register_conn_inv:
  assumes "endpoint_inv e"
  shows "endpoint_inv (register i conn owns e)"
proof -
  let ?e = "register i conn owns e"
  note entry = endpoint_inv_entry [OF assms]
  have new: "entry_live ?e conn (length (conn_store e))" by (simp add: entry_live_def register_def Let_def)
  have old: "entry_live e c k \<Longrightarrow> entry_live ?e c k" for c k
    by (simp add: entry_live_def register_def Let_def nth_append)
  have "length (conn_store e) \<notin> snd ` set (conns e)"
  proof
    assume "length (conn_store e) \<in> snd ` set (conns e)"
    then obtain c where "(c, length (conn_store e)) \<in> set (conns e)" by auto
    then have "map_of (conns e) c = Some (length (conn_store e))"
      using assms by (simp add: endpoint_inv_def)
    then show False using entry by (auto simp: entry_live_def)
  qed
  then have "distinct (map fst (conns ?e))" "distinct (map snd (conns ?e))"
    using assms by (simp_all add: register_def Let_def AList.distinct_update distinct_snd_update endpoint_inv_def)
  moreover have "map_of (conns ?e) c = Some k \<Longrightarrow> entry_live ?e c k" for c k
    using new old entry by (auto simp: register_conns split: if_splits)
  moreover have "pending_packets ?e c = Some b \<Longrightarrow> length b \<le> MAX_PENDING_PACKETS" for c b
    using assms by (auto simp: register_def Let_def endpoint_inv_def split: if_splits)
  moreover have "list_all (\<lambda>k. k < length (conn_store ?e)) (incoming ?e)"
    using assms by (auto simp: register_def Let_def list_all_iff endpoint_inv_def)
  ultimately show ?thesis unfolding endpoint_inv_iff by blast
qed

lemma delete_inv: "endpoint_inv e \<Longrightarrow> endpoint_inv (e\<lparr>conns := AList.delete conn (conns e)\<rparr>)"
  by (simp add: endpoint_inv_def AList.distinct_delete distinct_snd_delete delete_conv')

lemma on_session_open_inv: "endpoint_inv e \<Longrightarrow> endpoint_inv (on_session_open i conn e)"
proof (cases "map_of (conns e) conn")
  case None
  assume "endpoint_inv e"
  then have "endpoint_inv (register i conn False e)" by (rule register_conn_inv)
  moreover have "length (conn_store e) < length (conn_store (register i conn False e))"
    by (simp add: register_def Let_def)
  ultimately have "endpoint_inv ((register i conn False e)\<lparr>incoming :=
      incoming (register i conn False e) @ [length (conn_store e)]\<rparr>)"
    by (simp add: endpoint_inv_def)
  then show ?thesis using None
    by (simp add: on_session_open_def Let_def) (rule update_conn_inv, assumption, simp)
qed (simp add: on_session_open_def update_conn_inv)

lemma on_session_close_inv:
  assumes "endpoint_inv e"
  shows "endpoint_inv (snd (on_session_close conn err e))"
proof (cases "map_of (conns e) conn")
  case (Some k)
  let ?e = "e\<lparr>conns := AList.delete conn (conns e)\<rparr>"
  have gone: "map_of (conns ?e) c \<noteq> Some k" for c
  proof
    assume "map_of (conns ?e) c = Some k"
    then have "c \<noteq> conn" "map_of (conns e) c = Some k" by (auto simp: delete_conv' split: if_splits)
    then show False using endpoint_inv_inject [OF assms Some, of c] by simp
  qed
  have inv: "endpoint_inv ?e" by (rule delete_inv [OF assms])
  have "entry_live (update_conn k f ?e) c j" if j: "map_of (conns ?e) c = Some j" for c j f
  proof -
    have "entry_live ?e c j" using inv j by (rule endpoint_inv_entry)
    moreover have "j \<noteq> k" using gone j by auto
    ultimately show ?thesis by (simp add: entry_live_def)
  qed
  then have "endpoint_inv (update_conn k f ?e)" for f
    using inv unfolding endpoint_inv_iff by simp
  then show ?thesis using Some by (simp add: on_session_close_def Let_def)
qed (simp add: on_session_close_def assms)

lemma on_packet_inv:
  assumes "endpoint_inv e"
  shows "endpoint_inv (on_packet conn data e)"
proof (cases "map_of (conns e) conn")
  case None
  have "length (pending_of_id conn e) \<le> MAX_PENDING_PACKETS"
    using assms by (auto simp: pending_of_id_def endpoint_inv_def split: option.split)
  then show ?thesis using assms None by (auto simp: on_packet_def Let_def endpoint_inv_def)
qed (simp add: on_packet_def update_conn_inv assms)

lemma notice_inv: "endpoint_inv e \<Longrightarrow> endpoint_inv (snd (endpoint_notice ids e n))"
  by (cases n) (simp_all add: on_session_open_inv on_session_close_inv on_packet_inv register_conn_inv split_beta)

lemma effect_inv: "endpoint_inv e \<Longrightarrow> endpoint_inv (snd (run_transport_effect ids e x))"
  using notice_inv [of e]
  by (cases x) (auto simp: split_beta Let_def split: option.split, simp add: on_host_discovered_def endpoint_inv_def)

lemma on_connection_eq:
  "on_connection k f e =
     (if k < length (conn_store e)
      then ([EOutcome k (fst (f (conn_store e ! k)))], update_conn k (\<lambda>c. snd (f c)) e) else ([], e))"
  by (simp add: on_connection_def split_beta update_conn_def Let_def)

lemma call_inv: "connection_call f \<Longrightarrow> endpoint_inv e \<Longrightarrow> endpoint_inv (snd (on_connection k f e))"
  by (simp add: on_connection_eq update_conn_inv call_live)

lemma quiet_inv [simp]:
  "endpoint_inv (e\<lparr>e_transport := t\<rparr>) = endpoint_inv e" "endpoint_inv (e\<lparr>closing := ks\<rparr>) = endpoint_inv e"
  by (simp_all add: endpoint_inv_def)

interpretation invariant: endpoint_behaviour "\<lambda>e r. endpoint_inv e \<longrightarrow> endpoint_inv (snd r)"
  by unfold_locales (auto simp: effect_inv call_inv)

section \<open>What a run has told a connection\<close>

definition packets_for :: "int \<Rightarrow> 'a endpoint_effect list \<Rightarrow> bytes list" where
  "packets_for conn out =
     List.map_filter (\<lambda>x. case x of ECallback c (SessionPacket i data) \<Rightarrow> if c = conn then Some data else None
                          | _ \<Rightarrow> None) out"

definition returned :: "nat \<Rightarrow> 'a endpoint_effect list \<Rightarrow> bytes list" where
  "returned k out =
     List.map_filter (\<lambda>x. case x of EOutcome j (Returned data) \<Rightarrow> if j = k then Some data else None | _ \<Rightarrow> None) out"

definition called :: "int \<Rightarrow> (mgr_effect \<Rightarrow> bool) \<Rightarrow> 'a endpoint_effect list \<Rightarrow> bool" where
  "called conn P out \<longleftrightarrow> list_ex (\<lambda>x. case x of ECallback c n \<Rightarrow> c = conn \<and> P n | _ \<Rightarrow> False) out"

fun starting :: "mgr_effect \<Rightarrow> bool" where
  "starting (SessionOpen i) = True"
| "starting (ConnectReturns i) = True"
| "starting _ = False"

fun leaving :: "mgr_effect \<Rightarrow> bool" where
  "leaving (SessionClose i err) = True"
| "leaving (ConnectReturns i) = True"
| "leaving _ = False"

lemma trace_simps [simp]:
  "packets_for conn [] = []" "packets_for conn (a @ b) = packets_for conn a @ packets_for conn b"
  "packets_for conn (EWire d x # out) = packets_for conn out"
  "packets_for conn (EOutcome k r # out) = packets_for conn out"
  "packets_for conn (ECallbackRaises y # out) = packets_for conn out"
  "packets_for conn (ECallback c n # out) =
     (case n of SessionPacket i data \<Rightarrow> if c = conn then [data] else [] | _ \<Rightarrow> []) @ packets_for conn out"
  "returned k [] = []" "returned k (a @ b) = returned k a @ returned k b"
  "returned k (EWire d x # out) = returned k out" "returned k (ECallbackRaises y # out) = returned k out"
  "returned k (ECallback c n # out) = returned k out"
  "returned k (EOutcome j r # out) =
     (case r of Returned data \<Rightarrow> if j = k then [data] else [] | _ \<Rightarrow> []) @ returned k out"
  "\<not> called conn P []" "called conn P (a @ b) \<longleftrightarrow> called conn P a \<or> called conn P b"
  "called conn P (EWire d x # out) = called conn P out" "called conn P (EOutcome k r # out) = called conn P out"
  "called conn P (ECallbackRaises y # out) = called conn P out"
  "called conn P (ECallback c n # out) \<longleftrightarrow> c = conn \<and> P n \<or> called conn P out"
  by (simp_all add: packets_for_def returned_def called_def map_filter_def split: mgr_effect.split outcome.split)

section \<open>What a notice leaves alone\<close>

definition same_queue :: "connection \<Rightarrow> connection \<Rightarrow> bool" where
  "same_queue c c' \<longleftrightarrow> recv_queue c' = recv_queue c \<and> closed_error c' = closed_error c"

lemma same_queue_simps [simp]: "same_queue c c" "same_queue c (mark_connected c)"
  by (simp_all add: same_queue_def mark_connected_def)

lemma same_queued: "same_queue c c' \<Longrightarrow> queued c' = queued c"
  by (simp add: same_queue_def queued_def)

lemma update_conn_nth:
  "k < length (conn_store e) \<Longrightarrow>
   conn_store (update_conn j f e) ! k = (if j = k then f (conn_store e ! k) else conn_store e ! k)"
  by (simp add: update_conn_def)

lemma register_store:
  "k < length (conn_store e) \<Longrightarrow> conn_store (register i conn owns e) ! k = conn_store e ! k"
  "length (conn_store (register i conn owns e)) = Suc (length (conn_store e))"
  by (simp_all add: register_def Let_def nth_append)

lemma open_store:
  assumes "k < length (conn_store e)"
  shows "same_queue (conn_store e ! k) (conn_store (on_session_open i conn e) ! k)"
    and "k < length (conn_store (on_session_open i conn e))"
  using assms by (auto simp: on_session_open_def Let_def register_store update_conn_nth split: option.split)

lemma open_conns:
  "map_of (conns (on_session_open i conn e)) c =
     (if c = conn \<and> map_of (conns e) conn = None then Some (length (conn_store e)) else map_of (conns e) c)"
  by (auto simp: on_session_open_def Let_def register_conns split: option.split)

lemma close_store:
  "map_of (conns e) conn \<noteq> Some k \<Longrightarrow> k < length (conn_store e) \<Longrightarrow>
   conn_store (snd (on_session_close conn err e)) ! k = conn_store e ! k"
  "length (conn_store (snd (on_session_close conn err e))) = length (conn_store e)"
  by (auto simp: on_session_close_def Let_def update_conn_nth split: option.split)

lemma close_conns:
  "map_of (conns (snd (on_session_close conn err e))) c = (if c = conn then None else map_of (conns e) c)"
  by (auto simp: on_session_close_def Let_def delete_conv' split: option.split)

lemma packet_store:
  "map_of (conns e) conn \<noteq> Some k \<Longrightarrow> k < length (conn_store e) \<Longrightarrow>
   conn_store (on_packet conn data e) ! k = conn_store e ! k"
  "length (conn_store (on_packet conn data e)) = length (conn_store e)"
  "conns (on_packet conn data e) = conns e"
  by (auto simp: on_packet_def Let_def update_conn_nth split: option.split)

lemma call_queued:
  assumes "connection_call f" and "open_queue c"
  shows "(case fst (f c) of Returned data \<Rightarrow> [data] | _ \<Rightarrow> []) @ queued (snd (f c)) = queued c"
proof -
  have r: "(case fst (recv c) of Returned data \<Rightarrow> [data] | _ \<Rightarrow> []) @ queued (snd (recv c)) = queued c"
    using recv_open(1) [OF assms(2)] by (simp split: list.split)
  moreover have "anext c = recv c" using recv_open(1) [OF assms(2)] by (simp add: anext_def split: list.split)
  ultimately show ?thesis
    using assms(1) by (auto simp: connection_call_def await_connected_def await_timeout_def split: future.split)
qed

section \<open>Packets while a connection is registered\<close>

definition flows :: "int \<Rightarrow> nat \<Rightarrow> ('a, 'c) endpoint \<Rightarrow> 'a endpoint_effect list \<times> ('a, 'c) endpoint \<Rightarrow> bool" where
  "flows conn k e r \<longleftrightarrow> (endpoint_inv e \<longrightarrow> map_of (conns e) conn = Some k \<longrightarrow> \<not> called conn leaving (fst r) \<longrightarrow>
     endpoint_inv (snd r) \<and> map_of (conns (snd r)) conn = Some k \<and>
     returned k (fst r) @ queued (conn_store (snd r) ! k) = queued (conn_store e ! k) @ packets_for conn (fst r))"

lemma notice_flows:
  assumes "endpoint_inv e" and "map_of (conns e) conn = Some k" and "\<not> (ids i = conn \<and> leaving n)"
    and "session_of n = Some i"
  shows "map_of (conns (snd (endpoint_notice ids e n))) conn = Some k \<and>
    queued (conn_store (snd (endpoint_notice ids e n)) ! k) =
      queued (conn_store e ! k) @ (case n of SessionPacket j data \<Rightarrow> if ids i = conn then [data] else [] | _ \<Rightarrow> []) \<and>
    returned k (fst (endpoint_notice ids e n)) = [] \<and> packets_for conn (fst (endpoint_notice ids e n)) = []"
proof -
  have k: "k < length (conn_store e)" using endpoint_inv_entry [OF assms(1,2)] by (simp add: entry_live_def)
  show ?thesis
  proof (cases n)
    case (SessionOpen j)
    then show ?thesis using assms k same_queued [OF open_store(1) [OF k, of j "ids j"]]
      by (auto simp: open_conns)
  next
    case (SessionClose j err)
    then have "ids j \<noteq> conn" using assms(3,4) by simp
    moreover have "map_of (conns e) (ids j) \<noteq> Some k"
      using endpoint_inv_inject [OF assms(1,2)] \<open>ids j \<noteq> conn\<close> by blast
    ultimately show ?thesis using SessionClose assms(2) k
      by (simp add: close_conns close_store split_beta split: option.split)
  next
    case (SessionPacket j data)
    show ?thesis
    proof (cases "ids j = conn")
      case True
      then show ?thesis using SessionPacket assms(2,4) k by (simp add: on_packet_def update_conn_nth)
    next
      case False
      then have "map_of (conns e) (ids j) \<noteq> Some k" using endpoint_inv_inject [OF assms(1,2)] by blast
      then show ?thesis using False SessionPacket assms(2,4) k by (simp add: packet_store)
    qed
  next
    case (ConnectReturns j)
    then show ?thesis using assms k by (simp add: register_conns register_store)
  qed (use assms(4) in simp_all)
qed

interpretation flows: endpoint_behaviour "flows conn k"
proof
  fix e :: "('a, 'c) endpoint" and ids x
  show "flows conn k e (run_transport_effect ids e x)"
  proof (cases x)
    case (Notice n)
    show ?thesis
    proof (cases "session_of n")
      case (Some i)
      then show ?thesis using Notice notice_flows [of e conn k ids i n] notice_inv [of e ids n]
        by (auto simp: flows_def split_beta Let_def)
    qed (simp add: Notice flows_def)
  qed (simp_all add: flows_def on_host_discovered_def endpoint_inv_def)
next
  fix f and e :: "('a, 'c) endpoint" and j
  assume f: "connection_call f"
  show "flows conn k e (on_connection j f e)"
  proof (cases "j < length (conn_store e)")
    case True
    show ?thesis
    proof (cases "j = k")
      case same: True
      then show ?thesis
        using call_inv [OF f, of e j] call_queued [OF f, of "conn_store e ! k"] endpoint_inv_entry [of e conn k] True
        by (auto simp: flows_def on_connection_eq update_conn_nth entry_live_def live_conn_def split: outcome.splits)
    next
      case False
      then show ?thesis using call_inv [OF f, of e j] endpoint_inv_entry [of e conn k] True
        by (auto simp: flows_def on_connection_eq update_conn_nth entry_live_def split: outcome.split)
    qed
  qed (simp add: flows_def on_connection_eq)
next
  fix r and e :: "('a, 'c) endpoint" and j
  assume "\<not> is_returned r"
  then show "flows conn k e ([EOutcome j r], e)" by (cases r) (simp_all add: flows_def)
next
  fix e :: "('a, 'c) endpoint" and os s1 os' s2
  assume "flows conn k e (os, s1)" "flows conn k s1 (os', s2)"
  then show "flows conn k e (os @ os', s2)" by (auto simp: flows_def)
qed (simp_all add: flows_def)

section \<open>Packets before there is a connection\<close>

definition buffers :: "int \<Rightarrow> ('a, 'c) endpoint \<Rightarrow> 'a endpoint_effect list \<times> ('a, 'c) endpoint \<Rightarrow> bool" where
  "buffers conn e r \<longleftrightarrow> (endpoint_inv e \<longrightarrow> map_of (conns e) conn = None \<longrightarrow> \<not> called conn starting (fst r) \<longrightarrow>
     endpoint_inv (snd r) \<and> map_of (conns (snd r)) conn = None \<and>
     pending_of_id conn (snd r) =
       take MAX_PENDING_PACKETS (pending_of_id conn e @ packets_for conn (fst r)))"

lemma pending_bound: "endpoint_inv e \<Longrightarrow> length (pending_of_id conn e) \<le> MAX_PENDING_PACKETS"
  by (auto simp: pending_of_id_def endpoint_inv_def split: option.split)

lemma take_take_append: "take n (take n xs @ ys) = take n (xs @ ys)"
  by (cases "n \<le> length xs") simp_all

lemma packet_buffered:
  "endpoint_inv e \<Longrightarrow> map_of (conns e) conn = None \<Longrightarrow>
   pending_of_id conn (on_packet conn data e) = take MAX_PENDING_PACKETS (pending_of_id conn e @ [data])"
  using pending_bound [of e conn] by (simp add: on_packet_def pending_of_id_def Let_def MAX_PENDING_PACKETS_def)

lemma pending_others:
  "c \<noteq> conn \<Longrightarrow> pending_of_id c (register i conn owns e) = pending_of_id c e"
  "c \<noteq> conn \<Longrightarrow> pending_of_id c (on_session_open i conn e) = pending_of_id c e"
  "pending_of_id c (snd (on_session_close conn err e)) = pending_of_id c e"
  "c \<noteq> conn \<Longrightarrow> pending_of_id c (on_packet conn data e) = pending_of_id c e"
  by (auto simp: register_def on_session_open_def on_session_close_def on_packet_def pending_of_id_def Let_def
      update_conn_def split: option.split)

lemma notice_buffers:
  assumes "endpoint_inv e" and "map_of (conns e) conn = None" and "\<not> (ids i = conn \<and> starting n)"
    and "session_of n = Some i"
  shows "map_of (conns (snd (endpoint_notice ids e n))) conn = None \<and>
    pending_of_id conn (snd (endpoint_notice ids e n)) = take MAX_PENDING_PACKETS (pending_of_id conn e @
      (case n of SessionPacket j data \<Rightarrow> if ids i = conn then [data] else [] | _ \<Rightarrow> [])) \<and>
    packets_for conn (fst (endpoint_notice ids e n)) = []"
proof -
  have keep: "take MAX_PENDING_PACKETS (pending_of_id conn e) = pending_of_id conn e"
    using pending_bound [OF assms(1), of conn] by simp
  show ?thesis
  proof (cases n)
    case (SessionPacket j data)
    then show ?thesis using assms keep
      by (cases "ids j = conn") (simp_all add: packet_buffered packet_store pending_others)
  qed (use assms keep in \<open>auto simp: open_conns close_conns register_conns pending_others split_beta split: option.split\<close>)
qed

interpretation buffers: endpoint_behaviour "buffers conn"
proof
  fix e :: "('a, 'c) endpoint" and ids x
  show "buffers conn e (run_transport_effect ids e x)"
  proof (cases x)
    case (Notice n)
    show ?thesis
    proof (cases "session_of n")
      case (Some i)
      then show ?thesis using Notice notice_buffers [of e conn ids i n] notice_inv [of e ids n]
        by (auto simp: buffers_def split_beta Let_def)
    qed (use pending_bound [of e conn] in \<open>simp add: Notice buffers_def\<close>)
  qed (use pending_bound [of e conn] in
      \<open>simp_all add: buffers_def on_host_discovered_def endpoint_inv_def pending_of_id_def\<close>)
next
  fix f and e :: "('a, 'c) endpoint" and j
  assume f: "connection_call f"
  show "buffers conn e (on_connection j f e)"
    using call_inv [OF f, of e j] pending_bound [of e conn] by (auto simp: buffers_def on_connection_eq)
next
  fix e :: "('a, 'c) endpoint" and os s1 os' s2
  assume "buffers conn e (os, s1)" "buffers conn s1 (os', s2)"
  then show "buffers conn e (os @ os', s2)"
    by (auto simp: buffers_def take_take_append simp del: take_append)
next
  fix e :: "('a, 'c) endpoint" and t ks and r j
  have p: "pending_of_id conn (e\<lparr>e_transport := t\<rparr>) = pending_of_id conn e"
    "pending_of_id conn (e\<lparr>closing := ks\<rparr>) = pending_of_id conn e" by (simp_all add: pending_of_id_def)
  show "buffers conn e ([], e\<lparr>e_transport := t\<rparr>)" "buffers conn e ([], e\<lparr>closing := ks\<rparr>)"
    using pending_bound [of e conn] by (simp_all add: buffers_def p)
  show "buffers conn e ([EOutcome j r], e)" "buffers conn e ([], e)"
    using pending_bound [of e conn] by (simp_all add: buffers_def)
qed

section \<open>After the close\<close>

text \<open>A connection that the endpoint has forgotten: only the application changes it now.\<close>

definition closed_conn :: "session_error \<Rightarrow> bytes list \<Rightarrow> connection \<Rightarrow> bool" where
  "closed_conn err ps c \<longleftrightarrow> recv_queue c = map Packet ps @ [ClosedMark] \<and> conn_closed c \<and> closed_error c = Some (Known err)"

definition forgotten :: "nat \<Rightarrow> ('a, 'c) endpoint \<Rightarrow> bool" where
  "forgotten k e \<longleftrightarrow> endpoint_inv e \<and> k < length (conn_store e) \<and> (\<forall>conn. map_of (conns e) conn \<noteq> Some k)"

definition drains :: "nat \<Rightarrow> session_error \<Rightarrow> ('a, 'c) endpoint \<Rightarrow> 'a endpoint_effect list \<times> ('a, 'c) endpoint \<Rightarrow> bool" where
  "drains k err e r \<longleftrightarrow> (\<forall>ps. forgotten k e \<longrightarrow> closed_conn err ps (conn_store e ! k) \<longrightarrow>
     forgotten k (snd r) \<and>
     (\<exists>ps'. closed_conn err ps' (conn_store (snd r) ! k) \<and> returned k (fst r) @ ps' = ps))"

lemma notice_forgotten:
  assumes "forgotten k e"
  shows "forgotten k (snd (endpoint_notice ids e n)) \<and>
    same_queue (conn_store e ! k) (conn_store (snd (endpoint_notice ids e n)) ! k) \<and>
    conn_closed (conn_store (snd (endpoint_notice ids e n)) ! k) = conn_closed (conn_store e ! k) \<and>
    returned k (fst (endpoint_notice ids e n)) = []"
proof -
  have k: "k < length (conn_store e)" "map_of (conns e) c \<noteq> Some k" "endpoint_inv e" for c
    using assms by (simp_all add: forgotten_def)
  have mark: "conn_closed (mark_connected c) = conn_closed c" for c by (simp add: mark_connected_def)
  have inv: "endpoint_inv (snd (endpoint_notice ids e n))" using k(3) by (rule notice_inv)
  show ?thesis
  proof (cases n)
    case (SessionOpen i)
    have "conn_closed (conn_store (on_session_open i (ids i) e) ! k) = conn_closed (conn_store e ! k)"
      using k(1) by (auto simp: on_session_open_def Let_def register_store update_conn_nth mark split: option.split)
    then show ?thesis using SessionOpen k inv open_store [OF k(1)] by (auto simp: forgotten_def open_conns)
  next
    case (SessionClose i err)
    then show ?thesis using k inv
      by (auto simp: forgotten_def close_conns close_store split_beta split: option.split)
  next
    case (SessionPacket i data)
    then show ?thesis using k inv by (simp add: forgotten_def packet_store)
  next
    case (ConnectReturns i)
    then show ?thesis using k inv by (auto simp: forgotten_def register_conns register_store)
  qed (use k inv in \<open>simp_all add: forgotten_def\<close>)
qed

lemma closed_call:
  assumes "connection_call f" and "closed_conn err ps c"
  shows "\<exists>ps'. closed_conn err ps' (snd (f c)) \<and> (case fst (f c) of Returned data \<Rightarrow> [data] | _ \<Rightarrow> []) @ ps' = ps"
proof -
  have c: "recv_queue c = map Packet ps @ [ClosedMark]" "closed_error c = Some (Known err)"
    using assms(2) by (simp_all add: closed_conn_def)
  have told: "raise_closed c = ClosedExn (Known err)" by (rule raise_closed_known [OF c(2)])
  have r: "recv c = (case ps of [] \<Rightarrow> (ClosedExn (Known err), c\<lparr>recv_queue := [ClosedMark]\<rparr>)
      | b # ps' \<Rightarrow> (Returned b, c\<lparr>recv_queue := map Packet ps' @ [ClosedMark]\<rparr>))"
    using c(1) by (simp add: recv_def told Let_def split: list.split)
  have recv: "\<exists>ps'. closed_conn err ps' (snd (recv c)) \<and> (case fst (recv c) of Returned data \<Rightarrow> [data] | _ \<Rightarrow> []) @ ps' = ps"
    using assms(2) by (simp add: r closed_conn_def split: list.split)
  moreover have "snd (anext c) = snd (recv c) \<and> (case fst (anext c) of Returned data \<Rightarrow> [data] | _ \<Rightarrow> []) =
      (case fst (recv c) of Returned data \<Rightarrow> [data] | _ \<Rightarrow> [])"
    by (simp add: anext_def split: prod.split outcome.split)
  moreover have "closed_conn err ps (snd (await_timeout c))"
    using assms(2) by (simp add: await_timeout_def closed_conn_def)
  ultimately show ?thesis using assms
    by (auto simp: connection_call_def await_connected_def await_timeout_def split: future.split)
qed

lemma same_closed:
  "same_queue c c' \<Longrightarrow> conn_closed c' = conn_closed c \<Longrightarrow> closed_conn err ps c' = closed_conn err ps c"
  by (auto simp: same_queue_def closed_conn_def)

interpretation drains: endpoint_behaviour "drains k err"
proof
  fix e :: "('a, 'c) endpoint" and ids x
  show "drains k err e (run_transport_effect ids e x)"
  proof (cases x)
    case (Notice n)
    show ?thesis
    proof (cases "session_of n")
      case (Some i)
      then show ?thesis using Notice notice_forgotten [of k e ids n] same_closed
        by (auto simp: drains_def split_beta Let_def)
    qed (simp add: Notice drains_def)
  qed (simp_all add: drains_def on_host_discovered_def forgotten_def endpoint_inv_def)
next
  fix f and e :: "('a, 'c) endpoint" and j
  assume f: "connection_call f"
  have "forgotten k e \<Longrightarrow> forgotten k (snd (on_connection j f e))"
    using call_inv [OF f, of e j] by (auto simp: forgotten_def on_connection_eq)
  then show "drains k err e (on_connection j f e)"
    using closed_call [OF f, of err _ "conn_store e ! k"]
    by (cases "j = k") (auto simp: drains_def on_connection_eq update_conn_nth forgotten_def split: outcome.split)
next
  fix r and e :: "('a, 'c) endpoint" and j
  assume "\<not> is_returned r"
  then show "drains k err e ([EOutcome j r], e)" by (cases r) (simp_all add: drains_def)
next
  fix e :: "('a, 'c) endpoint" and os s1 os' s2
  assume "drains k err e (os, s1)" "drains k err s1 (os', s2)"
  then show "drains k err e (os @ os', s2)" by (fastforce simp: drains_def)
qed (simp_all add: drains_def forgotten_def)

section \<open>A close that nobody is told of\<close>

definition waiting_conn :: "connection \<Rightarrow> bool" where
  "waiting_conn c \<longleftrightarrow> connected c = Pending \<and> open_queue c \<and> \<not> conn_closed c"

definition timed_out :: "nat \<Rightarrow> 'a endpoint_effect list \<Rightarrow> bool" where
  "timed_out k out \<longleftrightarrow> EOutcome k (FailedExn (Known E_NEGOTIATION_TIMEOUT_WAITING_FOR_RESPONSE)) \<in> set out"

definition hangs :: "nat \<Rightarrow> ('a, 'c) endpoint \<Rightarrow> 'a endpoint_effect list \<times> ('a, 'c) endpoint \<Rightarrow> bool" where
  "hangs k e r \<longleftrightarrow> (forgotten k e \<longrightarrow> waiting_conn (conn_store e ! k) \<longrightarrow> \<not> timed_out k (fst r) \<longrightarrow>
     forgotten k (snd r) \<and> waiting_conn (conn_store (snd r) ! k))"

lemma notice_hangs:
  assumes "forgotten k e"
  shows "conn_store (snd (endpoint_notice ids e n)) ! k = conn_store e ! k"
proof -
  have k: "k < length (conn_store e)" "map_of (conns e) c \<noteq> Some k" for c
    using assms by (simp_all add: forgotten_def)
  then show ?thesis
    by (cases n) (auto simp: on_session_open_def Let_def register_store update_conn_nth close_store packet_store
      split_beta split: option.split)
qed

interpretation hangs: endpoint_behaviour "hangs k"
proof
  fix e :: "('a, 'c) endpoint" and ids x
  show "hangs k e (run_transport_effect ids e x)"
  proof (cases x)
    case (Notice n)
    show ?thesis
    proof (cases "session_of n")
      case (Some i)
      then show ?thesis using Notice notice_forgotten [of k e ids n] notice_hangs [of k e ids n]
        by (auto simp: hangs_def split_beta Let_def)
    qed (simp add: Notice hangs_def)
  qed (simp_all add: hangs_def on_host_discovered_def forgotten_def endpoint_inv_def)
next
  fix f and e :: "('a, 'c) endpoint" and j
  assume f: "connection_call f"
  have "forgotten k e \<Longrightarrow> forgotten k (snd (on_connection j f e))"
    using call_inv [OF f, of e j] by (auto simp: forgotten_def on_connection_eq)
  moreover have "waiting_conn c \<Longrightarrow> fst (f c) \<noteq> FailedExn (Known E_NEGOTIATION_TIMEOUT_WAITING_FOR_RESPONSE) \<Longrightarrow>
      waiting_conn (snd (f c))" for c
    using f recv_open [of c]
    by (auto simp: connection_call_def waiting_conn_def await_timeout_def anext_def split: list.splits)
  ultimately show "hangs k e (on_connection j f e)"
    by (cases "j = k") (auto simp: hangs_def timed_out_def on_connection_eq update_conn_nth forgotten_def)
qed (auto simp: hangs_def timed_out_def forgotten_def)

section \<open>Reachable endpoints\<close>

definition endpoint_reachable ::
    "crypto_lib \<Rightarrow> (nat \<Rightarrow> nat option) \<Rightarrow> (pystr \<Rightarrow> 'c option) \<Rightarrow> ('a, 'c) endpoint \<Rightarrow> bool" where
  "endpoint_reachable lib udec from_sdp e \<longleftrightarrow>
     (\<exists>t es. fresh_transport t \<and> e = snd (run_out (endpoint_step lib udec from_sdp) (new_endpoint t) es))"

lemma endpoint_reachable_inv: "endpoint_reachable lib udec from_sdp e \<Longrightarrow> endpoint_inv e"
  using invariant.steps new_endpoint_inv by (fastforce simp: endpoint_reachable_def)

text \<open>The first steps of a dialer: \<open>connect\<close> starts a session, and returns when its offer is out.\<close>

lemma after_start_log:
  "\<exists>xs. log (after_offer udec KStart raw s) = log s @ map Signal xs"
  by (auto simp: after_offer_def split_beta arm_timeout_def cancel_timeout_def send_candidates_def Let_def
      comp_def intro!: exI [of _ "serialize_signaling (ConnectRequest (cid s) (fst (strip_candidates (local_sdp udec (pc s) raw)))) #
        map (\<lambda>c. serialize_signaling (CandidateAdd (cid s) c)) (snd (strip_candidates (local_sdp udec (pc s) raw)))"])

lemma callbacks_signals:
  "foldl (session_callback i r c) m (map Signal xs) = m\<lparr>mgr_log := mgr_log m @ map (SendSignal r) xs\<rparr>"
  by (induction xs arbitrary: m) simp_all

lemma dialing_manager:
  fixes udec from_sdp raw r bits a b c d
  defines "m1 \<equiv> mgr_connect udec from_sdp r (new_connection_id bits) (new_manager a b c d)"
  shows "mgr_log m1 = []" and "\<exists>xs. mgr_log (manager_step udec from_sdp m1 (MgrSession 0 (Resume 0 raw))) =
     map (SendSignal r) xs @ [ConnectReturns 0]"
    and "cid (session_at 0 (manager_step udec from_sdp m1 (MgrSession 0 (Resume 0 raw)))) = new_connection_id bits"
proof -
  show l: "mgr_log m1 = []"
    by (simp add: m1_def mgr_connect_def Let_def step_session_def put_session_def create_session_def session_at_def
       new_manager_def new_task_def create_offer_def new_session_def)
  have m1: "store m1 = [(r, new_task (create_offer KStart (new_session (new_connection_id bits) True True True True d)))]"
    "waiting m1 = [MConnect 0 0]"
    by (simp_all add: m1_def mgr_connect_def Let_def step_session_def put_session_def create_session_def session_at_def
       new_manager_def new_task_def create_offer_def new_session_def)
  let ?s = "session_at 0 m1"
  have s: "?s = new_task (create_offer KStart (new_session (new_connection_id bits) True True True True d))"
    by (simp add: session_at_def m1)
  have t: "task_at 0 ?s = Some (FrCreateOffer KStart)" "log ?s = []" "tasks ?s = [Some (FrCreateOffer KStart)]"
    by (simp_all add: s task_at_def new_task_def create_offer_def new_session_def)
  define s2 where "s2 = session_step udec from_sdp ?s (Resume 0 raw)"
  have s2: "s2 = set_task 0 (None, after_offer udec KStart raw ?s)" by (simp add: s2_def t)
  obtain xs where "log (after_offer udec KStart raw ?s) = map Signal xs"
    using after_start_log [of udec raw ?s] t(2) by auto
  then have xs: "log s2 = map Signal xs" by (simp add: s2 set_task_def)
  have over: "task_at 0 s2 = None" by (simp add: s2 set_task_def task_at_def)
  have id: "cid s2 = new_connection_id bits"
    by (simp add: s2 set_task_def s new_task_def create_offer_def new_session_def after_offer_def
        send_candidates_def arm_timeout_def cancel_timeout_def split_beta Let_def)
  have m2: "step_session udec from_sdp 0 (Resume 0 raw) m1 =
      m1\<lparr>store := [(r, s2)], mgr_log := map (SendSignal r) xs\<rparr>"
    by (simp add: step_session_def s2_def [symmetric] put_session_def t(2) xs callbacks_signals m1 l
        del: session_step.simps)
  have "manager_step udec from_sdp m1 (MgrSession 0 (Resume 0 raw)) =
      m1\<lparr>store := [(r, s2)], waiting := [], mgr_log := map (SendSignal r) xs @ [ConnectReturns 0]\<rparr>"
    using t(1) over
    by (simp add: session_event_step_def Let_def m2 task_over_def wake_def session_at_def m1)
  then show "\<exists>xs. mgr_log (manager_step udec from_sdp m1 (MgrSession 0 (Resume 0 raw))) =
       map (SendSignal r) xs @ [ConnectReturns 0]"
    and "cid (session_at 0 (manager_step udec from_sdp m1 (MgrSession 0 (Resume 0 raw)))) = new_connection_id bits"
    using id by (auto simp: session_at_def)
qed

definition only_raises :: "'a transport_effect list \<Rightarrow> bool" where
  "only_raises out \<longleftrightarrow> (\<forall>x \<in> set out. \<exists>y. x = SignalRaises y)"

lemma unbound_signals:
  "\<not> transport (t_lan t) \<Longrightarrow>
   snd (run_out (run_mgr_effect lib) t (map (SendSignal r) xs)) = t \<and>
   only_raises (fst (run_out (run_mgr_effect lib) t (map (SendSignal r) xs)))"
proof (induction xs)
  case (Cons x xs)
  have "send_signal lib r x (t_lan t) = Inr [] \<or> (\<exists>y. send_signal lib r x (t_lan t) = Inl y)"
    using Cons.prems by (cases "utf8_encode x") (auto simp: send_signal_def send_packet_def)
  with Cons show ?case by (auto simp: split_beta Let_def only_raises_def)
qed (simp add: only_raises_def)

lemma raises_keep: "only_raises out \<Longrightarrow> snd (run_out (run_transport_effect ids) e out) = e"
  by (induction out) (auto simp: only_raises_def split_beta Let_def)

text \<open>An endpoint whose socket is not bound has started to dial.\<close>

lemma dialing_endpoint:
  fixes t :: "('a, 'c) transport" and from_sdp :: "pystr \<Rightarrow> 'c option"
  assumes "fresh_transport t"
  shows "\<exists>e :: ('a, 'c) endpoint. endpoint_reachable lib udec from_sdp e \<and> conns e = [(new_connection_id bits, 0)] \<and>
    conn_store e = [new_connection 0 True] \<and> pending_packets e = Map.empty"
proof -
  let ?step = "endpoint_step lib udec from_sdp"
  obtain a b c d where t: "t_manager t = new_manager a b c d" "\<not> transport (t_lan t)"
    using assms by (auto simp: fresh_transport_def new_transport_def new_lan_def rbind_eq_Inr split: if_splits)
  define m1 where "m1 = mgr_connect udec from_sdp unset (new_connection_id bits) (new_manager a b c d)"
  define m2 where "m2 = manager_step udec from_sdp m1 (MgrSession 0 (Resume 0 []))"
  note m = dialing_manager(1) [where udec = udec and from_sdp = from_sdp and r = unset and bits = bits
      and a = a and b = b and c = c and d = d, folded m1_def]
    dialing_manager(2,3) [where udec = udec and from_sdp = from_sdp and r = unset and bits = bits and raw = "[]"
      and a = a and b = b and c = c and d = d, folded m1_def, folded m2_def]
  obtain xs where xs: "mgr_log m2 = map (SendSignal unset) xs @ [ConnectReturns 0]" using m(2) by blast
  let ?t1 = "t\<lparr>t_manager := m1\<rparr>" and ?t2 = "t\<lparr>t_manager := m2\<rparr>"
  have "mgr_log (new_manager a b c d) = []" by (simp add: new_manager_def)
  then have "transport_step lib udec from_sdp t (TConnect unset bits) = ([], ?t1)"
    by (simp add: transport_connect_def manager_call_def t(1) m1_def [symmetric] m(1) Let_def)
  then have first: "?step (new_endpoint t) (Drive (TConnect unset bits)) = ([], new_endpoint ?t1)"
    by (simp add: drive_def new_endpoint_def)
  have "\<not> transport (t_lan ?t2)" using t(2) by simp
  note sent = unbound_signals [OF this, of lib unset xs]
  obtain out t3 where "run_out (run_mgr_effect lib) ?t2 (map (SendSignal unset) xs) = (out, t3)" by fastforce
  with sent have out: "run_out (run_mgr_effect lib) ?t2 (map (SendSignal unset) xs) = (out, ?t2)" "only_raises out"
    by simp_all
  have ts: "transport_step lib udec from_sdp ?t1 (TSession 0 (Resume 0 [])) = (out @ [Notice (ConnectReturns 0)], ?t2)"
    by (simp add: manager_call_def m2_def [symmetric] m(1) xs run_out_append out(1) Let_def del: manager_step.simps)
  have e: "(new_endpoint ?t1)\<lparr>e_transport := ?t2\<rparr> = new_endpoint ?t2" "e_transport (new_endpoint ?t1) = ?t1"
    by (simp_all add: new_endpoint_def)
  have second: "snd (?step (new_endpoint ?t1) (Drive (TSession 0 (Resume 0 [])))) =
      register 0 (new_connection_id bits) True (new_endpoint ?t2)"
    using m(3) raises_keep [OF out(2), of "\<lambda>i. cid (session_at i m2)" "new_endpoint ?t2"]
    by (simp add: drive_def ts e run_out_append split_beta Let_def del: transport_step.simps)
  let ?e = "register 0 (new_connection_id bits) True (new_endpoint ?t2)"
  have "?e = snd (run_out ?step (new_endpoint t) [Drive (TConnect unset bits), Drive (TSession 0 (Resume 0 []))])"
    using first second by (simp add: split_beta Let_def del: endpoint_step.simps)
  then have "endpoint_reachable lib udec from_sdp ?e" using assms unfolding endpoint_reachable_def by blast
  then show ?thesis
    by (intro exI [of _ ?e]) (simp add: register_def Let_def new_endpoint_def pending_of_id_def)
qed

lemma some_transport: "\<exists>t :: (nat, nat) transport. fresh_transport t"
proof -
  have "\<exists>t. (new_transport (mk_p2p 1) 5 0 None True True True True False :: (nat, nat) transport result) = Inr t"
    by (simp add: new_transport_def mk_p2p_def new_lan_def new_envelope_def derive_key_def in_range_def)
  moreover have "in_range 8 (nid_value (mk_p2p 1))" by (simp add: mk_p2p_def in_range_def)
  ultimately show ?thesis unfolding fresh_transport_def by blast
qed

section \<open>Properties\<close>

text \<open>
  C14: no packet is lost, duplicated or reordered on its way to the application: while a connection
  is registered under its id, what its calls have returned, followed by what is still queued,
  is what was queued before, followed by the packets of its session, over all runs.
\<close>

theorem endpoint_stream:
  assumes "endpoint_reachable lib udec from_sdp e" and "map_of (conns e) conn = Some k"
    and "run_out (endpoint_step lib udec from_sdp) e es = (out, e')" and "\<not> called conn leaving out"
  shows "map_of (conns e') conn = Some k \<and>
    returned k out @ queued (conn_store e' ! k) = queued (conn_store e ! k) @ packets_for conn out"
  using flows.steps [of conn k e lib udec from_sdp es] endpoint_reachable_inv [OF assms(1)] assms(2-4)
  by (simp add: flows_def)

theorem endpoint_stream_witness:
  "\<exists>(e :: (nat, nat) endpoint) out e'. map_of (conns e) (new_connection_id 7) = Some 0 \<and>
    run_out (endpoint_step xor_lib (\<lambda>_. None) (\<lambda>_. None)) e [RecvCall 0] = (out, e') \<and>
    returned 0 out @ queued (conn_store e' ! 0) = packets_for (new_connection_id 7) out"
proof -
  obtain t :: "(nat, nat) transport" where "fresh_transport t" using some_transport by blast
  then obtain e :: "(nat, nat) endpoint" where e: "endpoint_reachable xor_lib (\<lambda>_. None) (\<lambda>_. None) e"
      "conns e = [(new_connection_id 7, 0)]" "conn_store e = [new_connection 0 True]" "pending_packets e = Map.empty"
    using dialing_endpoint by blast
  moreover have "run_out (endpoint_step xor_lib (\<lambda>_. None) (\<lambda>_. None)) e [RecvCall 0] =
      ([EOutcome 0 Waits], update_conn 0 (\<lambda>c. snd (recv c)) e)"
    by (simp add: on_connection_eq e(3)) (simp add: recv_def new_connection_def)
  moreover have "map_of (conns e) (new_connection_id 7) = Some 0" using e(2) by simp
  ultimately show ?thesis
    using endpoint_stream [OF e(1), of "new_connection_id 7" 0 "[RecvCall 0]" "[EOutcome 0 Waits]"]
    by (intro exI [of _ e]) (simp add: new_connection_def queued_def map_filter_simps)
qed

text \<open>
  C22: packets that arrive for an id before it has a connection wait in a buffer of at most 256;
  when the session opens, the new connection starts with them, is reported as incoming and
  as connected, and the buffer is gone.
\<close>

theorem endpoint_early_packets:
  assumes "endpoint_reachable lib udec from_sdp e" and "map_of (conns e) conn = None"
    and "run_out (endpoint_step lib udec from_sdp) e es = (out, e')" and "\<not> called conn starting out"
    and "e1 = on_session_open i conn e'" and "c = conn_store e1 ! length (conn_store e')"
  shows "incoming e1 = incoming e' @ [length (conn_store e')] \<and>
    map_of (conns e1) conn = Some (length (conn_store e')) \<and>
    recv_queue c = map Packet (take MAX_PENDING_PACKETS (pending_of_id conn e @ packets_for conn out)) \<and>
    connected c = Resolved \<and> pending_packets e1 conn = None"
proof -
  have e': "map_of (conns e') conn = None"
    "pending_of_id conn e' = take MAX_PENDING_PACKETS (pending_of_id conn e @ packets_for conn out)"
    using buffers.steps [of conn e lib udec from_sdp es] endpoint_reachable_inv [OF assms(1)] assms(2-4)
    by (simp_all add: buffers_def)
  have puts: "recv_queue (foldl (\<lambda>c data. enqueue data c) c ps) = recv_queue c @ map Packet ps \<and>
      connected (foldl (\<lambda>c data. enqueue data c) c ps) = connected c" for c ps
    by (induction ps arbitrary: c) (simp_all add: enqueue_def)
  have "length (conn_store e') < length (conn_store (register i conn False e'))" by (simp add: register_store)
  then show ?thesis
    using e' puts by (simp add: assms(5,6) on_session_open_def Let_def update_conn_nth register_conns register_store)
      (simp add: register_def Let_def mark_connected_def new_connection_def)
qed

theorem endpoint_early_packets_witness:
  "\<exists>e :: (nat, nat) endpoint. connected (conn_store (on_session_open 0 9 e) ! length (conn_store e)) = Resolved"
proof -
  obtain t :: "(nat, nat) transport" where "fresh_transport t" using some_transport by blast
  then have "endpoint_reachable xor_lib (\<lambda>_. None) (\<lambda>_. None) (new_endpoint t)"
    unfolding endpoint_reachable_def by (intro exI [of _ t] exI [of _ "[]"]) simp
  from endpoint_early_packets [OF this _ _ _ refl refl, of 9 "[]" "[]" "new_endpoint t" 0] show ?thesis
    by (intro exI [of _ "new_endpoint t"]) (simp add: new_endpoint_def)
qed



text \<open>
  C25: a close with an error code outside the enumeration is lost on a connection that is still
  connecting: the callback raises \<open>AttributeError\<close>, and from then on the connect waits for ever,
  unless it has a timeout of its own; \<open>recv\<close> and \<open>wait_closed\<close> are never told either.
\<close>

theorem unknown_close_hangs:
  assumes "endpoint_reachable lib udec from_sdp e" and "map_of (conns e) conn = Some k"
    and "connected (conn_store e ! k) = Pending" and "on_session_close conn (Unknown n) e = (x, e1)"
    and "run_out (endpoint_step lib udec from_sdp) e1 es = (out, e')" and "\<not> timed_out k out"
  shows "x = Some AttributeError \<and>
    fst (endpoint_step lib udec from_sdp e' (AwaitCall k)) = [EOutcome k Waits] \<and>
    wait_closed (conn_store e' ! k) = None \<and> async_for (conn_store e' ! k) = None"
proof -
  have inv: "endpoint_inv e" using assms(1) by (rule endpoint_reachable_inv)
  have live: "k < length (conn_store e)" "open_queue (conn_store e ! k)" "\<not> conn_closed (conn_store e ! k)"
    using endpoint_inv_entry [OF inv assms(2)] by (simp_all add: entry_live_def live_conn_def)
  have raises: "connection_failed (Unknown n) = Inl AttributeError"
    by (simp add: connection_failed_def exception_raises)
  have e1: "x = Some AttributeError" "waiting_conn (conn_store e1 ! k)"
    "length (conn_store e1) = length (conn_store e)" "endpoint_inv e1"
    using assms(2,3,4) live on_session_close_inv [OF inv, of conn "Unknown n"]
    by (auto simp: on_session_close_def Let_def mark_closed_def raises update_conn_nth waiting_conn_def open_queue_def)
  have "map_of (conns e1) c \<noteq> Some k" for c
    using close_conns [of conn "Unknown n" e c] assms(4) endpoint_inv_inject [OF inv assms(2), of c]
    by (auto split: if_splits)
  then have "forgotten k e1" using e1 live(1) by (simp add: forgotten_def)
  then have "forgotten k e'" "waiting_conn (conn_store e' ! k)"
    using hangs.steps [of k e1 lib udec from_sdp es] e1(2) assms(5,6) by (auto simp: hangs_def)
  with e1(1) show ?thesis
    by (simp add: on_connection_eq forgotten_def waiting_conn_def await_connected_def wait_closed_def async_for_open)
qed

theorem unknown_close_hangs_witness:
  "\<exists>(e :: (nat, nat) endpoint) x e1. on_session_close (new_connection_id 7) (Unknown 99) e = (x, e1) \<and>
    x = Some AttributeError \<and>
    fst (endpoint_step xor_lib (\<lambda>_. None) (\<lambda>_. None) e1 (AwaitCall 0)) = [EOutcome 0 Waits]"
proof -
  obtain t :: "(nat, nat) transport" where "fresh_transport t" using some_transport by blast
  then obtain e :: "(nat, nat) endpoint" where e: "endpoint_reachable xor_lib (\<lambda>_. None) (\<lambda>_. None) e"
      "conns e = [(new_connection_id 7, 0)]" "conn_store e = [new_connection 0 True]" "pending_packets e = Map.empty"
    using dialing_endpoint by blast
  obtain x e1 where r: "on_session_close (new_connection_id 7) (Unknown 99) e = (x, e1)" by fastforce
  moreover have "map_of (conns e) (new_connection_id 7) = Some 0" "connected (conn_store e ! 0) = Pending"
    using e(2,3) by (simp_all add: new_connection_def)
  ultimately show ?thesis
    using unknown_close_hangs [OF e(1) _ _ r, of 0 "[]" "[]" e1]
    by (intro exI [of _ e] exI [of _ x] exI [of _ e1]) (simp add: timed_out_def)
qed

text \<open>
  C26: packets outlive their session. If a session delivers a packet and closes before it has
  opened, the packet stays buffered under its connection id, and the next session that opens
  under that id, though another one, hands it to its application.
\<close>

theorem stale_packets:
  assumes "endpoint_reachable lib udec from_sdp e" and "map_of (conns e) conn = None"
    and "pending_packets e conn = None" and "ids i = conn" and "ids j = conn"
    and "run_out (run_transport_effect ids) e
      [Notice (SessionPacket i data), Notice (SessionClose i err), Notice (SessionOpen j)] = (out, e')"
    and "c = conn_store e' ! length (conn_store e)"
  shows "conn_session c = j \<and> connected c = Resolved \<and> recv_queue c = [Packet data]"
proof -
  have e': "e' = on_session_open j conn (on_packet conn data e)"
    using assms(2,4-6) by (auto simp: on_session_close_def packet_store Let_def)
  show ?thesis
    using assms(2,3) unfolding assms(7) e'
    by (simp add: on_session_open_def packet_store Let_def update_conn_nth register_store)
      (simp add: on_packet_def pending_of_id_def register_def Let_def mark_connected_def new_connection_def
        enqueue_def MAX_PENDING_PACKETS_def)
qed

theorem stale_packets_witness:
  "\<exists>e :: (nat, nat) endpoint. recv_queue (conn_store (snd (run_out (run_transport_effect (\<lambda>_. 9)) e
      [Notice (SessionPacket 0 [5]), Notice (SessionClose 0 (Known E_ICE)), Notice (SessionOpen 1)])) ! 0) = [Packet [5]]"
proof -
  obtain t :: "(nat, nat) transport" where "fresh_transport t" using some_transport by blast
  then have r: "endpoint_reachable xor_lib (\<lambda>_. None) (\<lambda>_. None) (new_endpoint t)"
    unfolding endpoint_reachable_def by (intro exI [of _ t] exI [of _ "[]"]) simp
  obtain out e' where o: "run_out (run_transport_effect (\<lambda>_. 9)) (new_endpoint t)
      [Notice (SessionPacket 0 [5]), Notice (SessionClose 0 (Known E_ICE)), Notice (SessionOpen 1)] = (out, e')"
    by fastforce
  have "map_of (conns (new_endpoint t)) 9 = None" "pending_packets (new_endpoint t) 9 = None"
    by (simp_all add: new_endpoint_def)
  from stale_packets [OF r this _ _ o refl] o show ?thesis
    by (intro exI [of _ "new_endpoint t"]) (simp add: new_endpoint_def del: run_out.simps)
qed

end
