(* ===== verification/Api.thy ===== *)
theory Api
  imports Endpoint "HOL-Library.Sublist"
begin

text \<open>
  The entry points of \<open>api.py\<close> over LAN: the coroutine \<open>connect\<close>, the generator \<open>discover\<close> and
  the class \<open>Server\<close>. Each owns an endpoint and is driven by its events.
\<close>

section \<open>connect\<close>

text \<open>
  Where the coroutine is: in \<open>endpoint.connect\<close> before or after the registration, at its end,
  or in the \<open>aclose\<close> of the \<open>except\<close> block, with what it will raise.
\<close>

datatype dial_phase = Dialing | Awaiting nat | Connected nat | Aborted outcome

record ('a, 'c) dial =
  d_endpoint :: "('a, 'c) endpoint"
  d_phase :: dial_phase

datatype 'a remote = RemoteId network_id | RemoteHost "'a discovered_host"

definition remote_network_id :: "'a remote \<Rightarrow> network_id" where
  "remote_network_id r = (case r of RemoteId nid \<Rightarrow> nid | RemoteHost h \<Rightarrow> host_id h)"

definition remember_remote :: "'a remote \<Rightarrow> 'a transport_event list" where
  "remember_remote r =
     (case r of RemoteId nid \<Rightarrow> [] | RemoteHost h \<Rightarrow> [TRememberPeer (host_id h) (host_address h)])"

text \<open>The \<open>except\<close> block: \<open>await endpoint.aclose()\<close>, then the raise again.\<close>

definition abort ::
    "crypto_lib \<Rightarrow> (nat \<Rightarrow> nat option) \<Rightarrow> (pystr \<Rightarrow> 'c option) \<Rightarrow> outcome \<Rightarrow> ('a, 'c) endpoint \<Rightarrow>
     'a endpoint_effect list \<times> ('a, 'c) dial" where
  "abort lib udec from_sdp r e =
     (let (out, e1) = drive lib udec from_sdp TAclose e in (out, \<lparr>d_endpoint = e1, d_phase = Aborted r\<rparr>))"

text \<open>\<open>_await_connected\<close>, whenever the future may have changed.\<close>

definition await_open ::
    "crypto_lib \<Rightarrow> (nat \<Rightarrow> nat option) \<Rightarrow> (pystr \<Rightarrow> 'c option) \<Rightarrow> nat \<Rightarrow> ('a, 'c) endpoint \<Rightarrow>
     'a endpoint_effect list \<times> ('a, 'c) dial" where
  "await_open lib udec from_sdp k e =
     (case await_connected (conn_store e ! k) of
        Waits \<Rightarrow> ([], \<lparr>d_endpoint = e, d_phase = Awaiting k\<rparr>)
      | Finished \<Rightarrow> ([], \<lparr>d_endpoint = e, d_phase = Connected k\<rparr>)
      | r \<Rightarrow> abort lib udec from_sdp r e)"

text \<open>\<open>is_dialing m\<close>: the manager's \<open>connect\<close> has neither returned nor raised.\<close>

definition is_dialing :: "'c manager \<Rightarrow> bool" where
  "is_dialing m \<longleftrightarrow> list_ex (\<lambda>f. case f of MConnect i t \<Rightarrow> True | _ \<Rightarrow> False) (waiting m)"

text \<open>The connection that \<open>endpoint.connect\<close> has registered: the one that owns its endpoint.\<close>

definition dialed :: "('a, 'c) endpoint \<Rightarrow> nat option" where
  "dialed e = List.find (\<lambda>k. owns_endpoint (conn_store e ! k)) [0..<length (conn_store e)]"

definition resume_dial ::
    "crypto_lib \<Rightarrow> (nat \<Rightarrow> nat option) \<Rightarrow> (pystr \<Rightarrow> 'c option) \<Rightarrow> outcome \<Rightarrow> dial_phase \<Rightarrow> ('a, 'c) endpoint \<Rightarrow>
     'a endpoint_effect list \<times> ('a, 'c) dial" where
  "resume_dial lib udec from_sdp raised ph e =
     (case ph of
        Dialing \<Rightarrow>
          (case dialed e of
             Some k \<Rightarrow> await_open lib udec from_sdp k e
           | None \<Rightarrow>
               if is_dialing (t_manager (e_transport e)) then ([], \<lparr>d_endpoint = e, d_phase = Dialing\<rparr>)
               else abort lib udec from_sdp raised e)
      | Awaiting k \<Rightarrow> await_open lib udec from_sdp k e
      | _ \<Rightarrow> ([], \<lparr>d_endpoint = e, d_phase = ph\<rparr>))"

datatype 'a dial_event =
    DEndpoint "'a endpoint_event" outcome    \<comment> \<open>and what aiortc raises, if it does\<close>
  | DTimeout                                 \<comment> \<open>the timeout of \<open>wait_for\<close>\<close>
  | DCancel

fun dial_step ::
    "crypto_lib \<Rightarrow> (nat \<Rightarrow> nat option) \<Rightarrow> (pystr \<Rightarrow> 'c option) \<Rightarrow> ('a, 'c) dial \<Rightarrow> 'a dial_event \<Rightarrow>
     'a endpoint_effect list \<times> ('a, 'c) dial" where
  "dial_step lib udec from_sdp d (DEndpoint ev raised) =
     (let (out, e) = endpoint_step lib udec from_sdp (d_endpoint d) ev;
          (out', d1) = resume_dial lib udec from_sdp raised (d_phase d) e
      in (out @ out', d1))"
| "dial_step lib udec from_sdp d DTimeout =
     (case d_phase d of
        Awaiting k \<Rightarrow>
          (let e = d_endpoint d; (r, c) = await_timeout (conn_store e ! k);
               (out, d1) = abort lib udec from_sdp r (update_conn k (\<lambda>_. c) e)
           in (EOutcome k r # out, d1))
      | _ \<Rightarrow> ([], d))"
| "dial_step lib udec from_sdp d DCancel =
     (case d_phase d of
        Dialing \<Rightarrow> abort lib udec from_sdp CancelledError (d_endpoint d)
      | Awaiting k \<Rightarrow>
          abort lib udec from_sdp CancelledError
            (update_conn k (\<lambda>c. if connected c = Pending then c\<lparr>connected := Cancelled\<rparr> else c) (d_endpoint d))
      | _ \<Rightarrow> ([], d))"

text \<open>
  The beginning: a transport for a local id (given or drawn at random), its socket, the address
  of a discovered host, and \<open>transport.connect\<close>.
\<close>

definition start_dial ::
    "crypto_lib \<Rightarrow> (nat \<Rightarrow> nat option) \<Rightarrow> (pystr \<Rightarrow> 'c option) \<Rightarrow> network_id option \<Rightarrow> 64 word \<Rightarrow> int \<Rightarrow> 'a \<Rightarrow>
     int \<Rightarrow> 'a remote \<Rightarrow> 64 word \<Rightarrow> bool \<Rightarrow> ('a endpoint_effect list \<times> ('a, 'c) dial) result" where
  "start_dial lib udec from_sdp lid id_bits application_id broadcast bound remote bits relay =
     rbind (case lid of Some nid \<Rightarrow> Inr nid | None \<Rightarrow> p2p (new_connection_id id_bits)) (\<lambda>local.
     rbind (new_transport local application_id broadcast None True True True True relay) (\<lambda>t.
       let (out, e) = run_out (\<lambda>e ev. drive lib udec from_sdp ev e) (new_endpoint t)
             ([TStart bound] @ remember_remote remote @ [TConnect (remote_network_id remote) bits])
       in Inr (out, \<lparr>d_endpoint = e, d_phase = Dialing\<rparr>)))"

section \<open>discover\<close>

text \<open>
  The loop of the generator. Round \<open>n\<close> reads the clock (\<open>clock n\<close>) and then waits for the queue:
  \<open>got n\<close> is the next host, or \<open>None\<close> if \<open>wait_for\<close> times out. The hosts that it yields:
\<close>

partial_function (option) discover_loop ::
    "int \<Rightarrow> (nat \<Rightarrow> int) \<Rightarrow> (nat \<Rightarrow> 'a discovered_host option) \<Rightarrow> nat \<Rightarrow> network_id list \<Rightarrow>
     'a discovered_host list option" where
  "discover_loop deadline clock got n seen =
     (let remaining = deadline - clock n in
      if remaining \<le> 0 then Some []
      else case got n of
        None \<Rightarrow> Some []
      | Some host \<Rightarrow>
          if host_id host \<in> set seen then discover_loop deadline clock got (Suc n) seen
          else Option.bind (discover_loop deadline clock got (Suc n) (host_id host # seen))
                 (\<lambda>rest. Some (host # rest)))"

section \<open>Server\<close>

datatype task_phase = Running | ClosingConnection

record ('a, 'c) server =
  s_endpoint :: "('a, 'c) endpoint"
  s_broadcast :: bool
  accept_task :: bool
  handler_tasks :: "(nat \<times> task_phase) list"
  s_closed :: bool

definition serve :: "('a, 'c) transport \<Rightarrow> bool \<Rightarrow> ('a, 'c) server" where
  "serve t broadcast =
     \<lparr>s_endpoint = new_endpoint t, s_broadcast = broadcast, accept_task = False, handler_tasks = [], s_closed = False\<rparr>"

definition server_start ::
    "crypto_lib \<Rightarrow> (nat \<Rightarrow> nat option) \<Rightarrow> (pystr \<Rightarrow> 'c option) \<Rightarrow> int \<Rightarrow> ('a, 'c) server \<Rightarrow>
     'a endpoint_effect list \<times> ('a, 'c) server" where
  "server_start lib udec from_sdp port s =
     (let (out, e) = run_out (\<lambda>e ev. drive lib udec from_sdp ev e) (s_endpoint s)
            (TStart port # (if s_broadcast s then [TStartBroadcasting] else []))
      in (out, s\<lparr>s_endpoint := e, accept_task := True\<rparr>))"

text \<open>One round of \<open>_accept_loop\<close>.\<close>

definition accept :: "('a, 'c) server \<Rightarrow> ('a, 'c) server" where
  "accept s =
     (if \<not> accept_task s then s
      else case incoming (s_endpoint s) of
          [] \<Rightarrow> s
        | k # ks \<Rightarrow> s\<lparr>s_endpoint := (s_endpoint s)\<lparr>incoming := ks\<rparr>, handler_tasks := handler_tasks s @ [(k, Running)]\<rparr>)"

text \<open>
  \<open>_run_handler\<close>: however the handler ends, the task closes the connection, and is discarded
  when the close is done.
\<close>

definition handler_ends ::
    "crypto_lib \<Rightarrow> (nat \<Rightarrow> nat option) \<Rightarrow> (pystr \<Rightarrow> 'c option) \<Rightarrow> nat \<Rightarrow> ('a, 'c) server \<Rightarrow>
     'a endpoint_effect list \<times> ('a, 'c) server" where
  "handler_ends lib udec from_sdp k s =
     (if (k, Running) \<in> set (handler_tasks s)
      then let (out, e) = close_call lib udec from_sdp k E_NONE (s_endpoint s)
           in (out, s\<lparr>s_endpoint := e,
                      handler_tasks := map (\<lambda>x. if x = (k, Running) then (k, ClosingConnection) else x) (handler_tasks s)\<rparr>)
      else ([], s))"

definition server_session_closed ::
    "crypto_lib \<Rightarrow> (nat \<Rightarrow> nat option) \<Rightarrow> (pystr \<Rightarrow> 'c option) \<Rightarrow> nat \<Rightarrow> ('a, 'c) server \<Rightarrow>
     'a endpoint_effect list \<times> ('a, 'c) server" where
  "server_session_closed lib udec from_sdp i s =
     (let ks = close_continues i (s_endpoint s);
          (out, e) = session_closed lib udec from_sdp i (s_endpoint s)
      in (out, s\<lparr>s_endpoint := e,
                 handler_tasks := filter (\<lambda>x. \<not> (snd x = ClosingConnection \<and> fst x \<in> set ks)) (handler_tasks s)\<rparr>))"

text \<open>
  \<open>aclose\<close>. A cancelled handler runs its \<open>finally\<close> at the next turn of the event loop, which is a
  later \<open>handler_ends\<close>.
\<close>

definition server_aclose ::
    "crypto_lib \<Rightarrow> (nat \<Rightarrow> nat option) \<Rightarrow> (pystr \<Rightarrow> 'c option) \<Rightarrow> ('a, 'c) server \<Rightarrow>
     'a endpoint_effect list \<times> ('a, 'c) server" where
  "server_aclose lib udec from_sdp s =
     (if s_closed s then ([], s)
      else let (out, e) = drive lib udec from_sdp TAclose (s_endpoint s)
           in (out, s\<lparr>s_closed := True, accept_task := False, s_endpoint := e\<rparr>))"

definition connections :: "('a, 'c) server \<Rightarrow> connection list" where
  "connections s = map (\<lambda>x. conn_store (s_endpoint s) ! snd x) (conns (s_endpoint s))"

datatype 'a server_event =
    SStart int | SAccept | SHandlerEnds nat | SAclose
  | SSessionClosed nat
  | SEndpoint "'a endpoint_event"          \<comment> \<open>what the engine and the handlers do\<close>

fun server_step ::
    "crypto_lib \<Rightarrow> (nat \<Rightarrow> nat option) \<Rightarrow> (pystr \<Rightarrow> 'c option) \<Rightarrow> ('a, 'c) server \<Rightarrow> 'a server_event \<Rightarrow>
     'a endpoint_effect list \<times> ('a, 'c) server" where
  "server_step lib udec from_sdp s (SStart port) = server_start lib udec from_sdp port s"
| "server_step lib udec from_sdp s SAccept = ([], accept s)"
| "server_step lib udec from_sdp s (SHandlerEnds k) = handler_ends lib udec from_sdp k s"
| "server_step lib udec from_sdp s SAclose = server_aclose lib udec from_sdp s"
| "server_step lib udec from_sdp s (SSessionClosed i) = server_session_closed lib udec from_sdp i s"
| "server_step lib udec from_sdp s (SEndpoint ev) =
     (let (out, e) = endpoint_step lib udec from_sdp (s_endpoint s) ev in (out, s\<lparr>s_endpoint := e\<rparr>))"

section \<open>A connection is settled once\<close>

definition settles :: "('a, 'c) endpoint \<Rightarrow> 'a endpoint_effect list \<times> ('a, 'c) endpoint \<Rightarrow> bool" where
  "settles e r \<longleftrightarrow> length (conn_store e) \<le> length (conn_store (snd r)) \<and>
     (\<forall>k < length (conn_store e).
       owns_endpoint (conn_store (snd r) ! k) = owns_endpoint (conn_store e ! k) \<and>
       (connected (conn_store e ! k) \<noteq> Pending \<longrightarrow>
        connected (conn_store (snd r) ! k) = connected (conn_store e ! k)))"

definition keeps_future :: "connection \<Rightarrow> connection \<Rightarrow> bool" where
  "keeps_future c c' \<longleftrightarrow> owns_endpoint c' = owns_endpoint c \<and> (connected c \<noteq> Pending \<longrightarrow> connected c' = connected c)"

lemma keeps_future_simps [simp]:
  "keeps_future c c" "keeps_future c (mark_connected c)" "keeps_future c (enqueue data c)"
  "keeps_future c (snd (mark_closed err c))"
  by (auto simp: keeps_future_def mark_connected_def enqueue_def mark_closed_def finish_close_def Let_def
      split: sum.split)

lemma recv_keeps: "keeps_future c (snd (recv c))"
  by (auto simp: recv_def keeps_future_def Let_def split: list.split recv_item.split)

lemma snd_anext [simp]: "snd (anext c) = snd (recv c)"
  by (simp add: anext_def split: prod.split outcome.split)

lemma call_keeps:
  assumes "connection_call f"
  shows "keeps_future c (snd (f c))"
proof -
  have "keeps_future c (snd (await_timeout c))" by (simp add: await_timeout_def keeps_future_def)
  with assms recv_keeps [of c] show ?thesis by (auto simp: connection_call_def)
qed

lemma update_settles:
  "(\<And>c. keeps_future c (f c)) \<Longrightarrow> settles e (out, update_conn k f e)"
  by (auto simp: settles_def update_conn_nth keeps_future_def)

lemma notice_settles: "settles e (endpoint_notice ids e n)"
proof (cases n)
  case (SessionOpen i)
  have "settles e ([], register i (ids i) False e)" by (simp add: settles_def register_store)
  moreover have "settles (register i (ids i) False e\<lparr>incoming := js\<rparr>)
      ([], update_conn k mark_connected (register i (ids i) False e\<lparr>incoming := js\<rparr>))" for k js
    by (rule update_settles) simp
  ultimately show ?thesis using update_settles [of mark_connected e "[]"] SessionOpen
    by (fastforce simp: on_session_open_def Let_def settles_def split: option.split)
next
  case (SessionClose i err)
  then show ?thesis
    using update_settles [of "\<lambda>c. snd (mark_closed err c)" "e\<lparr>conns := AList.delete (ids i) (conns e)\<rparr>"]
    by (auto simp: on_session_close_def Let_def settles_def split: option.split)
next
  case (SessionPacket i data)
  then show ?thesis using update_settles [of "enqueue data" e "[]"]
    by (auto simp: on_packet_def Let_def settles_def split: option.split)
qed (simp_all add: settles_def register_store)

interpretation settling: endpoint_behaviour settles
proof
  fix e :: "('a, 'c) endpoint" and ids x
  show "settles e (run_transport_effect ids e x)"
    using notice_settles [of e ids]
    by (cases x) (auto simp: settles_def split_beta Let_def on_host_discovered_def split: option.split)
next
  fix f and e :: "('a, 'c) endpoint" and k
  assume "connection_call f"
  then show "settles e (on_connection k f e)"
    by (auto simp: on_connection_eq call_keeps intro: update_settles) (simp add: settles_def)
next
  fix e :: "('a, 'c) endpoint" and os s1 os' s2
  assume "settles e (os, s1)" "settles s1 (os', s2)"
  then show "settles e (os @ os', s2)" by (fastforce simp: settles_def)
qed (simp_all add: settles_def)

section \<open>The runs of connect\<close>

definition phase_ok :: "('a, 'c) dial \<Rightarrow> bool" where
  "phase_ok d \<longleftrightarrow>
     (case d_phase d of
        Dialing \<Rightarrow> True
      | Awaiting k \<Rightarrow> k < length (conn_store (d_endpoint d)) \<and> owns_endpoint (conn_store (d_endpoint d) ! k)
      | Connected k \<Rightarrow> k < length (conn_store (d_endpoint d)) \<and> owns_endpoint (conn_store (d_endpoint d) ! k) \<and>
          connected (conn_store (d_endpoint d) ! k) = Resolved
      | Aborted r \<Rightarrow> True)"

definition settled_dial :: "('a, 'c) dial \<Rightarrow> bool" where
  "settled_dial d \<longleftrightarrow> (case d_phase d of Connected k \<Rightarrow> True | Aborted r \<Rightarrow> True | _ \<Rightarrow> False)"

lemma await_open_ok:
  "k < length (conn_store e) \<Longrightarrow> owns_endpoint (conn_store e ! k) \<Longrightarrow>
   phase_ok (snd (await_open lib udec from_sdp k e))"
  by (auto simp: await_open_def await_connected_def abort_def phase_ok_def split: future.split prod.split)

lemma dialed_Some: "dialed e = Some k \<Longrightarrow> k < length (conn_store e) \<and> owns_endpoint (conn_store e ! k)"
  by (auto simp: dialed_def find_Some_iff)

lemma abort_ok [simp]: "phase_ok (snd (abort lib udec from_sdp r e))" "settled_dial (snd (abort lib udec from_sdp r e))"
  by (simp_all add: abort_def phase_ok_def settled_dial_def split: prod.split)

lemma dial_step_ok:
  assumes "phase_ok d"
  shows "phase_ok (snd (dial_step lib udec from_sdp d ev))"
proof (cases ev)
  case (DEndpoint ev' raised)
  obtain out e where r: "endpoint_step lib udec from_sdp (d_endpoint d) ev' = (out, e)" by fastforce
  have st: "settles (d_endpoint d) (out, e)" using settling.step [of "d_endpoint d" lib udec from_sdp ev'] r by simp
  have "phase_ok (snd (resume_dial lib udec from_sdp raised (d_phase d) e))"
  proof (cases "d_phase d")
    case Dialing
    then show ?thesis using dialed_Some [of e] await_open_ok
      by (auto simp: resume_dial_def split: option.split) (simp add: phase_ok_def)
  next
    case (Awaiting k)
    then show ?thesis using assms st by (auto simp: resume_dial_def phase_ok_def settles_def intro!: await_open_ok [unfolded phase_ok_def])
  next
    case (Connected k)
    then show ?thesis using assms st by (auto simp: resume_dial_def phase_ok_def settles_def)
  qed (simp add: resume_dial_def phase_ok_def)
  then show ?thesis using r DEndpoint by (simp add: split_beta)
qed (use assms in \<open>auto simp: split_beta Let_def split: dial_phase.split\<close>)

lemma dial_step_settled:
  assumes "phase_ok d" and "settled_dial d"
  shows "d_phase (snd (dial_step lib udec from_sdp d ev)) = d_phase d"
  using assms(2) by (cases ev) (auto simp: settled_dial_def split_beta Let_def resume_dial_def split: dial_phase.splits)

interpretation dial_machine: absorbing_machine
  "\<lambda>d ev. snd (dial_step lib udec from_sdp d ev)" "\<lambda>d. d_phase d = Dialing" phase_ok settled_dial
  by unfold_locales (simp add: phase_ok_def, simp add: dial_step_ok,
      simp add: settled_dial_def dial_step_settled)

section \<open>The rounds of discover\<close>

text \<open>The loop stops in the first round that finds the deadline past or no host.\<close>

definition stops :: "int \<Rightarrow> (nat \<Rightarrow> int) \<Rightarrow> (nat \<Rightarrow> 'a discovered_host option) \<Rightarrow> nat \<Rightarrow> bool" where
  "stops deadline clock got n \<longleftrightarrow> deadline \<le> clock n \<or> got n = None"

fun firsts :: "network_id list \<Rightarrow> 'a discovered_host list \<Rightarrow> 'a discovered_host list" where
  "firsts seen [] = []"
| "firsts seen (h # hs) = (if host_id h \<in> set seen then firsts seen hs else h # firsts (host_id h # seen) hs)"

lemma discover_stop: "stops deadline clock got n \<Longrightarrow> discover_loop deadline clock got n seen = Some []"
  by (subst discover_loop.simps) (auto simp: stops_def Let_def split: option.split)

lemma discover_round:
  "\<not> stops deadline clock got n \<Longrightarrow> got n = Some h \<Longrightarrow>
   discover_loop deadline clock got n seen =
     (if host_id h \<in> set seen then discover_loop deadline clock got (Suc n) seen
      else map_option ((#) h) (discover_loop deadline clock got (Suc n) (host_id h # seen)))"
  by (subst discover_loop.simps)
    (auto simp: stops_def Let_def split: option.split Option.bind_split)

lemma discover_rounds:
  assumes "stops deadline clock got m" and "n \<le> m" and "\<And>i. i < m \<Longrightarrow> \<not> stops deadline clock got i"
  shows "discover_loop deadline clock got n seen = Some (firsts seen (map (\<lambda>i. the (got i)) [n..<m]))"
  using assms(2)
proof (induction "m - n" arbitrary: n seen)
  case 0
  then show ?case using assms(1) by (simp add: discover_stop)
next
  case (Suc d)
  then have n: "n < m" "d = m - Suc n" by simp_all
  then have run: "\<not> stops deadline clock got n" using assms(3) by simp
  then obtain h where h: "got n = Some h" by (auto simp: stops_def)
  have "discover_loop deadline clock got (Suc n) seen' = Some (firsts seen' (map (\<lambda>i. the (got i)) [Suc n..<m]))" for seen'
    using n by (intro Suc.hyps(1)) simp_all
  moreover have "[n..<m] = n # [Suc n..<m]" using n(1) by (rule upt_conv_Cons)
  ultimately show ?case using discover_round [OF run h, of seen] h by simp
qed

lemma discover_returns:
  assumes "discover_loop deadline clock got n seen = Some hs"
  shows "\<exists>i. stops deadline clock got i"
proof (rule discover_loop.raw_induct [OF _ assms])
  fix loop and d :: int and c and g :: "nat \<Rightarrow> 'a discovered_host option" and n seen hs
  assume IH: "\<And>d c g n seen hs. loop d c g n seen = Some hs \<Longrightarrow> \<exists>i. stops d c g i"
    and body: "(let remaining = d - c n in
      if remaining \<le> 0 then Some []
      else case g n of
        None \<Rightarrow> Some []
      | Some host \<Rightarrow>
          if host_id host \<in> set seen then loop d c g (Suc n) seen
          else Option.bind (loop d c g (Suc n) (host_id host # seen)) (\<lambda>rest. Some (host # rest))) = Some hs"
  show "\<exists>i. stops d c g i"
  proof (cases "stops d c g n")
    case False
    then obtain h where "g n = Some h" "\<not> d - c n \<le> 0" by (auto simp: stops_def)
    with body have "\<exists>seen' hs'. loop d c g (Suc n) seen' = Some hs'"
      by (auto simp: Let_def split: if_splits Option.bind_splits)
    then show ?thesis using IH by blast
  qed blast
qed

lemma firsts_spec:
  "distinct (map host_id (firsts seen hs)) \<and>
   host_id ` set (firsts seen hs) = host_id ` set hs - set seen \<and> subseq (firsts seen hs) hs"
proof (induction hs arbitrary: seen)
  case (Cons h hs)
  then show ?case using Cons [of seen] Cons [of "host_id h # seen"] by auto
qed simp

section \<open>The incoming connections of a server\<close>

definition lines_up :: "('a, 'c) endpoint \<Rightarrow> 'a endpoint_effect list \<times> ('a, 'c) endpoint \<Rightarrow> bool" where
  "lines_up e r \<longleftrightarrow> length (conn_store e) \<le> length (conn_store (snd r)) \<and>
     (\<exists>ks. incoming (snd r) = incoming e @ ks \<and> sorted_wrt (<) ks \<and>
       (\<forall>k \<in> set ks. length (conn_store e) \<le> k \<and> k < length (conn_store (snd r))))"

lemma notice_lines_up: "lines_up e (endpoint_notice ids e n)"
proof (cases n)
  case (SessionOpen i)
  have "incoming (register i (ids i) False e) = incoming e" by (simp add: register_def Let_def)
  then show ?thesis using SessionOpen
    by (auto simp: lines_up_def on_session_open_def Let_def register_store split: option.split)
qed (auto simp: lines_up_def on_session_close_def on_packet_def register_store Let_def register_def split_beta split: option.split)

interpretation lining: endpoint_behaviour lines_up
proof
  fix e :: "('a, 'c) endpoint" and ids x
  show "lines_up e (run_transport_effect ids e x)"
    using notice_lines_up [of e ids]
    by (cases x) (auto simp: lines_up_def split_beta Let_def on_host_discovered_def split: option.split)
next
  fix e :: "('a, 'c) endpoint" and os s1 os' s2
  assume a: "lines_up e (os, s1)" "lines_up s1 (os', s2)"
  then obtain ks ks' where k: "incoming s1 = incoming e @ ks" "sorted_wrt (<) ks"
      "\<forall>k \<in> set ks. length (conn_store e) \<le> k \<and> k < length (conn_store s1)"
    and k': "incoming s2 = incoming s1 @ ks'" "sorted_wrt (<) ks'"
      "\<forall>k \<in> set ks'. length (conn_store s1) \<le> k \<and> k < length (conn_store s2)"
    by (auto simp: lines_up_def)
  have le: "length (conn_store e) \<le> length (conn_store s1)" "length (conn_store s1) \<le> length (conn_store s2)"
    using a by (simp_all add: lines_up_def)
  have "sorted_wrt (<) (ks @ ks')" using k(2,3) k'(2,3) by (fastforce simp: sorted_wrt_append)
  moreover have "\<forall>k \<in> set (ks @ ks'). length (conn_store e) \<le> k \<and> k < length (conn_store s2)"
    using k(3) k'(3) le by fastforce
  ultimately show "lines_up e (os @ os', s2)" using k(1) k'(1) le by (auto simp: lines_up_def)
qed (auto simp: lines_up_def on_connection_eq)

text \<open>The connections that a run gives to the handler, in order.\<close>

definition accepted :: "('a, 'c) server \<Rightarrow> 'a server_event \<Rightarrow> nat list" where
  "accepted s ev = (case ev of SAccept \<Rightarrow> if accept_task s then take 1 (incoming (s_endpoint s)) else [] | _ \<Rightarrow> [])"

fun accepts ::
    "crypto_lib \<Rightarrow> (nat \<Rightarrow> nat option) \<Rightarrow> (pystr \<Rightarrow> 'c option) \<Rightarrow> ('a, 'c) server \<Rightarrow> 'a server_event list \<Rightarrow> nat list" where
  "accepts lib udec from_sdp s [] = []"
| "accepts lib udec from_sdp s (ev # es) =
     accepted s ev @ accepts lib udec from_sdp (snd (server_step lib udec from_sdp s ev)) es"

lemma server_lines_up:
  fixes s :: "('a, 'c) server" and lib udec from_sdp
  defines "s' ev \<equiv> snd (server_step lib udec from_sdp s ev)"
  shows "\<exists>ks. accepted s ev @ incoming (s_endpoint (s' ev)) = incoming (s_endpoint s) @ ks \<and> sorted_wrt (<) ks \<and>
      (\<forall>k \<in> set ks. length (conn_store (s_endpoint s)) \<le> k \<and> k < length (conn_store (s_endpoint (s' ev)))) \<and>
      length (conn_store (s_endpoint s)) \<le> length (conn_store (s_endpoint (s' ev)))"
proof (cases ev)
  case SAccept
  then show ?thesis
    by (intro exI [of _ "[]"]) (auto simp: s'_def accepted_def accept_def split: list.split)
next
  case (SStart port)
  have "lines_up e (run_out (\<lambda>e ev. drive lib udec from_sdp ev e) e evs)" for e :: "('a, 'c) endpoint" and evs
    by (rule lining.run) (rule lining.drive)
  from this [of "s_endpoint s" "TStart port # (if s_broadcast s then [TStartBroadcasting] else [])"] show ?thesis
    using SStart
    by (auto simp: s'_def accepted_def server_start_def lines_up_def split_beta Let_def simp del: run_out.simps)
next
  case (SHandlerEnds k)
  then show ?thesis using lining.closes [of "s_endpoint s" lib udec from_sdp k E_NONE]
    by (auto simp: s'_def accepted_def handler_ends_def lines_up_def split_beta Let_def)
next
  case SAclose
  then show ?thesis using lining.drive [of "s_endpoint s" lib udec from_sdp TAclose]
    by (auto simp: s'_def accepted_def server_aclose_def lines_up_def split_beta Let_def)
next
  case (SSessionClosed i)
  then show ?thesis using lining.closed [of "s_endpoint s" lib udec from_sdp i]
    by (auto simp: s'_def accepted_def server_session_closed_def lines_up_def split_beta Let_def)
next
  case (SEndpoint ev')
  then show ?thesis using lining.step [of "s_endpoint s" lib udec from_sdp ev']
    by (auto simp: s'_def accepted_def lines_up_def split_beta Let_def)
qed

lemma accepts_sorted:
  fixes s :: "('a, 'c) server"
  assumes "sorted_wrt (<) (old @ incoming (s_endpoint s))"
    and "\<forall>k \<in> set (old @ incoming (s_endpoint s)). k < length (conn_store (s_endpoint s))"
  shows "sorted_wrt (<) (old @ accepts lib udec from_sdp s es @
      incoming (s_endpoint (snd (run_out (server_step lib udec from_sdp) s es))))"
  using assms
proof (induction es arbitrary: s old)
  case (Cons ev es)
  let ?s = "snd (server_step lib udec from_sdp s ev)"
  obtain ks where ks: "accepted s ev @ incoming (s_endpoint ?s) = incoming (s_endpoint s) @ ks" "sorted_wrt (<) ks"
      "\<forall>k \<in> set ks. length (conn_store (s_endpoint s)) \<le> k \<and> k < length (conn_store (s_endpoint ?s))"
      "length (conn_store (s_endpoint s)) \<le> length (conn_store (s_endpoint ?s))"
    using server_lines_up [of s ev lib udec from_sdp] by blast
  have eq: "(old @ accepted s ev) @ incoming (s_endpoint ?s) = (old @ incoming (s_endpoint s)) @ ks"
    using ks(1) by simp
  have "sorted_wrt (<) ((old @ accepted s ev) @ incoming (s_endpoint ?s))"
    unfolding eq sorted_wrt_append [of _ _ ks]
    using Cons.prems ks(2,3) by (meson less_le_trans)
  moreover have "\<forall>k \<in> set ((old @ accepted s ev) @ incoming (s_endpoint ?s)). k < length (conn_store (s_endpoint ?s))"
    unfolding eq set_append [of _ ks] using Cons.prems(2) ks(3,4) by (meson UnE less_le_trans)
  ultimately show ?case using Cons.IH [of "old @ accepted s ev" ?s] by (simp add: split_beta Let_def)
qed simp

lemma closed_accepts:
  assumes "s_closed s" and "\<not> accept_task s" and "\<forall>port. SStart port \<notin> set es"
  shows "accepts lib udec from_sdp s es = [] \<and> s_closed (snd (run_out (server_step lib udec from_sdp) s es))"
  using assms
proof (induction es arbitrary: s)
  case (Cons ev es)
  have "s_closed (snd (server_step lib udec from_sdp s ev)) \<and> \<not> accept_task (snd (server_step lib udec from_sdp s ev))"
    using Cons.prems by (cases ev) (auto simp: accept_def handler_ends_def server_aclose_def server_session_closed_def split_beta Let_def)
  with Cons show ?case by (simp add: accepted_def split_beta Let_def split: server_event.split)
qed simp

section \<open>Properties\<close>



text \<open>
  C24: \<open>discover\<close> ends exactly if some round finds the deadline past or gets no host in time; it
  has then yielded every host identity that it was told, each once, at its first response, in
  the order of the responses.
\<close>

theorem discover_terminates:
  "((\<exists>hs. discover_loop deadline clock got 0 [] = Some hs) = (\<exists>n. stops deadline clock got n)) \<and>
   (\<forall>n. stops deadline clock got n \<longrightarrow> (\<forall>i < n. \<not> stops deadline clock got i) \<longrightarrow>
     (\<exists>hs. discover_loop deadline clock got 0 [] = Some hs \<and> distinct (map host_id hs) \<and>
       host_id ` set hs = (\<lambda>i. host_id (the (got i))) ` {..<n} \<and> subseq hs (map (\<lambda>i. the (got i)) [0..<n])))"
proof -
  have run: "discover_loop deadline clock got 0 [] = Some (firsts [] (map (\<lambda>i. the (got i)) [0..<n]))"
    if "stops deadline clock got n" "\<forall>i < n. \<not> stops deadline clock got i" for n
    using that by (intro discover_rounds) simp_all
  have "\<exists>hs. discover_loop deadline clock got 0 [] = Some hs" if stop: "\<exists>n. stops deadline clock got n"
  proof -
    obtain n where "stops deadline clock got n" "\<forall>i < n. \<not> stops deadline clock got i"
      using stop exists_least_iff [of "stops deadline clock got"] by auto
    from run [OF this] show ?thesis by (rule exI)
  qed
  moreover have "\<exists>hs. discover_loop deadline clock got 0 [] = Some hs \<and> distinct (map host_id hs) \<and>
      host_id ` set hs = (\<lambda>i. host_id (the (got i))) ` {..<n} \<and> subseq hs (map (\<lambda>i. the (got i)) [0..<n])"
    if "stops deadline clock got n" "\<forall>i < n. \<not> stops deadline clock got i" for n
  proof -
    let ?hs = "firsts [] (map (\<lambda>i. the (got i)) [0..<n])"
    have "host_id ` set ?hs = (\<lambda>i. host_id (the (got i))) ` {..<n}"
      using firsts_spec [of "[]" "map (\<lambda>i. the (got i)) [0..<n]"] by (simp add: image_image lessThan_atLeast0)
    then show ?thesis
      using run [OF that] firsts_spec [of "[]" "map (\<lambda>i. the (got i)) [0..<n]"] by (intro exI [of _ ?hs]) simp
  qed
  ultimately show ?thesis by (intro conjI iffI allI impI) (auto dest: discover_returns)
qed

theorem discover_terminates_witness:
  "\<exists>hs. discover_loop 10 int (\<lambda>n. Some \<lparr>host_id = mk_p2p (int n mod 2), host_advertisement = [], host_address = n\<rparr>)
     0 [] = Some hs \<and> host_id ` set hs = mk_p2p ` {0, 1}"
proof -
  let ?got = "\<lambda>n. Some \<lparr>host_id = mk_p2p (int n mod 2), host_advertisement = [], host_address = n\<rparr>"
  have "stops 10 int ?got 10" "\<forall>i < 10. \<not> stops 10 int ?got i" by (simp_all add: stops_def)
  with discover_terminates [of 10 int ?got] obtain hs where
    "discover_loop 10 int ?got 0 [] = Some hs" "host_id ` set hs = (\<lambda>i. mk_p2p (int i mod 2)) ` {..<10}"
    by auto
  moreover have "(\<lambda>i. int i mod 2) ` {..<10 :: nat} = {0, 1}"
    by code_simp
  ultimately show ?thesis by (metis image_image)
qed

text \<open>
  C23: a server gives each incoming connection to its handler once, in the order in which the
  sessions opened, whatever its handlers do; and after \<open>aclose\<close> it accepts nothing more.
\<close>

theorem server_accepts:
  fixes t :: "('a, 'c) transport"
  assumes "run_out (server_step lib udec from_sdp) (serve t broadcast) es = (out, s)"
  shows "sorted_wrt (<) (accepts lib udec from_sdp (serve t broadcast) es @ incoming (s_endpoint s)) \<and>
    (\<not> s_closed s \<longrightarrow> (\<forall>port. SStart port \<notin> set fs) \<longrightarrow>
      accepts lib udec from_sdp (snd (server_step lib udec from_sdp s SAclose)) fs = [])"
proof
  show "sorted_wrt (<) (accepts lib udec from_sdp (serve t broadcast) es @ incoming (s_endpoint s))"
    using accepts_sorted [of "[]" "serve t broadcast" lib udec from_sdp es] assms
    by (simp add: serve_def new_endpoint_def)
  let ?s = "snd (server_step lib udec from_sdp s SAclose)"
  have "s_closed ?s \<and> \<not> accept_task ?s" if "\<not> s_closed s"
    using that by (simp add: server_aclose_def split_beta Let_def)
  then show "\<not> s_closed s \<longrightarrow> (\<forall>port. SStart port \<notin> set fs) \<longrightarrow> accepts lib udec from_sdp ?s fs = []"
    using closed_accepts by blast
qed

theorem server_accepts_witness:
  "\<exists>t :: (nat, nat) transport.
     accepts xor_lib (\<lambda>_. None) (\<lambda>_. None) (snd (server_step xor_lib (\<lambda>_. None) (\<lambda>_. None) (serve t True) SAclose)) [SAccept, SAccept] = []"
proof -
  obtain t :: "(nat, nat) transport" where "fresh_transport t" using some_transport by blast
  have "run_out (server_step xor_lib (\<lambda>_. None) (\<lambda>_. None)) (serve t True) [] = ([], serve t True)" by simp
  from server_accepts [OF this, of "[SAccept, SAccept]"] show ?thesis
    by (intro exI [of _ t]) (simp add: serve_def)
qed

end
