(* ===== verification/Base64.thy ===== *)
theory Base64
  imports PyText
begin

text \<open>
  What \<open>identity.py\<close> uses of Python's \<open>base64\<close>: \<open>b64encode\<close>, \<open>b64decode(text, validate=True)\<close>,
  \<open>urlsafe_b64encode\<close> and \<open>urlsafe_b64decode\<close>, with the loop of \<open>binascii.a2b_base64\<close>, and the
  module's own \<open>_b64url\<close> and \<open>_unb64url\<close>. \<open>None\<close> is \<open>binascii.Error\<close> or \<open>ValueError\<close>.
\<close>

section \<open>Encoding\<close>

definition b64_char :: "nat \<Rightarrow> nat" where
  "b64_char v =
     (if v < 26 then 65 + v else if v < 52 then 71 + v else if v < 62 then v - 4 else if v = 62 then 43 else 47)"

fun b2a :: "nat list \<Rightarrow> pystr" where
  "b2a [] = []"
| "b2a [a] = [b64_char (a div 4), b64_char (a mod 4 * 16), 61, 61]"
| "b2a [a, b] = [b64_char (a div 4), b64_char (a mod 4 * 16 + b div 16), b64_char (b mod 16 * 4), 61]"
| "b2a (a # b # c # ds) =
     b64_char (a div 4) # b64_char (a mod 4 * 16 + b div 16) # b64_char (b mod 16 * 4 + c div 64)
       # b64_char (c mod 64) # b2a ds"

definition b64encode :: "bytes \<Rightarrow> pystr" where
  "b64encode data = b2a (map unat data)"

text \<open>The two translation tables of the URL-safe alphabet.\<close>

definition to_urlsafe :: "nat \<Rightarrow> nat" where
  "to_urlsafe c = (if c = 43 then 45 else if c = 47 then 95 else c)"

definition from_urlsafe :: "nat \<Rightarrow> nat" where
  "from_urlsafe c = (if c = 45 then 43 else if c = 95 then 47 else c)"

definition urlsafe_b64encode :: "bytes \<Rightarrow> pystr" where
  "urlsafe_b64encode data = map to_urlsafe (b64encode data)"

section \<open>Decoding\<close>

definition b64_value :: "nat \<Rightarrow> nat option" where
  "b64_value c =
     (if 65 \<le> c \<and> c \<le> 90 then Some (c - 65)
      else if 97 \<le> c \<and> c \<le> 122 then Some (c - 71)
      else if 48 \<le> c \<and> c \<le> 57 then Some (c + 4)
      else if c = 43 then Some 62 else if c = 47 then Some 63 else None)"

text \<open>
  The loop of \<open>a2b_base64\<close>: \<open>q\<close> is the position in the group of four, \<open>left\<close> the bits that are
  left over, \<open>pads\<close> the padding characters in a row and \<open>padded\<close> whether there was one. Outside
  the strict mode, foreign characters are skipped and complete padding ends the data.
\<close>

fun a2b :: "bool \<Rightarrow> nat \<Rightarrow> nat \<Rightarrow> nat \<Rightarrow> bool \<Rightarrow> pystr \<Rightarrow> nat list option" where
  "a2b strict q left pads padded [] = (if q \<noteq> 0 then None else Some [])"
| "a2b strict q left pads padded (c # cs) =
     (if c = 61 then
        if 2 \<le> q \<and> 4 \<le> q + Suc pads then (if strict \<and> cs \<noteq> [] then None else Some [])
        else a2b strict q left (if 2 \<le> q then Suc pads else pads) True cs
      else case b64_value c of
        None \<Rightarrow> if strict then None else a2b strict q left pads padded cs
      | Some v \<Rightarrow>
          if strict \<and> padded then None
          else if q = 0 then a2b strict 1 v 0 padded cs
          else if q = 1 then map_option ((#) (left * 4 + v div 16)) (a2b strict 2 (v mod 16) 0 padded cs)
          else if q = 2 then map_option ((#) (left * 16 + v div 4)) (a2b strict 3 (v mod 4) 0 padded cs)
          else map_option ((#) (left * 64 + v)) (a2b strict 0 0 0 padded cs))"

definition b64decode :: "bool \<Rightarrow> pystr \<Rightarrow> bytes option" where
  "b64decode strict text =
     (if \<not> is_ascii text then None
      else if strict \<and> text \<noteq> [] \<and> hd text = 61 then None
      else map_option (map of_nat) (a2b strict 0 0 0 False text))"

definition urlsafe_b64decode :: "pystr \<Rightarrow> bytes option" where
  "urlsafe_b64decode text = (if \<not> is_ascii text then None else b64decode False (map from_urlsafe text))"

section \<open>The functions of identity.py\<close>

text \<open>\<open>_b64url\<close> strips the padding, \<open>_unb64url\<close> puts it back: \<open>-len(text) % 4\<close> characters.\<close>

definition rstrip_char :: "nat \<Rightarrow> pystr \<Rightarrow> pystr" where
  "rstrip_char c s = rev (dropWhile (\<lambda>d. d = c) (rev s))"

definition b64url :: "bytes \<Rightarrow> pystr" where
  "b64url data = rstrip_char 61 (urlsafe_b64encode data)"

definition unb64url :: "pystr \<Rightarrow> bytes option" where
  "unb64url text = urlsafe_b64decode (text @ replicate (nat ((- int (length text)) mod 4)) 61)"

section \<open>Round trips\<close>

lemma b64_value_char [simp]: "v < 64 \<Longrightarrow> b64_value (b64_char v) = Some v"
  by (auto simp: b64_value_def b64_char_def)

definition b64_letter :: "nat \<Rightarrow> bool" where
  "b64_letter c \<longleftrightarrow> 32 < c \<and> c < 128 \<and> c \<notin> {45, 46, 61, 95}"

lemma b64_char_letter [simp]: "v < 64 \<Longrightarrow> b64_letter (b64_char v)"
  by (auto simp: b64_letter_def b64_char_def)

lemma b64_letter_facts:
  assumes "b64_letter c"
  shows "c < 128" "c \<noteq> 61" "from_urlsafe (to_urlsafe c) = c" "to_urlsafe c < 128" "to_urlsafe c \<noteq> 46"
    "to_urlsafe c \<noteq> 61"
  using assms by (auto simp: b64_letter_def from_urlsafe_def to_urlsafe_def)

text \<open>The characters without the padding.\<close>

fun b2a_body :: "nat list \<Rightarrow> pystr" where
  "b2a_body [] = []"
| "b2a_body [a] = [b64_char (a div 4), b64_char (a mod 4 * 16)]"
| "b2a_body [a, b] = [b64_char (a div 4), b64_char (a mod 4 * 16 + b div 16), b64_char (b mod 16 * 4)]"
| "b2a_body (a # b # c # ds) =
     b64_char (a div 4) # b64_char (a mod 4 * 16 + b div 16) # b64_char (b mod 16 * 4 + c div 64)
       # b64_char (c mod 64) # b2a_body ds"

lemma sextets:
  assumes "a < 256" and "b < 256" and "c < (256 :: nat)"
  shows "a div 4 < 64" "a mod 4 * 16 + b div 16 < 64" "b mod 16 * 4 + c div 64 < 64" "c mod 64 < 64"
    "a mod 4 * 16 < 64" "b mod 16 * 4 < 64"
proof -
  have "b div 16 < 16" "c div 64 < 4" "a mod 4 < 4" "b mod 16 < 16" using assms by (simp_all add: less_mult_imp_div_less)
  then show "a mod 4 * 16 + b div 16 < 64" "b mod 16 * 4 + c div 64 < 64" "a mod 4 * 16 < 64" "b mod 16 * 4 < 64"
    by linarith+
  show "a div 4 < 64" "c mod 64 < 64" using assms by (simp_all add: less_mult_imp_div_less)
qed

lemma octets:
  assumes "a < 256" and "b < 256" and "c < (256 :: nat)"
  shows "a div 4 * 4 + (a mod 4 * 16 + b div 16) div 16 = a"
    "(a mod 4 * 16 + b div 16) mod 16 * 16 + (b mod 16 * 4 + c div 64) div 4 = b"
    "(b mod 16 * 4 + c div 64) mod 4 * 64 + c mod 64 = c"
    "a div 4 * 4 + a mod 4 * 16 div 16 = a"
    "(a mod 4 * 16 + b div 16) mod 16 * 16 + b mod 16 * 4 div 4 = b"
proof -
  have "b div 16 < 16" "c div 64 < 4" using assms by (simp_all add: less_mult_imp_div_less)
  then show "a div 4 * 4 + (a mod 4 * 16 + b div 16) div 16 = a"
    "(a mod 4 * 16 + b div 16) mod 16 * 16 + (b mod 16 * 4 + c div 64) div 4 = b"
    "(b mod 16 * 4 + c div 64) mod 4 * 64 + c mod 64 = c"
    "(a mod 4 * 16 + b div 16) mod 16 * 16 + b mod 16 * 4 div 4 = b"
    by simp_all
  show "a div 4 * 4 + a mod 4 * 16 div 16 = a" by simp
qed

lemma b64_char_not_pad [simp]: "v < 64 \<Longrightarrow> b64_char v \<noteq> 61"
  using b64_letter_facts(2) [OF b64_char_letter] .

lemma a2b_b2a: "list_all (\<lambda>x. x < 256) xs \<Longrightarrow> a2b strict 0 0 0 False (b2a xs) = Some xs"
proof (induction xs rule: b2a.induct)
  case (2 a)
  then show ?case using sextets [of a 0 0] octets [of a 0 0] by simp
next
  case (3 a b)
  then show ?case using sextets [of a b 0] octets [of a b 0] by simp
next
  case (4 a b c ds)
  then show ?case using sextets [of a b c] octets [of a b c] by simp
qed simp

lemma b2a_padded: "b2a xs = b2a_body xs @ replicate (nat ((- int (length (b2a_body xs))) mod 4)) 61"
proof (induction xs rule: b2a.induct)
  case (4 a b c ds)
  have shift: "(- 4 - x) mod 4 = (- x) mod (4 :: int)" for x by presburger
  then show ?case using 4 by simp
qed (simp_all add: numeral_2_eq_2)

lemma b2a_body_letters: "list_all (\<lambda>x. x < 256) xs \<Longrightarrow> list_all b64_letter (b2a_body xs)"
proof (induction xs rule: b2a_body.induct)
  case (2 a)
  then show ?case using sextets [of a 0 0] by simp
next
  case (3 a b)
  then show ?case using sextets [of a b 0] by simp
next
  case (4 a b c ds)
  then show ?case using sextets [of a b c] by simp
qed simp

lemma unat_byte [simp]: "unat (b :: byte) < 256"
  using unsigned_less [of b] by simp

lemma unat_bytes: "list_all (\<lambda>x. x < 256) (map unat (data :: bytes))"
  by (simp add: list_all_iff)

lemma body_letters: "c \<in> set (b2a_body (map unat (data :: bytes))) \<Longrightarrow> b64_letter c"
  using b2a_body_letters [OF unat_bytes, of data] by (simp add: list_all_iff)

lemma map_of_nat_unat [simp]: "map (of_nat \<circ> unat) (data :: bytes) = data"
  by (induction data) simp_all

lemma b64encode_body:
  "b64encode data = b2a_body (map unat data) @ replicate (nat ((- int (length (b2a_body (map unat data)))) mod 4)) 61"
  by (simp add: b64encode_def b2a_padded [symmetric])

lemma b64encode_ascii: "is_ascii (b64encode data)"
  by (auto simp: b64encode_body is_ascii_def list_all_iff b64_letter_facts(1) [OF body_letters])

lemma b2a_hd: "list_all (\<lambda>x. x < 256) xs \<Longrightarrow> xs \<noteq> [] \<Longrightarrow> hd (b2a xs) \<noteq> 61"
  by (cases xs rule: b2a.cases) (simp_all add: less_mult_imp_div_less)

lemma b64decode_encode: "b64decode strict (b64encode data) = Some data"
proof -
  have "data \<noteq> [] \<Longrightarrow> hd (b64encode data) \<noteq> 61"
    using b2a_hd [OF unat_bytes, of data] by (simp add: b64encode_def)
  moreover have "a2b strict 0 0 0 False (b64encode data) = Some (map unat data)"
    unfolding b64encode_def by (rule a2b_b2a [OF unat_bytes])
  moreover have "data = [] \<Longrightarrow> b64encode data = []" by (simp add: b64encode_def)
  ultimately show ?thesis by (cases "data = []") (simp_all add: b64decode_def b64encode_ascii [unfolded is_ascii_def] is_ascii_def)
qed

lemma b64url_body: "b64url data = map to_urlsafe (b2a_body (map unat data))"
proof -
  let ?b = "map to_urlsafe (b2a_body (map unat data))"
  have "\<forall>c \<in> set (rev ?b). c \<noteq> 61" using b64_letter_facts(6) [OF body_letters] by auto
  then have "dropWhile (\<lambda>d. d = 61) (rev ?b) = rev ?b" unfolding dropWhile_eq_self_iff by (cases "rev ?b") simp_all
  moreover have "dropWhile (\<lambda>d. d = 61) (replicate n 61 @ ys) = dropWhile (\<lambda>d. d = 61) ys" for n and ys :: pystr
    by (induction n) simp_all
  moreover have "to_urlsafe 61 = 61" by (simp add: to_urlsafe_def)
  ultimately show ?thesis
    by (simp add: b64url_def rstrip_char_def urlsafe_b64encode_def b64encode_body)
qed

lemma unb64url_b64url [simp]: "unb64url (b64url data) = Some data"
proof -
  let ?xs = "map unat data"
  have again: "map (from_urlsafe \<circ> to_urlsafe) (b2a_body ?xs) = b2a_body ?xs"
    by (intro map_idI) (simp add: b64_letter_facts(3) [OF body_letters])
  have "list_all (\<lambda>c. c < 128) (map to_urlsafe (b2a_body ?xs))"
    by (auto simp: list_all_iff b64_letter_facts(4) [OF body_letters])
  moreover have "list_all (\<lambda>c. c < 128) (replicate n (61 :: nat))" for n by (simp add: list_all_iff)
  moreover have "from_urlsafe 61 = 61" by (simp add: from_urlsafe_def)
  ultimately show ?thesis
    using again b64decode_encode [of False data]
    by (simp add: unb64url_def urlsafe_b64decode_def b64url_body is_ascii_def b64encode_body)
qed

lemma b64url_chars: "c \<in> set (b64url data) \<Longrightarrow> c < 128 \<and> c \<noteq> 46"
  using b64_letter_facts(4,5) [OF body_letters] by (auto simp: b64url_body)

end
