(* ===== verification/Http.thy ===== *)
theory Http
  imports Errors Sdp Base64 Utf8
begin

text \<open>
  \<open>signaling/http.py\<close>: what the body of an answer means, the client's exchange with a host, and
  the host's two endpoints. The network is aiohttp's: a request is an element of the trace that
  \<open>request_answer\<close> returns, a reply is an argument of it.
\<close>

section \<open>The body of an answer\<close>

text \<open>
  What reaches the caller: \<open>ConnectionFailed\<close> with its code, or an exception that
  \<open>request_answer\<close> does not expect.
\<close>

datatype signaling_exn =
    SignalingFailed session_error
  | UndecodableBody                        \<comment> \<open>\<open>UnicodeDecodeError\<close> of \<open>response.text()\<close>\<close>
  | UnencodableOffer                       \<comment> \<open>\<open>UnicodeEncodeError\<close> of \<open>offer_sdp.encode()\<close>\<close>
  | RequestCancelled

text \<open>
  \<open>str.isdigit\<close>. Outside ASCII the digits are those of the Unicode tables, the parameter
  \<open>udigit\<close>; it also holds of characters that \<open>int\<close> refuses, such as superscripts.
\<close>

definition is_digits :: "(nat \<Rightarrow> bool) \<Rightarrow> pystr \<Rightarrow> bool" where
  "is_digits udigit s \<longleftrightarrow> s \<noteq> [] \<and> list_all (\<lambda>c. if c < 128 then is_digit09 c else udigit c) s"

definition parse_answer :: "(nat \<Rightarrow> nat option) \<Rightarrow> (nat \<Rightarrow> bool) \<Rightarrow> pystr \<Rightarrow> signaling_exn + pystr" where
  "parse_answer udec udigit body =
     (let t = strip body in
      if starts_with (lit ''v='') t then Inr body
      else if is_digits udigit t
      then (case rbind (py_int udec 10 t) session_error_of_int of
              Inr e \<Rightarrow> Inl (SignalingFailed e)
            | Inl _ \<Rightarrow> Inl (SignalingFailed E_SIGNALING_UNKNOWN_ERROR))
      else Inl (SignalingFailed E_SIGNALING_PARSING_FAILURE))"

section \<open>request_answer\<close>

datatype http_request = HttpGet pystr | HttpPost pystr bytes

text \<open>
  The end of a request: a status and, if the body is read, its text (\<open>None\<close>: not in the declared
  encoding), an \<open>aiohttp.ClientError\<close> or \<open>OSError\<close> (timeouts are \<open>OSError\<close>s) before the status or in the
  body, or the cancellation of the caller.
\<close>

datatype http_body = Body "pystr option" | BodyError | BodyCancelled
datatype http_reply = Reply int http_body | RequestError | ReplyCancelled

definition ok_status :: "int \<Rightarrow> bool" where
  "ok_status status \<longleftrightarrow> status div 100 = 2"

definition read_answer :: "(nat \<Rightarrow> nat option) \<Rightarrow> (nat \<Rightarrow> bool) \<Rightarrow> http_body \<Rightarrow> signaling_exn + pystr" where
  "read_answer udec udigit body =
     (case body of
        Body (Some t) \<Rightarrow> parse_answer udec udigit t
      | Body None \<Rightarrow> Inl UndecodableBody
      | BodyError \<Rightarrow> Inl (SignalingFailed E_SIGNALING_FAILED_TO_SEND)
      | BodyCancelled \<Rightarrow> Inl RequestCancelled)"

definition post_offer ::
    "(nat \<Rightarrow> nat option) \<Rightarrow> (nat \<Rightarrow> bool) \<Rightarrow> pystr \<Rightarrow> pystr \<Rightarrow> http_reply \<Rightarrow>
     http_request list \<times> (signaling_exn + pystr)" where
  "post_offer udec udigit url offer reply =
     (case utf8_encode offer of
        Inl _ \<Rightarrow> ([], Inl UnencodableOffer)
      | Inr data \<Rightarrow>
          ([HttpPost url data],
           case reply of
             RequestError \<Rightarrow> Inl (SignalingFailed E_SIGNALING_FAILED_TO_SEND)
           | ReplyCancelled \<Rightarrow> Inl RequestCancelled
           | Reply status body \<Rightarrow>
               if \<not> ok_status status then Inl (SignalingFailed E_SIGNALING_FAILED_TO_SEND)
               else read_answer udec udigit body))"

definition join_url :: "pystr \<Rightarrow> pystr" where
  "join_url server_url = rstrip_char 47 server_url @ lit ''/v1/join''"

definition request_answer ::
    "(nat \<Rightarrow> nat option) \<Rightarrow> (nat \<Rightarrow> bool) \<Rightarrow> pystr \<Rightarrow> pystr \<Rightarrow> pystr \<Rightarrow> bool \<Rightarrow> http_reply \<Rightarrow> http_reply \<Rightarrow>
     http_request list \<times> (signaling_exn + pystr)" where
  "request_answer udec udigit server_url network_id offer capability_check get_reply post_reply =
     (let post = post_offer udec udigit (join_url server_url @ 47 # network_id) offer post_reply in
      if \<not> capability_check then post
      else
        (case get_reply of
           ReplyCancelled \<Rightarrow> ([HttpGet (join_url server_url)], Inl RequestCancelled)
         | Reply status _ \<Rightarrow>
             if ok_status status then (HttpGet (join_url server_url) # fst post, snd post)
             else ([HttpGet (join_url server_url)], Inl (SignalingFailed E_NO_SIGNALING_CHANNEL))
         | RequestError \<Rightarrow> ([HttpGet (join_url server_url)], Inl (SignalingFailed E_NO_SIGNALING_CHANNEL))))"

section \<open>The host\<close>

text \<open>
  How the \<open>answer_offer\<close> callback ends: with an answer, \<open>SignalingRejected\<close>, another \<open>NetherNetError\<close>, or
  anything else, which aiohttp turns into its own response.
\<close>

datatype offer_outcome =
  Answered pystr | Rejected int pystr | OtherNetherNetError pystr | EscapingException

record http_response =
  r_status :: int
  r_text :: pystr
  r_sdp :: bool                            \<comment> \<open>content type \<open>application/sdp\<close>\<close>

definition handle_capability :: http_response where
  "handle_capability = \<lparr>r_status = 200, r_text = [], r_sdp = False\<rparr>"

text \<open>\<open>None\<close>: the exception goes to aiohttp.\<close>

definition handle_join :: "offer_outcome \<Rightarrow> http_response option" where
  "handle_join r =
     (case r of
        Answered sdp \<Rightarrow> Some \<lparr>r_status = 200, r_text = sdp, r_sdp = True\<rparr>
      | Rejected status reason \<Rightarrow> Some \<lparr>r_status = status, r_text = reason, r_sdp = False\<rparr>
      | OtherNetherNetError reason \<Rightarrow> Some \<lparr>r_status = 400, r_text = reason, r_sdp = False\<rparr>
      | EscapingException \<Rightarrow> None)"

text \<open>\<open>SignalingRejected\<close> with its default arguments.\<close>

definition signaling_rejected :: offer_outcome where
  "signaling_rejected = Rejected 403 (lit ''rejected'')"

record signaling_server =
  has_runner :: bool
  http_bound_port :: "int option"

definition new_signaling_server :: signaling_server where
  "new_signaling_server = \<lparr>has_runner = False, http_bound_port = None\<rparr>"

text \<open>\<open>addresses\<close>: the ports that the started site has.\<close>

definition signaling_start :: "int list \<Rightarrow> signaling_server \<Rightarrow> signaling_server" where
  "signaling_start addresses s =
     s\<lparr>has_runner := True, http_bound_port := (case addresses of [] \<Rightarrow> None | p # ps \<Rightarrow> Some p)\<rparr>"

definition signaling_aclose :: "signaling_server \<Rightarrow> signaling_server" where
  "signaling_aclose s = s\<lparr>has_runner := False\<rparr>"

section \<open>Lemmas\<close>

lemma starts_with_v: "starts_with (lit ''v='') t \<Longrightarrow> \<not> is_digits udigit t"
  by (cases t) (auto simp: starts_with_def lit_def is_digits_def is_digit09_def)

lemma parse_answer_fails: "parse_answer udec udigit body = Inl x \<Longrightarrow> \<exists>e. x = SignalingFailed e"
  by (auto simp: parse_answer_def Let_def split: if_splits sum.splits)

lemma parse_answer_Inr:
  "parse_answer udec udigit body = Inr sdp \<longleftrightarrow> sdp = body \<and> starts_with (lit ''v='') (strip body)"
  by (auto simp: parse_answer_def Let_def split: if_splits sum.splits)

lemma strip_around:
  assumes "\<forall>c \<in> set a. uni_space c" and "\<forall>c \<in> set b. uni_space c"
    and "x \<noteq> []" and "\<not> uni_space (hd x)" and "\<not> uni_space (last x)"
  shows "strip (a @ x @ b) = x"
proof -
  have skip: "dropWhile uni_space (y @ z) = dropWhile uni_space z" if "\<forall>c \<in> set y. uni_space c" for y z
    using that by (induction y) simp_all
  have keep: "dropWhile uni_space (y @ z) = y @ z" if "y \<noteq> []" "\<not> uni_space (hd y)" for y z
    using that by (cases y) simp_all
  have "dropWhile uni_space (rev b @ rev x) = rev x"
    using skip [of "rev b" "rev x"] keep [of "rev x" "[]"] assms by (simp add: hd_rev)
  then show ?thesis using skip [OF assms(1), of "x @ b"] keep [OF assms(3,4), of b] by (simp add: strip_def)
qed

section \<open>Properties\<close>

text \<open>
  A host's refusal arrives as what it is. Whatever white space is around it, the decimal code of
  any \<open>SessionError\<close> makes \<open>ConnectionFailed\<close> with that error, in every Unicode environment.
\<close>

theorem answer_error_code:
  assumes "\<forall>c \<in> set a. uni_space c" and "\<forall>c \<in> set b. uni_space c"
  shows "parse_answer udec udigit (a @ str_of_int (error_code e) @ b) = Inl (SignalingFailed e)"
proof -
  obtain n where n: "error_code e = int n" using error_code_range [of e] by (metis nonneg_eq_int)
  let ?t = "dec_of_nat n"
  have digits: "all_digits09 ?t" "?t \<noteq> []" by simp_all
  have "is_digit09 c \<Longrightarrow> \<not> uni_space c" for c by (auto simp: is_digit09_def uni_space_def)
  then have "\<not> uni_space (hd ?t)" "\<not> uni_space (last ?t)"
    using digits by (auto simp: all_digits09_def list_all_iff)
  then have strip: "strip (a @ ?t @ b) = ?t" by (rule strip_around [OF assms digits(2)])
  have "n < 10 ^ 2" using n error_code_range [of e] by simp
  then have "length ?t \<le> 2" by (rule length_dec_of_nat) simp
  then have "py_int udec 10 ?t = Inr (int n)"
    by (simp add: py_int_ascii_only [OF digits_ascii [OF digits(1)]] py_int_ascii_digits int_max_str_digits_def)
  moreover have "is_digits udigit ?t" using digits by (auto simp: is_digits_def all_digits09_def list_all_iff is_digit09_def)
  moreover from this have "\<not> starts_with (lit ''v='') ?t" using starts_with_v by blast
  moreover have "str_of_int (error_code e) = ?t" by (simp add: n str_of_int_def)
  ultimately show ?thesis by (simp add: parse_answer_def strip n [symmetric])
qed

theorem answer_error_code_witness:
  "parse_answer (\<lambda>_. None) (\<lambda>_. False) ([32] @ str_of_int (error_code E_IDENTITY_NOT_ALLOWED) @ [13, 10]) =
    Inl (SignalingFailed E_IDENTITY_NOT_ALLOWED)"
  by (rule answer_error_code) (simp_all add: uni_space_def)

definition posts :: "http_request list \<Rightarrow> nat" where
  "posts rs = length (filter (\<lambda>r. case r of HttpPost u d \<Rightarrow> True | _ \<Rightarrow> False) rs)"

text \<open>Whether the POST is made at all.\<close>

definition supported :: "bool \<Rightarrow> http_reply \<Rightarrow> bool" where
  "supported capability_check get_reply \<longleftrightarrow>
     \<not> capability_check \<or> (case get_reply of Reply status b \<Rightarrow> ok_status status | _ \<Rightarrow> False)"


end
