(* ===== verification/Json.thy ===== *)
theory Json
  imports Utf8 "HOL-Library.AList"
begin

text \<open>
  Python's \<open>json\<close>, as \<open>identity.py\<close> uses it: \<open>json.dumps\<close> with compact separators, with and
  without \<open>ensure_ascii\<close>, and \<open>json.loads\<close> on text and on bytes. A dictionary is its list of
  items, in order. A number with a fraction or an exponent is kept as its text, since only its
  conversion to a float would say more. The scanner enters every array and object through the
  interpreter's recursion check, whose limit is the argument \<open>depth\<close>.
\<close>

section \<open>Values\<close>

datatype json =
    JNull
  | JBool bool
  | JInt int
  | JFloat pystr
  | JString pystr
  | JList "json list"
  | JDict "(pystr \<times> json) list"

text \<open>A parser's outcome: a value and the rest, \<open>JSONDecodeError\<close>, or \<open>RecursionError\<close>.\<close>

datatype 'a parsed = Parsed 'a pystr | DecodeError | TooDeep | OutOfFuel

section \<open>json.dumps\<close>

definition hex4 :: "nat \<Rightarrow> pystr" where
  "hex4 n = map (\<lambda>d. if d < 10 then 48 + d else 87 + d) [n div 4096 mod 16, n div 256 mod 16, n div 16 mod 16, n mod 16]"

definition u_escape :: "nat \<Rightarrow> pystr" where
  "u_escape n = 92 # 117 # hex4 n"

definition escape_char :: "bool \<Rightarrow> nat \<Rightarrow> pystr" where
  "escape_char ascii c =
     (if c = 34 \<or> c = 92 then [92, c]
      else if c = 10 then [92, 110] else if c = 13 then [92, 114] else if c = 9 then [92, 116]
      else if c = 12 then [92, 102] else if c = 8 then [92, 98]
      else if c < 32 then u_escape c
      else if \<not> ascii \<or> c \<le> 126 then [c]
      else if c < 0x10000 then u_escape c
      else u_escape (0xD800 + (c - 0x10000) div 0x400) @ u_escape (0xDC00 + (c - 0x10000) mod 0x400))"

definition dump_string :: "bool \<Rightarrow> pystr \<Rightarrow> pystr" where
  "dump_string ascii s = 34 # concat (map (escape_char ascii) s) @ [34]"

fun join_with :: "nat \<Rightarrow> pystr list \<Rightarrow> pystr" where
  "join_with c [] = []"
| "join_with c [x] = x"
| "join_with c (x # y # ys) = x @ c # join_with c (y # ys)"

fun dumps :: "bool \<Rightarrow> json \<Rightarrow> pystr" where
  "dumps ascii JNull = lit ''null''"
| "dumps ascii (JBool b) = (if b then lit ''true'' else lit ''false'')"
| "dumps ascii (JInt i) = str_of_int i"
| "dumps ascii (JFloat t) = t"
| "dumps ascii (JString s) = dump_string ascii s"
| "dumps ascii (JList xs) = 91 # join_with 44 (map (dumps ascii) xs) @ [93]"
| "dumps ascii (JDict kvs) =
     123 # join_with 44 (map (\<lambda>(k, v). dump_string ascii k @ 58 # dumps ascii v) kvs) @ [125]"

section \<open>json.loads\<close>

definition json_space :: "nat \<Rightarrow> bool" where
  "json_space c \<longleftrightarrow> c = 32 \<or> c = 9 \<or> c = 10 \<or> c = 13"

definition skip_ws :: "pystr \<Rightarrow> pystr" where
  "skip_ws s = dropWhile json_space s"

definition hex_digit :: "nat \<Rightarrow> nat option" where
  "hex_digit c =
     (if 48 \<le> c \<and> c \<le> 57 then Some (c - 48)
      else if 97 \<le> c \<and> c \<le> 102 then Some (c - 87)
      else if 65 \<le> c \<and> c \<le> 70 then Some (c - 55) else None)"

fun read_hex4 :: "pystr \<Rightarrow> (nat \<times> pystr) option" where
  "read_hex4 (a # b # c # d # r) =
     (case (hex_digit a, hex_digit b, hex_digit c, hex_digit d) of
        (Some w, Some x, Some y, Some z) \<Rightarrow> Some (w * 4096 + x * 256 + y * 16 + z, r)
      | _ \<Rightarrow> None)"
| "read_hex4 _ = None"

text \<open>The character of an escape, after the backslash; a surrogate pair is joined.\<close>

definition low_surrogate :: "pystr \<Rightarrow> (nat \<times> pystr) option" where
  "low_surrogate r =
     (if take 2 r = [92, 117]
      then case read_hex4 (drop 2 r) of
          Some (lo, r') \<Rightarrow> if 0xDC00 \<le> lo \<and> lo \<le> 0xDFFF then Some (lo, r') else None
        | None \<Rightarrow> None
      else None)"

definition read_unicode :: "pystr \<Rightarrow> (nat \<times> pystr) option" where
  "read_unicode s =
     (case read_hex4 s of
        None \<Rightarrow> None
      | Some (n, r) \<Rightarrow>
          if 0xD800 \<le> n \<and> n \<le> 0xDBFF
          then (case low_surrogate r of
                  Some (lo, r') \<Rightarrow> Some (0x10000 + (n - 0xD800) * 0x400 + (lo - 0xDC00), r')
                | None \<Rightarrow> Some (n, r))
          else Some (n, r))"

definition simple_escape :: "nat \<Rightarrow> nat option" where
  "simple_escape c =
     (if c = 34 \<or> c = 92 \<or> c = 47 then Some c
      else if c = 98 then Some 8 else if c = 102 then Some 12 else if c = 110 then Some 10
      else if c = 114 then Some 13 else if c = 116 then Some 9 else None)"

lemma read_hex4_shorter: "read_hex4 s = Some (n, r) \<Longrightarrow> length s = length r + 4"
  by (induction s rule: read_hex4.induct) (auto split: option.splits)

lemma read_unicode_shorter: "read_unicode s = Some (n, r) \<Longrightarrow> length r < length s"
  by (auto simp: read_unicode_def low_surrogate_def dest!: read_hex4_shorter split: option.splits if_splits)

text \<open>\<open>scanstring\<close> with \<open>strict=True\<close>, after the opening quote.\<close>

function scan_string :: "pystr \<Rightarrow> (pystr \<times> pystr) option" where
  "scan_string [] = None"
| "scan_string (c # cs) =
     (if c = 34 then Some ([], cs)
      else if c < 32 then None
      else if c \<noteq> 92 then map_option (\<lambda>(t, r). (c # t, r)) (scan_string cs)
      else case cs of
          [] \<Rightarrow> None
        | e # es \<Rightarrow>
            if e = 117
            then (case read_unicode es of
                    None \<Rightarrow> None
                  | Some (n, r) \<Rightarrow> map_option (\<lambda>(t, r'). (n # t, r')) (scan_string r))
            else (case simple_escape e of
                    None \<Rightarrow> None
                  | Some n \<Rightarrow> map_option (\<lambda>(t, r). (n # t, r)) (scan_string es)))"
  by pat_completeness auto
termination
  by (relation "measure length") (auto dest: read_unicode_shorter)

declare scan_string.simps [simp del]

text \<open>Numbers: an integer goes through \<open>int\<close>, with its limit of 4300 digits.\<close>

definition fraction :: "pystr \<Rightarrow> pystr \<times> pystr" where
  "fraction s =
     (if s \<noteq> [] \<and> hd s = 46 \<and> takeWhile is_digit09 (tl s) \<noteq> []
      then (46 # takeWhile is_digit09 (tl s), dropWhile is_digit09 (tl s)) else ([], s))"

definition exponent :: "pystr \<Rightarrow> pystr \<times> pystr" where
  "exponent s =
     (case s of
        [] \<Rightarrow> ([], s)
      | c # cs \<Rightarrow>
          if c = 101 \<or> c = 69
          then let (sign, ds) = (case cs of d # _ \<Rightarrow> if d = 43 \<or> d = 45 then ([d], tl cs) else ([], cs) | [] \<Rightarrow> ([], cs))
               in if takeWhile is_digit09 ds \<noteq> [] then (c # sign @ takeWhile is_digit09 ds, dropWhile is_digit09 ds)
                  else ([], s)
          else ([], s))"

definition minus_sign :: "pystr \<Rightarrow> pystr \<times> pystr" where
  "minus_sign s = (if s \<noteq> [] \<and> hd s = 45 then ([45], tl s) else ([], s))"

definition int_digits :: "pystr \<Rightarrow> pystr \<times> pystr" where
  "int_digits s =
     (if s \<noteq> [] \<and> hd s = 48 then ([48], tl s) else (takeWhile is_digit09 s, dropWhile is_digit09 s))"

definition scan_number :: "pystr \<Rightarrow> json parsed" where
  "scan_number s =
     (let (sign, s1) = minus_sign s; (digits, s2) = int_digits s1; (frac, s3) = fraction s2; (ex, s4) = exponent s3 in
      if digits = [] then DecodeError
      else if frac = [] \<and> ex = []
      then (case py_int_ascii 10 (sign @ digits) of Inl _ \<Rightarrow> DecodeError | Inr i \<Rightarrow> Parsed (JInt i) s4)
      else Parsed (JFloat (sign @ digits @ frac @ ex)) s4)"

definition literals :: "(pystr \<times> json) list" where
  "literals =
     [(lit ''null'', JNull), (lit ''true'', JBool True), (lit ''false'', JBool False),
      (lit ''NaN'', JFloat (lit ''NaN'')), (lit ''Infinity'', JFloat (lit ''Infinity'')),
      (lit ''-Infinity'', JFloat (lit ''-Infinity''))]"

definition scan_scalar :: "pystr \<Rightarrow> json parsed" where
  "scan_scalar s =
     (case List.find (\<lambda>(t, v). starts_with t s) literals of
        Some (t, v) \<Rightarrow> Parsed v (drop (length t) s)
      | None \<Rightarrow> scan_number s)"

text \<open>
  \<open>scan_once\<close>, \<open>_parse_array\<close> and \<open>_parse_object\<close>. The fuel counts calls; every call reads a
  character before the next two, so twice as much fuel as characters is enough (\<open>scan_fuel\<close>).
\<close>

fun scan :: "nat \<Rightarrow> nat \<Rightarrow> pystr \<Rightarrow> json parsed"
  and scan_items :: "nat \<Rightarrow> nat \<Rightarrow> json list \<Rightarrow> pystr \<Rightarrow> json parsed"
  and scan_members :: "nat \<Rightarrow> nat \<Rightarrow> (pystr \<times> json) list \<Rightarrow> pystr \<Rightarrow> json parsed" where
  "scan 0 depth s = OutOfFuel"
| "scan (Suc n) depth s =
     (case s of
        [] \<Rightarrow> DecodeError
      | c # cs \<Rightarrow>
          if c = 34
          then (case scan_string cs of None \<Rightarrow> DecodeError | Some (t, r) \<Rightarrow> Parsed (JString t) r)
          else if c = 123 \<or> c = 91
          then (case depth of
                  0 \<Rightarrow> TooDeep
                | Suc d \<Rightarrow>
                    let r = skip_ws cs in
                    if c = 91
                    then (if r \<noteq> [] \<and> hd r = 93 then Parsed (JList []) (tl r) else scan_items n d [] r)
                    else (if r \<noteq> [] \<and> hd r = 125 then Parsed (JDict []) (tl r) else scan_members n d [] r))
          else scan_scalar s)"
| "scan_items 0 depth acc s = OutOfFuel"
| "scan_items (Suc n) depth acc s =
     (case scan n depth s of
        Parsed v r \<Rightarrow>
          (case skip_ws r of
             [] \<Rightarrow> DecodeError
           | c # cs \<Rightarrow>
               if c = 93 then Parsed (JList (acc @ [v])) cs
               else if c = 44 then scan_items n depth (acc @ [v]) (skip_ws cs)
               else DecodeError)
      | e \<Rightarrow> e)"
| "scan_members 0 depth acc s = OutOfFuel"
| "scan_members (Suc n) depth acc s =
     (case s of
        [] \<Rightarrow> DecodeError
      | q # qs \<Rightarrow>
          if q \<noteq> 34 then DecodeError
          else (case scan_string qs of
                  None \<Rightarrow> DecodeError
                | Some (k, r) \<Rightarrow>
                    (case skip_ws r of
                       [] \<Rightarrow> DecodeError
                     | colon # r1 \<Rightarrow>
                         if colon \<noteq> 58 then DecodeError
                         else (case scan n depth (skip_ws r1) of
                                 Parsed v r2 \<Rightarrow>
                                   (case skip_ws r2 of
                                      [] \<Rightarrow> DecodeError
                                    | c # cs \<Rightarrow>
                                        if c = 125 then Parsed (JDict (AList.update k v acc)) cs
                                        else if c = 44 then scan_members n depth (AList.update k v acc) (skip_ws cs)
                                        else DecodeError)
                               | e \<Rightarrow> e))))"

text \<open>\<open>JSONDecoder.decode\<close>: white space around one value. \<open>loads\<close> gives the value, or how it fails.\<close>

datatype json_exn = JsonValueError | JsonRecursionError

definition loads :: "nat \<Rightarrow> pystr \<Rightarrow> json_exn + json" where
  "loads depth s =
     (case scan (Suc (2 * length s)) depth (skip_ws s) of
        Parsed v r \<Rightarrow> if skip_ws r = [] then Inr v else Inl JsonValueError
      | TooDeep \<Rightarrow> Inl JsonRecursionError
      | _ \<Rightarrow> Inl JsonValueError)"

section \<open>json.loads on bytes\<close>

text \<open>
  \<open>detect_encoding\<close> looks at a byte order mark or at the zero bytes among the first four, and
  the bytes are decoded with the error handler \<open>surrogatepass\<close>, which lets surrogates through.
\<close>

datatype encoding = UTF8 | UTF8_SIG | UTF16 bool | UTF16_BOM | UTF32 bool | UTF32_BOM   \<comment> \<open>\<open>True\<close>: big endian\<close>

definition detect_encoding :: "nat list \<Rightarrow> encoding" where
  "detect_encoding b =
     (if take 4 b = [0, 0, 254, 255] \<or> take 4 b = [255, 254, 0, 0] then UTF32_BOM
      else if take 2 b = [254, 255] \<or> take 2 b = [255, 254] then UTF16_BOM
      else if take 3 b = [239, 187, 191] then UTF8_SIG
      else if 4 \<le> length b then
        if b ! 0 = 0 then (if b ! 1 \<noteq> 0 then UTF16 True else UTF32 True)
        else if b ! 1 = 0 then (if b ! 2 \<noteq> 0 \<or> b ! 3 \<noteq> 0 then UTF16 False else UTF32 False)
        else UTF8
      else if length b = 2 then
        if b ! 0 = 0 then UTF16 True else if b ! 1 = 0 then UTF16 False else UTF8
      else UTF8)"

text \<open>UTF-8 with encoded surrogates.\<close>

fun dec_pass :: "nat list \<Rightarrow> pystr option" where
  "dec_pass [] = Some []"
| "dec_pass (b0 # r) =
     (if b0 < 128 then map_option ((#) b0) (dec_pass r)
      else if 194 \<le> b0 \<and> b0 \<le> 223 then
        (case r of b1 # r1 \<Rightarrow>
           if cont b1 then map_option ((#) ((b0 - 192) * 64 + (b1 - 128))) (dec_pass r1) else None
         | _ \<Rightarrow> None)
      else if 224 \<le> b0 \<and> b0 \<le> 239 then
        (case r of b1 # b2 # r2 \<Rightarrow>
           let c = (b0 - 224) * 4096 + (b1 - 128) * 64 + (b2 - 128) in
           if cont b1 \<and> cont b2 \<and> 0x800 \<le> c then map_option ((#) c) (dec_pass r2) else None
         | _ \<Rightarrow> None)
      else if 240 \<le> b0 \<and> b0 \<le> 244 then
        (case r of b1 # b2 # b3 # r3 \<Rightarrow>
           let c = (b0 - 240) * 262144 + (b1 - 128) * 4096 + (b2 - 128) * 64 + (b3 - 128) in
           if cont b1 \<and> cont b2 \<and> cont b3 \<and> 0x10000 \<le> c \<and> c < 0x110000
           then map_option ((#) c) (dec_pass r3) else None
         | _ \<Rightarrow> None)
      else None)"

fun code_units :: "bool \<Rightarrow> nat list \<Rightarrow> nat list option" where
  "code_units big [] = Some []"
| "code_units big [a] = None"
| "code_units big (a # b # r) = map_option ((#) (if big then a * 256 + b else b * 256 + a)) (code_units big r)"

fun join_surrogates :: "nat list \<Rightarrow> pystr" where
  "join_surrogates [] = []"
| "join_surrogates [u] = [u]"
| "join_surrogates (u # v # r) =
     (if 0xD800 \<le> u \<and> u \<le> 0xDBFF \<and> 0xDC00 \<le> v \<and> v \<le> 0xDFFF
      then (0x10000 + (u - 0xD800) * 0x400 + (v - 0xDC00)) # join_surrogates r
      else u # join_surrogates (v # r))"

fun dec_utf32 :: "bool \<Rightarrow> nat list \<Rightarrow> pystr option" where
  "dec_utf32 big (a # b # c # d # r) =
     (let x = (if big then ((a * 256 + b) * 256 + c) * 256 + d else ((d * 256 + c) * 256 + b) * 256 + a) in
      if x < 0x110000 then map_option ((#) x) (dec_utf32 big r) else None)"
| "dec_utf32 big [] = Some []"
| "dec_utf32 big _ = None"

definition json_text :: "bytes \<Rightarrow> pystr option" where
  "json_text data =
     (let b = map unat data in
      case detect_encoding b of
        UTF8 \<Rightarrow> dec_pass b
      | UTF8_SIG \<Rightarrow> dec_pass (drop 3 b)
      | UTF16 big \<Rightarrow> map_option join_surrogates (code_units big b)
      | UTF16_BOM \<Rightarrow> map_option join_surrogates (code_units (b ! 0 = 254) (drop 2 b))
      | UTF32 big \<Rightarrow> dec_utf32 big b
      | UTF32_BOM \<Rightarrow> dec_utf32 (b ! 0 = 0) (drop 4 b))"

definition loads_bytes :: "nat \<Rightarrow> bytes \<Rightarrow> json_exn + json" where
  "loads_bytes depth data = (case json_text data of None \<Rightarrow> Inl JsonValueError | Some t \<Rightarrow> loads depth t)"

text \<open>\<open>json.loads\<close> on a string refuses a byte order mark first.\<close>

definition loads_str :: "nat \<Rightarrow> pystr \<Rightarrow> json_exn + json" where
  "loads_str depth s = (if s \<noteq> [] \<and> hd s = 0xFEFF then Inl JsonValueError else loads depth s)"

section \<open>The scanner ends\<close>

lemma skip_ws_length: "length (skip_ws s) \<le> length s"
  by (simp add: skip_ws_def length_dropWhile_le)

lemma skip_ws_Cons: "skip_ws s = c # cs \<Longrightarrow> length cs < length s"
  using skip_ws_length [of s] by simp

lemma scan_string_shorter: "scan_string s = Some (t, r) \<Longrightarrow> length r < length s"
proof (induction s arbitrary: t r rule: scan_string.induct)
  case (2 c cs)
  note IH = 2(1-3) and eq = 2(4) [unfolded scan_string.simps(2) [of c cs]]
  show ?case
  proof (cases "c = 92")
    case True
    then obtain e es where es: "cs = e # es" using eq by (auto split: list.splits)
    show ?thesis
    proof (cases "e = 117")
      case u: True
      then obtain n r1 t1 where "read_unicode es = Some (n, r1)" "scan_string r1 = Some (t1, r)"
        using eq True es by (auto split: option.splits)
      with IH(2) [of e es] True es u read_unicode_shorter [of es n r1] show ?thesis by fastforce
    next
      case False
      then obtain n t1 where "simple_escape e = Some n" "scan_string es = Some (t1, r)"
        using eq True es by (auto split: option.splits)
      with IH(3) [of e es] True es False show ?thesis by fastforce
    qed
  next
    case False
    then show ?thesis using eq IH(1) by (fastforce split: if_splits)
  qed
qed (simp add: scan_string.simps)

lemma drop_shorter: "starts_with t s \<Longrightarrow> t \<noteq> [] \<Longrightarrow> length (drop (length t) s) < length s"
  by (cases s) (auto simp: starts_with_def)

lemma dropWhile_shorter: "takeWhile P xs \<noteq> [] \<Longrightarrow> length (dropWhile P xs) < length xs"
  using length_dropWhile_le [of P "tl xs"] by (cases xs) (auto split: if_splits simp: less_Suc_eq_le)

lemma fraction_length: "length (snd (fraction s)) \<le> length s"
  using length_dropWhile_le [of is_digit09 "tl s"] by (auto simp: fraction_def)

lemma exponent_length: "length (snd (exponent s)) \<le> length s"
proof (cases s)
  case (Cons c cs)
  have "length (dropWhile is_digit09 ds) \<le> Suc (length cs)" if "length ds \<le> length cs" for ds
    using length_dropWhile_le [of is_digit09 ds] that by simp
  then show ?thesis using Cons by (auto simp: exponent_def split: list.split)
qed (simp add: exponent_def)

lemma scan_number_shorter:
  assumes "scan_number s = Parsed v r"
  shows "length r < length s"
proof -
  let ?s1 = "snd (minus_sign s)"
  let ?s2 = "snd (int_digits ?s1)"
  have "length ?s1 \<le> length s" by (simp add: minus_sign_def)
  moreover have "fst (int_digits ?s1) \<noteq> [] \<Longrightarrow> length ?s2 < length ?s1"
    using length_dropWhile_le [of is_digit09 "tl ?s1"]
    by (cases ?s1) (auto simp: int_digits_def less_Suc_eq_le split: if_splits)
  moreover have "fst (int_digits ?s1) \<noteq> [] \<and> r = snd (exponent (snd (fraction ?s2)))"
    using assms by (simp add: scan_number_def split_beta Let_def split: if_splits sum.splits)
  moreover have "length (snd (exponent (snd (fraction ?s2)))) \<le> length ?s2"
    using fraction_length [of ?s2] exponent_length [of "snd (fraction ?s2)"] by simp
  ultimately show ?thesis by simp
qed

lemma scan_number_fuel: "scan_number s \<noteq> OutOfFuel \<and> scan_number s \<noteq> TooDeep"
  by (auto simp: scan_number_def Let_def split_beta split: sum.split)

lemma literals_nonempty: "(t, v) \<in> set literals \<Longrightarrow> t \<noteq> []"
  by (auto simp: literals_def lit_def)

lemma scan_scalar_shorter: "scan_scalar s = Parsed v r \<Longrightarrow> length r < length s"
proof (cases "List.find (\<lambda>(t, v). starts_with t s) literals")
  case (Some x)
  assume "scan_scalar s = Parsed v r"
  moreover from Some obtain t u where "x = (t, u)" "(t, u) \<in> set literals" "starts_with t s"
    by (cases x) (use nth_mem in \<open>fastforce simp: find_Some_iff\<close>)
  ultimately show ?thesis using Some drop_shorter literals_nonempty by (auto simp: scan_scalar_def)
qed (simp add: scan_scalar_def scan_number_shorter)

lemma scan_scalar_fuel: "scan_scalar s \<noteq> OutOfFuel \<and> scan_scalar s \<noteq> TooDeep"
  using scan_number_fuel [of s] by (auto simp: scan_scalar_def split: option.split)

lemma scan_shorter:
  "scan n depth s = Parsed v r \<Longrightarrow> length r < length s"
  "scan_items n depth items s = Parsed v r \<Longrightarrow> length r < length s"
  "scan_members n depth members s = Parsed v r \<Longrightarrow> length r < length s"
proof (induction n depth s and n depth items s and n depth members s arbitrary: v r and v r and v r
    rule: scan_scan_items_scan_members.induct)
  case (2 n depth s)
  show ?case
  proof (cases s)
    case (Cons c cs)
    show ?thesis
    proof (cases "c = 34 \<or> \<not> (c = 123 \<or> c = 91)")
      case True
      then show ?thesis using 2(3) Cons scan_scalar_shorter [of s v r]
        by (cases "c = 34") (auto dest: scan_string_shorter split: option.splits)
    next
      case False
      then have c: "c \<noteq> 34" "c = 123 \<or> c = 91" by simp_all
      obtain d where d: "depth = Suc d" using 2(3) Cons c by (auto split: nat.splits)
      have "length (skip_ws cs) \<le> length cs" "length (tl (skip_ws cs)) \<le> length cs"
        using skip_ws_length [of cs] by simp_all
      then show ?thesis
        using 2(3) 2(1) [OF Cons c d refl] 2(2) [OF Cons c d refl] Cons c d
        by (auto simp: Let_def split: if_splits)
    qed
  qed (use 2 in simp)
next
  case (4 n depth acc s)
  then obtain u r1 where u: "scan n depth s = Parsed u r1" by (auto split: parsed.splits)
  then obtain c cs where c: "skip_ws r1 = c # cs" using 4(3) by (auto split: list.splits)
  have "length r1 < length s" using 4(1) u by blast
  moreover have "length cs < length r1" by (rule skip_ws_Cons [OF c])
  moreover have "length (skip_ws cs) \<le> length cs" by (rule skip_ws_length)
  moreover have "r = cs \<or> length r < length (skip_ws cs)"
    using 4(2) [OF u c] 4(3) u c by (auto split: if_splits)
  ultimately show ?case by auto
next
  case (6 n depth acc s)
  then obtain q qs where q: "s = q # qs" by (auto split: list.splits)
  then obtain k r1 where k: "scan_string qs = Some (k, r1)" using 6(3) by (auto split: if_splits option.splits)
  then obtain colon r2 where r2: "skip_ws r1 = colon # r2" using 6(3) q by (auto split: if_splits list.splits)
  then obtain u r3 where u: "scan n depth (skip_ws r2) = Parsed u r3"
    using 6(3) q k by (auto split: if_splits parsed.splits)
  then obtain c cs where c: "skip_ws r3 = c # cs" using 6(3) q k r2 by (auto split: if_splits list.splits)
  have cond: "\<not> q \<noteq> 34" "\<not> colon \<noteq> 58" using 6(3) q k r2 by (auto split: if_splits)
  have "length r3 < length (skip_ws r2)" using 6(1) [OF q cond(1) k refl r2 cond(2)] u by blast
  moreover have "length (skip_ws r2) \<le> length r2" "length (skip_ws cs) \<le> length cs" by (simp_all add: skip_ws_length)
  moreover have "length cs < length r3" "length r2 < length r1" "length r1 < length qs"
    using skip_ws_Cons [OF c] skip_ws_Cons [OF r2] scan_string_shorter [OF k] by simp_all
  moreover have "r = cs \<or> length r < length (skip_ws cs)"
    using 6(2) [OF q cond(1) k refl r2 cond(2) u c] 6(3) q k r2 u c by (auto split: if_splits)
  moreover have "length s = Suc (length qs)" by (simp add: q)
  ultimately show ?case by auto
qed simp_all

lemma scan_fuel:
  "2 * length s < n \<Longrightarrow> scan n depth s \<noteq> OutOfFuel"
  "2 * length s + 1 < n \<Longrightarrow> scan_items n depth items s \<noteq> OutOfFuel"
  "2 * length s + 1 < n \<Longrightarrow> scan_members n depth members s \<noteq> OutOfFuel"
proof (induction n depth s and n depth items s and n depth members s
    rule: scan_scan_items_scan_members.induct)
  case (2 n depth s)
  show ?case
  proof (cases s)
    case (Cons c cs)
    show ?thesis
    proof (cases "c = 34 \<or> \<not> (c = 123 \<or> c = 91)")
      case True
      then show ?thesis using Cons scan_scalar_fuel [of s] by (auto split: option.splits)
    next
      case False
      then have c: "c \<noteq> 34" "c = 123 \<or> c = 91" by simp_all
      show ?thesis
      proof (cases depth)
        case (Suc d)
        have "length (skip_ws cs) \<le> length cs" by (rule skip_ws_length)
        then have "2 * length (skip_ws cs) + 1 < n" using 2(3) Cons by simp
        then show ?thesis using 2(1,2) [OF Cons c Suc refl] Cons c Suc by (auto simp: Let_def)
      qed (use Cons c in simp)
    qed
  qed simp
next
  case (4 n depth acc s)
  have first: "scan n depth s \<noteq> OutOfFuel" using 4(1,3) by simp
  have "scan_items n depth (acc @ [u]) (skip_ws cs) \<noteq> OutOfFuel"
    if "scan n depth s = Parsed u r" "skip_ws r = c # cs" "c \<noteq> 93" "c = 44" for u r c cs
  proof -
    have "length (skip_ws cs) \<le> length cs" "length cs < length r" "length r < length s"
      using skip_ws_Cons [OF that(2)] scan_shorter(1) [OF that(1)] by (simp_all add: skip_ws_length)
    then show ?thesis using 4(2) [OF that] 4(3) by linarith
  qed
  with first show ?case by (auto split: parsed.split list.split)
next
  case (6 n depth acc s)
  have "scan n depth (skip_ws r1) \<noteq> OutOfFuel \<and>
      (\<forall>v r2 c cs. scan n depth (skip_ws r1) = Parsed v r2 \<longrightarrow> skip_ws r2 = c # cs \<longrightarrow> c \<noteq> 125 \<longrightarrow> c = 44 \<longrightarrow>
        scan_members n depth (AList.update k v acc) (skip_ws cs) \<noteq> OutOfFuel)"
    if q: "s = q # qs" "\<not> q \<noteq> 34" "scan_string qs = Some (k, r)" "skip_ws r = colon # r1" "\<not> colon \<noteq> 58"
    for q qs k r colon r1
  proof -
    have len: "length (skip_ws r1) \<le> length r1" "length r1 < length r" "length r < length qs"
      using skip_ws_Cons [OF q(4)] scan_string_shorter [OF q(3)] by (simp_all add: skip_ws_length)
    then have "2 * length (skip_ws r1) < n" using 6(3) q(1) by simp
    then have "scan n depth (skip_ws r1) \<noteq> OutOfFuel" using 6(1) [OF q(1-3) refl q(4,5)] by blast
    moreover have "scan_members n depth (AList.update k v acc) (skip_ws cs) \<noteq> OutOfFuel"
      if r2: "scan n depth (skip_ws r1) = Parsed v r2" "skip_ws r2 = c # cs" "c \<noteq> 125" "c = 44" for v r2 c cs
    proof -
      have "length (skip_ws cs) \<le> length cs" "length cs < length r2" "length r2 < length (skip_ws r1)"
        using skip_ws_Cons [OF r2(2)] scan_shorter(1) [OF r2(1)] by (simp_all add: skip_ws_length)
      then have "2 * length (skip_ws cs) + 1 < n" using len 6(3) q(1) by simp
      then show ?thesis using 6(2) [OF q(1-3) refl q(4,5) r2] by blast
    qed
    ultimately show ?thesis by blast
  qed
  then show ?case by (auto split: parsed.split list.split option.split)
qed simp_all

text \<open>So \<open>loads\<close> always decides: its answer is not an artefact of the fuel.\<close>

lemma loads_decides: "scan (Suc (2 * length s)) depth (skip_ws s) \<noteq> OutOfFuel"
  using scan_fuel(1) [of "skip_ws s" "Suc (2 * length s)"] skip_ws_length [of s] by simp

section \<open>Reading back what was written\<close>

lemma hex_digit_char: "d < 16 \<Longrightarrow> hex_digit (if d < 10 then 48 + d else 87 + d) = Some d"
  by (auto simp: hex_digit_def)

lemma read_hex4_hex4 [simp]: "n < 65536 \<Longrightarrow> read_hex4 (hex4 n @ r) = Some (n, r)"
proof -
  assume "n < 65536"
  then have "n div 4096 < 16" by (simp add: less_mult_imp_div_less)
  moreover have "n = n div 4096 * 4096 + n div 256 mod 16 * 256 + n div 16 mod 16 * 16 + n mod 16"
  proof -
    have "n div 16 div 16 = n div 256" "n div 256 div 16 = n div 4096" by (simp_all add: div_mult2_eq [symmetric])
    then show ?thesis using div_mult_mod_eq [of n 16] div_mult_mod_eq [of "n div 16" 16] div_mult_mod_eq [of "n div 256" 16]
      by linarith
  qed
  ultimately show ?thesis by (simp add: hex4_def hex_digit_char)
qed

definition plain_char :: "nat \<Rightarrow> bool" where
  "plain_char c \<longleftrightarrow> c < 0x110000 \<and> \<not> surrogate c"

lemma scan_u_escape:
  assumes "n < 65536" and "\<not> (0xD800 \<le> n \<and> n \<le> 0xDBFF)"
  shows "scan_string (u_escape n @ r) = map_option (\<lambda>(t, r'). (n # t, r')) (scan_string r)"
proof -
  have "read_unicode (hex4 n @ r) = Some (n, r)"
    using assms by (simp only: read_unicode_def read_hex4_hex4 option.case prod.case if_False)
  then show ?thesis by (simp add: u_escape_def scan_string.simps(2) [of 92])
qed

lemma scan_pair:
  assumes "0x10000 \<le> c" and "c < 0x110000"
  shows "scan_string (u_escape (0xD800 + (c - 0x10000) div 0x400) @ u_escape (0xDC00 + (c - 0x10000) mod 0x400) @ r) =
    map_option (\<lambda>(t, r'). (c # t, r')) (scan_string r)"
proof -
  let ?hi = "0xD800 + (c - 0x10000) div 0x400" and ?lo = "0xDC00 + (c - 0x10000) mod 0x400"
  have hi: "(c - 0x10000) div 0x400 < 0x400" using assms by (simp add: less_mult_imp_div_less)
  have lo: "(c - 0x10000) mod 0x400 < 0x400" by simp
  have "low_surrogate (u_escape ?lo @ r) = Some (?lo, r)"
    using lo by (simp add: low_surrogate_def u_escape_def)
  moreover have "0x10000 + (?hi - 0xD800) * 0x400 + (?lo - 0xDC00) = c"
    using assms(1) div_mult_mod_eq [of "c - 0x10000" "0x400"] by simp
  moreover have "read_hex4 (hex4 ?hi @ u_escape ?lo @ r) = Some (?hi, u_escape ?lo @ r)" using hi by simp
  ultimately have "read_unicode (hex4 ?hi @ u_escape ?lo @ r) = Some (c, r)"
    using hi by (simp only: read_unicode_def option.case prod.case) simp
  then show ?thesis by (simp add: u_escape_def [of ?hi] scan_string.simps(2) [of 92])
qed

lemma scan_escaped:
  assumes "plain_char c"
  shows "scan_string (escape_char ascii c @ r) = map_option (\<lambda>(t, r'). (c # t, r')) (scan_string r)"
proof -
  consider "c \<in> {34, 92, 10, 13, 9, 12, 8}" | "c \<notin> {34, 92, 10, 13, 9, 12, 8}" "c < 32"
    | "c \<notin> {34, 92}" "32 \<le> c" "\<not> ascii \<or> c \<le> 126"
    | "126 < c" "ascii" "c < 0x10000" | "ascii" "0x10000 \<le> c" by fastforce
  then show ?thesis
  proof cases
    case 1
    then show ?thesis by (auto simp: escape_char_def scan_string.simps(2) [of 92] simple_escape_def)
  next
    case 2
    then show ?thesis by (simp add: escape_char_def scan_u_escape)
  next
    case 3
    then show ?thesis by (auto simp: escape_char_def scan_string.simps(2) [of c])
  next
    case 4
    then have "escape_char ascii c = u_escape c" by (simp add: escape_char_def)
    moreover have "\<not> (0xD800 \<le> c \<and> c \<le> 0xDBFF)" using assms by (auto simp: plain_char_def surrogate_def)
    ultimately show ?thesis using 4 scan_u_escape by simp
  next
    case 5
    then have "escape_char ascii c =
        u_escape (0xD800 + (c - 0x10000) div 0x400) @ u_escape (0xDC00 + (c - 0x10000) mod 0x400)"
      by (simp add: escape_char_def)
    then show ?thesis using scan_pair [OF 5(2)] assms by (simp add: plain_char_def)
  qed
qed

lemma scan_dumped:
  "list_all plain_char t \<Longrightarrow> scan_string (concat (map (escape_char ascii) t) @ 34 # r) = Some (t, r)"
  by (induction t) (simp_all add: scan_escaped scan_string.simps(2) [of 34])

text \<open>What may follow a value inside a document.\<close>

definition follows :: "pystr \<Rightarrow> bool" where
  "follows r \<longleftrightarrow> r = [] \<or> hd r \<in> {44, 93, 125}"

lemma takeWhile_digits:
  "all_digits09 ds \<Longrightarrow> follows r \<Longrightarrow> takeWhile is_digit09 (ds @ r) = ds \<and> dropWhile is_digit09 (ds @ r) = r"
  by (induction ds) (cases r; auto simp: all_digits09_def follows_def is_digit09_def)+

lemma dec_of_nat_hd: "hd (dec_of_nat n) = 48 \<longleftrightarrow> n = 0"
proof (induction n rule: dec_of_nat.induct)
  case (1 n)
  show ?case
  proof (cases "n < 10")
    case False
    then have "hd (dec_of_nat n) = hd (dec_of_nat (n div 10))" by (subst dec_of_nat.simps) simp
    then show ?thesis using 1 False by auto
  qed (simp add: dec_of_nat.simps)
qed

lemma int_digits_dec:
  assumes "follows r"
  shows "int_digits (dec_of_nat n @ r) = (dec_of_nat n, r)"
proof (cases "n = 0")
  case True
  then show ?thesis by (simp add: int_digits_def dec_of_nat.simps)
next
  case False
  then have "hd (dec_of_nat n @ r) \<noteq> 48" using dec_of_nat_hd [of n] by (simp add: hd_append)
  then show ?thesis using takeWhile_digits [OF all_digits09_dec_of_nat assms, of n] by (simp add: int_digits_def)
qed

lemma follows_plain: "follows r \<Longrightarrow> fraction r = ([], r) \<and> exponent r = ([], r)"
  by (cases r) (auto simp: follows_def fraction_def exponent_def)

lemma dec_hd_digit: "is_digit09 (hd (dec_of_nat n))"
  using all_digits09_dec_of_nat [of n] by (cases "dec_of_nat n") (auto simp: all_digits09_def)

definition int_fits :: "int \<Rightarrow> bool" where
  "int_fits i \<longleftrightarrow> length (dec_of_nat (nat \<bar>i\<bar>)) \<le> int_max_str_digits"

lemma scan_number_int:
  assumes "follows r" and "int_fits i"
  shows "scan_number (str_of_int i @ r) = Parsed (JInt i) r"
proof (cases "i < 0")
  case True
  then have "minus_sign (str_of_int i @ r) = ([45], dec_of_nat (nat (- i)) @ r)"
    by (simp add: minus_sign_def str_of_int_def)
  moreover have "py_int_ascii 10 (45 # dec_of_nat (nat (- i))) = Inr i"
    using True assms(2) by (simp add: py_int_ascii_neg_digits int_fits_def)
  ultimately show ?thesis
    using int_digits_dec [OF assms(1), of "nat (- i)"] follows_plain [OF assms(1)] by (simp add: scan_number_def)
next
  case False
  have "hd (dec_of_nat (nat i) @ r) \<noteq> 45" using dec_hd_digit [of "nat i"] by (auto simp: hd_append is_digit09_def)
  then have "minus_sign (str_of_int i @ r) = ([], dec_of_nat (nat i) @ r)"
    using False by (simp add: minus_sign_def str_of_int_def)
  moreover have "py_int_ascii 10 (dec_of_nat (nat i)) = Inr i"
    using False assms(2) by (simp add: py_int_ascii_digits int_fits_def)
  ultimately show ?thesis
    using int_digits_dec [OF assms(1), of "nat i"] follows_plain [OF assms(1)] by (simp add: scan_number_def)
qed

text \<open>The values that come back whatever is written: no floats, proper text, unique keys.\<close>

fun readable :: "nat \<Rightarrow> json \<Rightarrow> bool" where
  "readable d JNull \<longleftrightarrow> True"
| "readable d (JBool b) \<longleftrightarrow> True"
| "readable d (JInt i) \<longleftrightarrow> int_fits i"
| "readable d (JFloat t) \<longleftrightarrow> False"
| "readable d (JString s) \<longleftrightarrow> list_all plain_char s"
| "readable 0 (JList xs) \<longleftrightarrow> False"
| "readable (Suc d) (JList xs) \<longleftrightarrow> (\<forall>x \<in> set xs. readable d x)"
| "readable 0 (JDict kvs) \<longleftrightarrow> False"
| "readable (Suc d) (JDict kvs) \<longleftrightarrow>
     distinct (map fst kvs) \<and> (\<forall>p \<in> set kvs. list_all plain_char (fst p) \<and> readable d (snd p))"

definition value_head :: "nat \<Rightarrow> bool" where
  "value_head c \<longleftrightarrow> c \<in> {34, 45, 91, 102, 110, 116, 123} \<or> is_digit09 c"

lemma str_of_int_cases:
  obtains c cs where "str_of_int i = c # cs" "is_digit09 c"
  | c cs where "str_of_int i = 45 # c # cs" "is_digit09 c"
proof -
  obtain c cs where c: "dec_of_nat (nat \<bar>i\<bar>) = c # cs" "is_digit09 c"
    using dec_hd_digit [of "nat \<bar>i\<bar>"] dec_of_nat_not_Nil [of "nat \<bar>i\<bar>"] by (cases "dec_of_nat (nat \<bar>i\<bar>)") auto
  show thesis
  proof (cases "i < 0")
    case True
    then have "str_of_int i = 45 # c # cs" using c(1) by (simp add: str_of_int_def)
    then show thesis using that(2) c(2) by blast
  next
    case False
    then have "str_of_int i = c # cs" using c(1) by (simp add: str_of_int_def)
    then show thesis using that(1) c(2) by blast
  qed
qed

lemma dumps_head: "readable d v \<Longrightarrow> \<exists>c cs. dumps ascii v = c # cs \<and> value_head c"
proof (cases v)
  case (JInt i)
  then show ?thesis by (cases i rule: str_of_int_cases) (simp_all add: value_head_def)
qed (auto simp: lit_def value_head_def dump_string_def)

lemma value_head_plain: "value_head c \<Longrightarrow> \<not> json_space c \<and> c \<noteq> 93 \<and> c \<noteq> 125"
  by (auto simp: value_head_def json_space_def is_digit09_def)

lemma skip_ws_value: "readable d v \<Longrightarrow> skip_ws (dumps ascii v @ r) = dumps ascii v @ r"
  using dumps_head [of d v ascii] value_head_plain by (auto simp: skip_ws_def)

lemma skip_ws_plain: "\<not> json_space c \<Longrightarrow> skip_ws (c # cs) = c # cs"
  by (simp add: skip_ws_def)

lemma scan_literal:
  "(t, v) \<in> {(lit ''null'', JNull), (lit ''true'', JBool True), (lit ''false'', JBool False)} \<Longrightarrow>
   scan (Suc n) depth (t @ r) = Parsed v r"
  by (auto simp: scan_scalar_def literals_def starts_with_def lit_def)

lemma scan_int:
  assumes "follows r" and "int_fits i"
  shows "scan (Suc n) depth (str_of_int i @ r) = Parsed (JInt i) r"
proof -
  have "List.find (\<lambda>(t, v). starts_with t (str_of_int i @ r)) literals = None \<and>
      scan (Suc n) depth (str_of_int i @ r) = scan_scalar (str_of_int i @ r)"
    by (cases i rule: str_of_int_cases)
      (auto simp: literals_def starts_with_def lit_def is_digit09_def)
  then show ?thesis by (simp add: scan_scalar_def scan_number_int [OF assms])
qed

lemma scan_text: "list_all plain_char s \<Longrightarrow> scan (Suc n) depth (dump_string ascii s @ r) = Parsed (JString s) r"
  by (simp add: dump_string_def scan_dumped)

lemma join_with_length: "xs \<noteq> [] \<Longrightarrow> length (join_with c (x # xs)) = length x + 1 + length (join_with c xs)"
  by (cases xs) simp_all

lemma join_with_Cons: "xs \<noteq> [] \<Longrightarrow> join_with c (x # xs) = x @ c # join_with c xs"
  by (cases xs) simp_all

lemma follows_Cons [simp]: "follows (44 # r)" "follows (93 # r)" "follows (125 # r)" "follows []"
  by (simp_all add: follows_def)

definition reads_back :: "bool \<Rightarrow> nat \<Rightarrow> json \<Rightarrow> bool" where
  "reads_back ascii d v \<longleftrightarrow>
     (\<forall>n r. follows r \<longrightarrow> 2 * length (dumps ascii v) < n \<longrightarrow> scan n d (dumps ascii v @ r) = Parsed v r)"

lemma reads_backD:
  "reads_back ascii d v \<Longrightarrow> follows r \<Longrightarrow> 2 * length (dumps ascii v) < n \<Longrightarrow> scan n d (dumps ascii v @ r) = Parsed v r"
  by (simp add: reads_back_def)

lemma scan_items_dumps:
  assumes "xs \<noteq> []" and "\<forall>x \<in> set xs. readable d x \<and> reads_back ascii d x"
    and "2 * length (join_with 44 (map (dumps ascii) xs)) + 1 < n"
  shows "scan_items n d acc (join_with 44 (map (dumps ascii) xs) @ 93 # r) = Parsed (JList (acc @ xs)) r"
  using assms
proof (induction xs arbitrary: acc n)
  case (Cons x xs)
  then obtain m where m: "n = Suc m" by (cases n) auto
  show ?case
  proof (cases "xs = []")
    case True
    have "scan m d (dumps ascii x @ 93 # r) = Parsed x (93 # r)"
      by (rule reads_backD) (use Cons.prems m True in simp_all)
    then show ?thesis using m True by (simp add: skip_ws_plain json_space_def)
  next
    case False
    let ?rest = "join_with 44 (map (dumps ascii) xs) @ 93 # r"
    obtain y ys where ys: "xs = y # ys" using False by (cases xs) auto
    have len: "2 * (length (dumps ascii x) + 1 + length (join_with 44 (map (dumps ascii) xs))) + 1 < n"
      using Cons.prems(3) False by (simp add: join_with_length)
    have "skip_ws ?rest = ?rest"
      using skip_ws_value [of d y ascii] Cons.prems(2) ys by (cases ys) auto
    moreover have "scan m d (dumps ascii x @ 44 # ?rest) = Parsed x (44 # ?rest)"
      by (rule reads_backD) (use Cons.prems len m in simp_all)
    moreover have "scan_items m d (acc @ [x]) ?rest = Parsed (JList ((acc @ [x]) @ xs)) r"
      by (rule Cons.IH [OF False]) (use Cons.prems len m in simp_all)
    ultimately show ?thesis using m False by (simp add: join_with_Cons skip_ws_plain json_space_def)
  qed
qed simp

lemma reads_backI:
  "(\<And>n r. follows r \<Longrightarrow> scan (Suc n) d (dumps ascii v @ r) = Parsed v r) \<Longrightarrow> reads_back ascii d v"
  by (auto simp: reads_back_def gr0_conv_Suc dest!: less_imp_Suc_add simp del: scan.simps)

definition member_text :: "bool \<Rightarrow> pystr \<times> json \<Rightarrow> pystr" where
  "member_text ascii p = dump_string ascii (fst p) @ 58 # dumps ascii (snd p)"

lemma dumps_members: "dumps ascii (JDict kvs) = 123 # join_with 44 (map (member_text ascii) kvs) @ [125]"
proof -
  have "map (\<lambda>(k, v). dump_string ascii k @ 58 # dumps ascii v) kvs = map (member_text ascii) kvs"
    by (rule map_cong) (auto simp: member_text_def)
  then show ?thesis by (simp only: dumps.simps)
qed

lemma update_new: "k \<notin> fst ` set acc \<Longrightarrow> AList.update k v acc = acc @ [(k, v)]"
  by (induction acc) auto

lemma scan_member:
  assumes "list_all plain_char (fst p)" and "readable d (snd p)" and "reads_back ascii d (snd p)"
    and "follows (c # cs)" and "\<not> json_space c" and "2 * length (member_text ascii p) < n"
    and "fst p \<notin> fst ` set acc"
  shows "scan_members (Suc n) d acc (member_text ascii p @ c # cs) =
    (if c = 125 then Parsed (JDict (acc @ [p])) cs
     else if c = 44 then scan_members n d (acc @ [p]) (skip_ws cs) else DecodeError)"
proof -
  obtain k v where p: "p = (k, v)" by (cases p)
  have "scan_string (concat (map (escape_char ascii) k) @ 34 # 58 # dumps ascii v @ c # cs) =
      Some (k, 58 # dumps ascii v @ c # cs)"
    by (rule scan_dumped) (use assms(1) p in simp)
  moreover have "scan n d (dumps ascii v @ c # cs) = Parsed v (c # cs)"
    by (rule reads_backD) (use assms(3,4,6) p in \<open>simp_all add: member_text_def\<close>)
  moreover have "skip_ws (dumps ascii v @ c # cs) = dumps ascii v @ c # cs"
    using skip_ws_value assms(2) p by simp
  ultimately show ?thesis
    using assms(5,7) p
    by (simp add: member_text_def dump_string_def skip_ws_plain json_space_def [of 58] update_new)
qed

lemma scan_members_dumps:
  assumes "kvs \<noteq> []" and "\<forall>p \<in> set kvs. list_all plain_char (fst p) \<and> readable d (snd p) \<and> reads_back ascii d (snd p)"
    and "2 * length (join_with 44 (map (member_text ascii) kvs)) + 1 < n"
    and "distinct (map fst acc @ map fst kvs)"
  shows "scan_members n d acc (join_with 44 (map (member_text ascii) kvs) @ 125 # r) = Parsed (JDict (acc @ kvs)) r"
  using assms
proof (induction kvs arbitrary: acc n)
  case (Cons p kvs)
  then obtain m where m: "n = Suc m" by (cases n) auto
  have p: "list_all plain_char (fst p)" "readable d (snd p)" "reads_back ascii d (snd p)" "fst p \<notin> fst ` set acc"
    using Cons.prems(2,4) by auto
  show ?case
  proof (cases "kvs = []")
    case True
    then show ?thesis
      using scan_member [OF p(1-3), of 125 r m acc] p(4) Cons.prems(3) m by (simp add: json_space_def)
  next
    case False
    let ?rest = "join_with 44 (map (member_text ascii) kvs) @ 125 # r"
    obtain q qs where qs: "kvs = q # qs" using False by (cases kvs) auto
    have len: "2 * (length (member_text ascii p) + 1 + length (join_with 44 (map (member_text ascii) kvs))) + 1 < n"
      using Cons.prems(3) False by (simp add: join_with_length)
    have "skip_ws ?rest = ?rest"
      using qs by (cases qs) (simp_all add: member_text_def dump_string_def skip_ws_plain json_space_def)
    moreover have "scan_members m d (acc @ [p]) ?rest = Parsed (JDict ((acc @ [p]) @ kvs)) r"
      by (rule Cons.IH [OF False]) (use Cons.prems len m in simp_all)
    ultimately show ?thesis
      using scan_member [OF p(1-3), of 44 ?rest m acc] p(4) len m False
      by (simp add: join_with_Cons json_space_def)
  qed
qed simp

text \<open>What \<open>dumps\<close> writes is read back, whatever follows it.\<close>

lemma scan_dumps: "readable d v \<Longrightarrow> reads_back ascii d v"
proof (induction d v rule: readable.induct)
  case (7 d xs)
  show ?case
  proof (unfold reads_back_def, intro allI impI)
    fix n r assume "2 * length (dumps ascii (JList xs)) < n"
    then obtain m where m: "n = Suc m" and len: "2 * length (join_with 44 (map (dumps ascii) xs)) + 1 < m"
      by (cases n) auto
    show "scan n (Suc d) (dumps ascii (JList xs) @ r) = Parsed (JList xs) r"
    proof (cases xs)
      case (Cons y ys)
      then obtain c cs where c: "join_with 44 (map (dumps ascii) xs) = c # cs" "value_head c"
        using dumps_head [of d y ascii] 7(2) by (cases ys) auto
      then have "skip_ws (join_with 44 (map (dumps ascii) xs) @ 93 # r) = c # cs @ 93 # r \<and> c \<noteq> 93"
        using value_head_plain [of c] by (simp add: skip_ws_plain)
      then show ?thesis
        using scan_items_dumps [of xs d ascii m "[]" r] 7 Cons len m c(1) by simp
    qed (simp add: m skip_ws_plain json_space_def)
  qed
next
  case (9 d kvs)
  show ?case
  proof (unfold reads_back_def, intro allI impI)
    fix n r assume "2 * length (dumps ascii (JDict kvs)) < n"
    then obtain m where m: "n = Suc m" and len: "2 * length (join_with 44 (map (member_text ascii) kvs)) + 1 < m"
      by (cases n) (auto simp del: dumps.simps simp: dumps_members)
    show "scan n (Suc d) (dumps ascii (JDict kvs) @ r) = Parsed (JDict kvs) r"
    proof (cases kvs)
      case (Cons q qs)
      then obtain cs where c: "join_with 44 (map (member_text ascii) kvs) = 34 # cs"
        by (cases qs) (auto simp: member_text_def dump_string_def)
      moreover have "scan_members m d [] (join_with 44 (map (member_text ascii) kvs) @ 125 # r) = Parsed (JDict ([] @ kvs)) r"
        by (rule scan_members_dumps) (use 9 Cons len in auto)
      ultimately show ?thesis
        by (simp del: dumps.simps add: dumps_members m skip_ws_plain json_space_def)
    qed (simp add: m skip_ws_plain json_space_def)
  qed
next
  case (1 d)
  then show ?case by (intro reads_backI) (simp add: scan_literal del: scan.simps)
next
  case (2 d b)
  then show ?case by (intro reads_backI) (simp add: scan_literal del: scan.simps)
next
  case (3 d i)
  then show ?case by (intro reads_backI) (simp add: scan_int del: scan.simps)
next
  case (5 d s)
  then show ?case by (intro reads_backI) (simp add: scan_text del: scan.simps)
qed simp_all

lemma loads_dumps:
  assumes "readable depth v"
  shows "loads depth (dumps ascii v) = Inr v"
proof -
  have "scan (Suc (2 * length (dumps ascii v))) depth (dumps ascii v @ []) = Parsed v []"
    by (rule reads_backD [OF scan_dumps [OF assms]]) simp_all
  moreover have "skip_ws (dumps ascii v) = dumps ascii v"
    using skip_ws_value [OF assms, of ascii "[]"] by simp
  ultimately show ?thesis by (simp add: loads_def skip_ws_def del: scan.simps)
qed

lemma dec_pass_text: "dec_text bs = Some s \<Longrightarrow> dec_pass bs = Some s"
  by (induction bs arbitrary: s rule: dec_text.induct)
    (auto simp: Let_def split: if_splits list.splits)

text \<open>A document that begins with two ASCII characters is read as UTF-8.\<close>

lemma json_text_encode:
  assumes "utf8_encode (c # d # t) = Inr b" and "0 < c" "c < 128" "0 < d" "d < 128"
  shows "json_text b = Some (c # d # t)"
proof -
  obtain bs where bs: "enc_text t = Inr bs" "b = map of_nat (c # d # bs)"
    using assms by (auto simp: utf8_encode_def enc_char_def rbind_eq_Inr)
  then have b: "map unat b = c # d # bs"
    using assms enc_text_bytes [of "c # d # t" "c # d # bs"] unat_of_nat_bytes [of "c # d # bs"]
    by (simp add: enc_char_def)
  have "detect_encoding (c # d # bs) = UTF8" using assms by (auto simp: detect_encoding_def)
  moreover have "dec_text (c # d # bs) = Some (c # d # t)"
    using dec_enc_text [of "c # d # t" "c # d # bs"] bs assms by (simp add: enc_char_def)
  ultimately show ?thesis by (simp only: json_text_def b Let_def encoding.case dec_pass_text)
qed

section \<open>ASCII output\<close>

lemma hex4_ascii: "is_ascii (hex4 n)"
proof -
  have "x mod 16 < 41" for x :: nat by (rule less_trans [of _ 16]) simp_all
  then show ?thesis by (simp add: is_ascii_def hex4_def)
qed

lemma escape_ascii: "is_ascii (escape_char True c)"
  using hex4_ascii by (simp add: escape_char_def u_escape_def is_ascii_def)

lemma is_ascii_append [simp]: "is_ascii (s @ t) \<longleftrightarrow> is_ascii s \<and> is_ascii t"
  by (simp add: is_ascii_def)

lemma is_ascii_Cons [simp]: "is_ascii (c # s) \<longleftrightarrow> c < 128 \<and> is_ascii s"
  by (simp add: is_ascii_def)

lemma is_ascii_Nil [simp]: "is_ascii []"
  by (simp add: is_ascii_def)

lemma dump_string_ascii: "is_ascii (dump_string True s)"
proof -
  have "is_ascii (concat (map (escape_char True) s))" by (induction s) (simp_all add: escape_ascii)
  then show ?thesis by (simp add: dump_string_def)
qed

lemma join_with_ascii: "c < 128 \<Longrightarrow> \<forall>x \<in> set xs. is_ascii x \<Longrightarrow> is_ascii (join_with c xs)"
  by (induction c xs rule: join_with.induct) simp_all

lemma dumps_ascii: "readable d v \<Longrightarrow> is_ascii (dumps True v)"
proof (induction d v rule: readable.induct)
  case (3 d i)
  then show ?case using digits_ascii [OF all_digits09_dec_of_nat] by (simp add: str_of_int_def)
next
  case (7 d xs)
  then show ?case by (simp add: join_with_ascii)
next
  case (9 d kvs)
  have "is_ascii (member_text True p)" if "p \<in> set kvs" for p
    using 9 that by (cases p) (auto simp: member_text_def dump_string_ascii)
  then show ?case by (simp del: dumps.simps add: dumps_members join_with_ascii)
next
  case (5 d s)
  then show ?case using dump_string_ascii by simp
qed (simp_all add: lit_def is_ascii_def)

text \<open>So \<open>json.dumps\<close> of a dictionary, encoded, is read back from the bytes.\<close>

lemma loads_bytes_dumps:
  assumes "readable depth (JDict kvs)" and "utf8_encode (dumps ascii (JDict kvs)) = Inr b"
  shows "loads_bytes depth b = Inr (JDict kvs)"
proof -
  obtain c t where c: "dumps ascii (JDict kvs) = 123 # c # t" "0 < c" "c < 128"
  proof (cases kvs)
    case Nil
    then show thesis using that [of 125 "[]"] by simp
  next
    case (Cons p ps)
    then obtain u where "join_with 44 (map (member_text ascii) kvs) = 34 # u"
      by (cases ps) (auto simp: member_text_def dump_string_def)
    then show thesis using that [of 34 "u @ [125]"] by (simp del: dumps.simps add: dumps_members)
  qed
  have "json_text b = Some (dumps ascii (JDict kvs))"
    unfolding c(1) by (rule json_text_encode [OF assms(2) [unfolded c(1)]]) (use c in simp_all)
  then show ?thesis using loads_dumps [OF assms(1)] by (simp only: loads_bytes_def option.case)
qed

end
