(* ===== verification/Assertion.thy ===== *)
theory Assertion
  imports Json Base64 Sdp "HOL-Library.List_Lexorder"
begin

text \<open>
  The text side of \<open>identity.py\<close>: the fingerprint payload of an SDP, the envelope, and the
  \<open>a=identity\<close> attribute: inserting, finding and removing it. \<open>InvalidIdentity\<close> is what these
  functions are documented to raise; the other exceptions escape them.
\<close>

section \<open>Exceptions\<close>

datatype identity_exn =
    InvalidIdentity | RecursionError | TypeError | UnsupportedAlgorithm
  | Builtin py_exn                       \<comment> \<open>\<open>UnicodeEncodeError\<close> and \<open>OverflowError\<close>\<close>

type_synonym 'a checked = "identity_exn + 'a"

definition ebind :: "'a checked \<Rightarrow> ('a \<Rightarrow> 'b checked) \<Rightarrow> 'b checked" where
  "ebind r f = (case r of Inl e \<Rightarrow> Inl e | Inr x \<Rightarrow> f x)"

lemma ebind_simps [simp]: "ebind (Inl e) f = Inl e" "ebind (Inr x) f = f x"
  by (simp_all add: ebind_def)

lemma ebind_eq_Inr: "ebind r f = Inr y \<longleftrightarrow> (\<exists>x. r = Inr x \<and> f x = Inr y)"
  by (cases r) simp_all

lemma ebind_eq_Inl: "ebind r f = Inl e \<longleftrightarrow> r = Inl e \<or> (\<exists>x. r = Inr x \<and> f x = Inl e)"
  by (cases r) simp_all

definition builtin :: "'a result \<Rightarrow> 'a checked" where
  "builtin r = (case r of Inl e \<Rightarrow> Inl (Builtin e) | Inr x \<Rightarrow> Inr x)"

lemma builtin_simps [simp]: "builtin (Inl e) = Inl (Builtin e)" "builtin (Inr x) = Inr x"
  by (simp_all add: builtin_def)

lemma builtin_eq_Inr [simp]: "builtin r = Inr x \<longleftrightarrow> r = Inr x"
  by (cases r) simp_all

text \<open>A failed parse is an \<open>InvalidIdentity\<close>; a \<open>RecursionError\<close> is no \<open>ValueError\<close> and passes.\<close>

definition valid_or :: "'a option \<Rightarrow> 'a checked" where
  "valid_or x = (case x of None \<Rightarrow> Inl InvalidIdentity | Some v \<Rightarrow> Inr v)"

lemma valid_or_simps [simp]: "valid_or None = Inl InvalidIdentity" "valid_or (Some x) = Inr x"
  by (simp_all add: valid_or_def)

lemma valid_or_eq_Inr [simp]: "valid_or x = Inr v \<longleftrightarrow> x = Some v"
  by (cases x) simp_all

definition parsed_json :: "json_exn + json \<Rightarrow> json checked" where
  "parsed_json r =
     (case r of Inl JsonValueError \<Rightarrow> Inl InvalidIdentity | Inl JsonRecursionError \<Rightarrow> Inl RecursionError
      | Inr v \<Rightarrow> Inr v)"

lemma parsed_json_simps [simp]:
  "parsed_json (Inr v) = Inr v" "parsed_json (Inl JsonValueError) = Inl InvalidIdentity"
  "parsed_json (Inl JsonRecursionError) = Inl RecursionError"
  by (simp_all add: parsed_json_def)

lemma parsed_json_eq_Inr [simp]: "parsed_json r = Inr v \<longleftrightarrow> r = Inr v"
  by (auto simp: parsed_json_def split: sum.splits json_exn.splits)

section \<open>The fingerprint payload\<close>

text \<open>\<open>_canonical_json\<close>: sorted keys, no white space, non-ASCII characters as they are.\<close>

fun sort_keys :: "json \<Rightarrow> json" where
  "sort_keys (JList xs) = JList (map sort_keys xs)"
| "sort_keys (JDict kvs) = JDict (sort_key fst (map (\<lambda>(k, v). (k, sort_keys v)) kvs))"
| "sort_keys v = v"

definition canonical_json :: "json \<Rightarrow> bytes result" where
  "canonical_json v = utf8_encode (dumps False (sort_keys v))"

text \<open>A line as \<open>str.splitlines()\<close> gives it, without its end.\<close>

definition chomp :: "pystr \<Rightarrow> pystr" where
  "chomp l =
     (if ends_with [13, 10] l then take (length l - 2) l
      else if l \<noteq> [] \<and> is_linebreak (last l) then butlast l else l)"

definition fingerprint_prefix :: pystr where "fingerprint_prefix = lit ''a=fingerprint:''"

text \<open>\<open>partition(" ")\<close> cuts at the first space.\<close>

definition fingerprint_entry :: "pystr \<Rightarrow> pystr \<times> pystr" where
  "fingerprint_entry s = (takeWhile (\<lambda>c. c \<noteq> 32) s, tl (dropWhile (\<lambda>c. c \<noteq> 32) s))"

definition fingerprints_of :: "pystr \<Rightarrow> (pystr \<times> pystr) list" where
  "fingerprints_of sdp =
     map (\<lambda>l. fingerprint_entry (drop (length fingerprint_prefix) l))
       (filter (starts_with fingerprint_prefix) (map (\<lambda>l. strip (chomp l)) (splitlines sdp)))"

definition fingerprint_json :: "(pystr \<times> pystr) list \<Rightarrow> json" where
  "fingerprint_json es =
     JDict [(lit ''fingerprint'',
       JList (map (\<lambda>(a, d). JDict [(lit ''algorithm'', JString a), (lit ''digest'', JString d)]) es))]"

definition fingerprint_payload :: "pystr \<Rightarrow> bytes result" where
  "fingerprint_payload sdp = canonical_json (fingerprint_json (fingerprints_of sdp))"

section \<open>The envelope\<close>

record identity_envelope =
  env_domain :: pystr
  env_protocol :: pystr
  env_token :: pystr
  env_fingerprints :: pystr

definition build_envelope :: "pystr \<Rightarrow> pystr \<Rightarrow> pystr \<Rightarrow> pystr result" where
  "build_envelope domain token fingerprints =
     (let assertion = dumps True (JDict [(lit ''token'', JString token), (lit ''fingerprints'', JString fingerprints)]);
          outer = dumps True (JDict
            [(lit ''idp'', JDict [(lit ''domain'', JString domain), (lit ''protocol'', JString (lit ''default''))]),
             (lit ''assertion'', JString assertion)])
      in rbind (utf8_encode outer) (\<lambda>b. Inr (b64encode b)))"

text \<open>
  \<open>value[key]\<close> on what \<open>json.loads\<close> returned: a \<open>KeyError\<close> or a \<open>TypeError\<close> if there is no such
  item, which \<open>_parse_envelope\<close> turns into \<open>InvalidIdentity\<close>.
\<close>

definition json_item :: "pystr \<Rightarrow> json \<Rightarrow> json option" where
  "json_item k v = (case v of JDict kvs \<Rightarrow> map_of kvs k | _ \<Rightarrow> None)"

text \<open>
  \<open>str(value)\<close>. The text of a float or of a container is Python's \<open>repr\<close>, a parameter; \<open>None\<close>
  is a \<open>RecursionError\<close>.
\<close>

definition py_str :: "(json \<Rightarrow> pystr option) \<Rightarrow> json \<Rightarrow> pystr checked" where
  "py_str repr v =
     (case v of
        JString s \<Rightarrow> Inr s
      | JNull \<Rightarrow> Inr (lit ''None'')
      | JBool b \<Rightarrow> Inr (if b then lit ''True'' else lit ''False'')
      | JInt i \<Rightarrow> Inr (str_of_int i)
      | _ \<Rightarrow> (case repr v of None \<Rightarrow> Inl RecursionError | Some s \<Rightarrow> Inr s))"

definition str_item :: "(json \<Rightarrow> pystr option) \<Rightarrow> pystr \<Rightarrow> json \<Rightarrow> pystr checked" where
  "str_item repr k v = ebind (valid_or (json_item k v)) (py_str repr)"

definition parse_envelope :: "(json \<Rightarrow> pystr option) \<Rightarrow> nat \<Rightarrow> pystr \<Rightarrow> identity_envelope checked" where
  "parse_envelope repr depth value =
     ebind (valid_or (b64decode True value)) (\<lambda>data.
     ebind (parsed_json (loads_bytes depth data)) (\<lambda>outer.
     ebind (valid_or (json_item (lit ''idp'') outer)) (\<lambda>idp.
     ebind (valid_or (json_item (lit ''assertion'') outer)) (\<lambda>assertion.
     ebind (case assertion of JString s \<Rightarrow> parsed_json (loads_str depth s) | _ \<Rightarrow> Inl InvalidIdentity) (\<lambda>inner.
     ebind (str_item repr (lit ''domain'') idp) (\<lambda>domain.
     ebind (str_item repr (lit ''protocol'') idp) (\<lambda>protocol.
     ebind (str_item repr (lit ''token'') inner) (\<lambda>token.
     ebind (str_item repr (lit ''fingerprints'') inner) (\<lambda>fingerprints.
       Inr \<lparr>env_domain = domain, env_protocol = protocol, env_token = token,
            env_fingerprints = fingerprints\<rparr>)))))))))"

section \<open>The attribute\<close>

definition identity_prefix :: pystr where "identity_prefix = lit ''a=identity:''"

definition identity_line :: "pystr \<Rightarrow> bool" where
  "identity_line l \<longleftrightarrow> starts_with identity_prefix (strip l)"

text \<open>The last of several attributes counts; all are removed.\<close>

definition extract_identity ::
    "(json \<Rightarrow> pystr option) \<Rightarrow> nat \<Rightarrow> pystr \<Rightarrow> (pystr \<times> identity_envelope option) checked" where
  "extract_identity repr depth sdp =
     (let (kept, value) = foldl (\<lambda>(kept, value) line.
            if identity_line line then (kept, Some (drop (length identity_prefix) (strip line)))
            else (kept @ [line], value)) ([], None) (splitlines sdp)
      in case value of
           None \<Rightarrow> Inr (sdp, None)
         | Some v \<Rightarrow> ebind (parse_envelope repr depth v) (\<lambda>e. Inr (concat kept, Some e)))"

definition strip_identity :: "pystr \<Rightarrow> pystr" where
  "strip_identity sdp = concat (filter (\<lambda>l. \<not> identity_line l) (splitlines sdp))"

definition insert_identity :: "pystr \<Rightarrow> pystr \<Rightarrow> pystr" where
  "insert_identity sdp envelope =
     (let newline = (if contains [13, 10] sdp then [13, 10] else [10]);
          attribute = identity_prefix @ envelope @ newline;
          (out, inserted) = foldl (\<lambda>(out, inserted) line.
            if \<not> inserted \<and> starts_with (lit ''m='') line then (out @ [attribute, line], True)
            else (out @ [line], inserted)) ([], False) (splitlines sdp)
      in concat (if inserted then out else out @ [attribute]))"

section \<open>Lemmas on lines\<close>

lemma rejoin_fixed: "rejoin (xs @ ys) = xs @ ys \<Longrightarrow> rejoin xs = xs \<and> rejoin ys = ys"
proof (induction xs rule: rejoin.induct)
  case (2 l)
  then show ?case by (cases ys) (auto split: if_splits)
next
  case (3 l m ls)
  then show ?case by (auto split: if_splits)
qed simp

lemma rejoin_splitlines: "rejoin (splitlines s) = splitlines s"
  using resplit [OF line_list_splitlines, of s] by simp

lemma splitlines_after_complete:
  assumes "\<forall>l \<in> set ls. complete_line l" and "rejoin ls = ls" and "\<And>r. t \<noteq> 10 # r"
  shows "splitlines (concat ls @ t) = ls @ splitlines t"
  using assms(1,2)
proof (induction ls)
  case (Cons l ls)
  have "rejoin ls = ls" using rejoin_fixed [of "[l]" ls] Cons.prems(2) by simp
  moreover have "\<not> (last l = 13 \<and> (\<exists>r. concat ls @ t = 10 # r))"
  proof (cases ls)
    case Nil
    then show ?thesis using assms(3) by simp
  next
    case (Cons m ms)
    have m: "complete_line m" using Cons.prems(1) Cons by simp
    then obtain c cs where c: "m = c # cs" by (cases m) (auto simp: complete_line_def line_end_def)
    have "\<not> (last l = 13 \<and> m = [10])" using Cons.prems(2) Cons by auto
    then show ?thesis using line_starting_lf [of m cs] m c Cons by auto
  qed
  ultimately show ?case using Cons by (simp add: splitlines_complete)
qed simp

lemma line_list_append: "line_list (xs @ ys) \<Longrightarrow> ys \<noteq> [] \<Longrightarrow> (\<forall>l \<in> set xs. complete_line l) \<and> line_list ys"
  by (induction xs) (auto simp: line_list_Cons)

lemma line_list_complete:
  "line_list ls \<Longrightarrow> ls \<noteq> [] \<Longrightarrow> is_linebreak (last (concat ls)) \<Longrightarrow> \<forall>l \<in> set ls. complete_line l"
proof (induction ls)
  case (Cons l ls)
  show ?case
  proof (cases "ls = []")
    case True
    then show ?thesis using Cons.prems by (auto simp: line_list_Cons open_line_def)
  next
    case False
    then have l: "complete_line l" "line_list ls" using Cons.prems(1) by (auto simp: line_list_Cons)
    obtain m ms where ms: "ls = m # ms" using False by (cases ls) auto
    then have "m \<noteq> []" using l(2) by (auto simp: line_list_Cons complete_line_def line_end_def open_line_def)
    then have "concat ls \<noteq> []" using ms by simp
    then show ?thesis using Cons False l by simp
  qed
qed simp

text \<open>Where an attribute can be inserted: before an \<open>m=\<close> line, or after a complete last line.\<close>

definition insertable :: "pystr \<Rightarrow> bool" where
  "insertable sdp \<longleftrightarrow>
     list_ex (starts_with (lit ''m='')) (splitlines sdp) \<or> sdp = [] \<or> is_linebreak (last sdp)"

definition before_media :: "pystr \<Rightarrow> pystr list" where
  "before_media sdp = takeWhile (\<lambda>l. \<not> starts_with (lit ''m='') l) (splitlines sdp)"

definition from_media :: "pystr \<Rightarrow> pystr list" where
  "from_media sdp = dropWhile (\<lambda>l. \<not> starts_with (lit ''m='') l) (splitlines sdp)"

lemma media_split: "splitlines sdp = before_media sdp @ from_media sdp"
  by (simp add: before_media_def from_media_def)

lemma insertable_complete:
  assumes "insertable sdp"
  shows "\<forall>l \<in> set (before_media sdp). complete_line l"
proof (cases "from_media sdp = []")
  case False
  then show ?thesis using line_list_append line_list_splitlines [of sdp] media_split by simp
next
  case True
  then have lines: "before_media sdp = splitlines sdp" using media_split [of sdp] by simp
  have "\<not> list_ex (starts_with (lit ''m='')) (splitlines sdp)"
    using True by (simp add: from_media_def dropWhile_eq_Nil_conv list_ex_iff)
  then have "sdp = [] \<or> is_linebreak (last (concat (splitlines sdp)))" using assms by (simp add: insertable_def)
  then show ?thesis
    unfolding lines using line_list_complete [OF line_list_splitlines, of sdp] by (cases "sdp = []") auto
qed

section \<open>The attribute, inserted and found again\<close>

definition new_line :: "pystr \<Rightarrow> pystr" where
  "new_line sdp = (if contains [13, 10] sdp then [13, 10] else [10])"

lemma insert_loop:
  "foldl (\<lambda>(out, inserted) line.
      if \<not> inserted \<and> starts_with p line then (out @ [a, line], True) else (out @ [line], inserted)) (out, b) ls =
    (if b then (out @ ls, True)
     else (out @ takeWhile (\<lambda>l. \<not> starts_with p l) ls @
            (if list_ex (starts_with p) ls then a # dropWhile (\<lambda>l. \<not> starts_with p l) ls else []),
          list_ex (starts_with p) ls))"
  by (induction ls arbitrary: out b) simp_all

lemma insert_identity_eq:
  "insert_identity sdp e =
    concat (before_media sdp @ [identity_prefix @ e @ new_line sdp] @ from_media sdp)"
proof (cases "list_ex (starts_with (lit ''m='')) (splitlines sdp)")
  case False
  then have "before_media sdp = splitlines sdp" "from_media sdp = []"
    by (simp_all add: before_media_def from_media_def takeWhile_eq_all_conv dropWhile_eq_Nil_conv list_ex_iff)
  note lines = this
  have first: "takeWhile (\<lambda>l. \<not> starts_with (lit ''m='') l) (splitlines sdp) = splitlines sdp"
    using lines(1) by (simp only: before_media_def)
  show ?thesis
    using False by (simp add: insert_identity_def insert_loop new_line_def [symmetric] Let_def lines first)
qed (simp add: insert_identity_def insert_loop new_line_def [symmetric] before_media_def from_media_def Let_def)

definition attribute_text :: "pystr \<Rightarrow> bool" where
  "attribute_text e \<longleftrightarrow> (\<forall>c \<in> set e. \<not> uni_space c)"

lemma linebreak_space: "is_linebreak c \<Longrightarrow> uni_space c"
  by (auto simp: is_linebreak_def uni_space_def)

lemma identity_prefix_text: "identity_prefix = [97, 61, 105, 100, 101, 110, 116, 105, 116, 121, 58]"
  by (simp add: identity_prefix_def lit_def)

lemma prefix_plain: "attribute_text identity_prefix"
  by (simp add: attribute_text_def identity_prefix_text uni_space_def)

lemma strip_spaces:
  assumes "attribute_text x" and "\<forall>c \<in> set b. uni_space c"
  shows "strip (x @ b) = x"
proof -
  have none: "dropWhile uni_space y = y" if "\<forall>c \<in> set y. \<not> uni_space c" for y
    using that by (cases y) simp_all
  have all: "dropWhile uni_space (y @ z) = dropWhile uni_space z" if "\<forall>c \<in> set y. uni_space c" for y z
    using that by (induction y) simp_all
  show ?thesis
  proof (cases x)
    case Nil
    then show ?thesis using assms(2) by (auto simp: strip_def dropWhile_eq_Nil_conv dest: set_dropWhileD)
  next
    case (Cons c cs)
    then have "dropWhile uni_space (x @ b) = x @ b" using assms(1) by (simp add: attribute_text_def)
    moreover have "dropWhile uni_space (rev b @ rev x) = rev x"
      using all [of "rev b" "rev x"] none [of "rev x"] assms by (simp add: attribute_text_def)
    ultimately show ?thesis by (simp add: strip_def)
  qed
qed

lemma new_line_facts: "line_end (new_line sdp)" "\<forall>c \<in> set (new_line sdp). uni_space c" "last (new_line sdp) = 10"
  by (simp_all add: new_line_def line_end_def uni_space_def)

lemma attribute_line:
  assumes "attribute_text e"
  shows "complete_line (identity_prefix @ e @ new_line sdp)"
    and "strip (identity_prefix @ e @ new_line sdp) = identity_prefix @ e"
proof -
  have plain: "attribute_text (identity_prefix @ e)" using assms prefix_plain by (auto simp: attribute_text_def)
  show "strip (identity_prefix @ e @ new_line sdp) = identity_prefix @ e"
    using strip_spaces [OF plain new_line_facts(2)] by simp
  show "complete_line (identity_prefix @ e @ new_line sdp)"
    unfolding complete_line_def
    by (rule exI [of _ "identity_prefix @ e"], rule exI [of _ "new_line sdp"])
      (use plain linebreak_space new_line_facts(1) in \<open>auto simp: attribute_text_def\<close>)
qed

lemma insert_splits:
  assumes "insertable sdp" and "attribute_text e"
  shows "splitlines (insert_identity sdp e) =
    before_media sdp @ (identity_prefix @ e @ new_line sdp) # from_media sdp"
proof -
  let ?a = "identity_prefix @ e @ new_line sdp"
  have fixed: "rejoin (before_media sdp) = before_media sdp" "rejoin (from_media sdp) = from_media sdp"
    using rejoin_fixed [of "before_media sdp" "from_media sdp"] rejoin_splitlines [of sdp] by (simp_all add: media_split)
  have "line_list (from_media sdp)"
    using line_list_append [of "before_media sdp" "from_media sdp"] line_list_splitlines [of sdp]
    by (cases "from_media sdp = []") (simp_all add: media_split)
  then have "splitlines (concat (from_media sdp)) = from_media sdp" using resplit fixed(2) by simp
  moreover have "splitlines (?a @ concat (from_media sdp)) = ?a # splitlines (concat (from_media sdp))"
    by (rule splitlines_complete [OF attribute_line(1) [OF assms(2)]])
      (simp add: new_line_facts(3) new_line_def split: if_splits)
  moreover have "splitlines (concat (before_media sdp) @ ?a @ concat (from_media sdp)) =
      before_media sdp @ splitlines (?a @ concat (from_media sdp))"
    by (rule splitlines_after_complete [OF insertable_complete [OF assms(1)] fixed(1)])
      (simp add: identity_prefix_text)
  ultimately show ?thesis by (simp add: insert_identity_eq)
qed

lemma extract_loop:
  "foldl (\<lambda>(kept, found) line. if Q line then (kept, Some (g line)) else (kept @ [line], found)) (kept, found) ls =
    (kept @ filter (\<lambda>l. \<not> Q l) ls, if filter Q ls = [] then found else Some (g (last (filter Q ls))))"
  by (induction ls arbitrary: kept found) simp_all

lemma extract_identity_eq:
  "extract_identity repr depth sdp =
    (let ls = filter identity_line (splitlines sdp) in
     if ls = [] then Inr (sdp, None)
     else ebind (parse_envelope repr depth (drop (length identity_prefix) (strip (last ls))))
            (\<lambda>e. Inr (strip_identity sdp, Some e)))"
  by (simp add: extract_identity_def extract_loop strip_identity_def Let_def)

definition no_identity :: "pystr \<Rightarrow> bool" where
  "no_identity sdp \<longleftrightarrow> list_all (\<lambda>l. \<not> identity_line l) (splitlines sdp)"

lemma no_identity_filter:
  "no_identity sdp \<longleftrightarrow> filter identity_line (splitlines sdp) = []"
  "no_identity sdp \<longleftrightarrow> filter (\<lambda>l. \<not> identity_line l) (splitlines sdp) = splitlines sdp"
  by (auto simp: no_identity_def list_all_iff filter_empty_conv filter_id_conv)

lemma strip_identity_none: "no_identity sdp \<Longrightarrow> strip_identity sdp = sdp"
  unfolding strip_identity_def no_identity_filter(2) by simp

lemma extract_identity_none: "no_identity sdp \<Longrightarrow> extract_identity repr depth sdp = Inr (sdp, None)"
  by (simp add: extract_identity_eq no_identity_filter(1) Let_def)

lemma strip_identity_clean: "no_identity (strip_identity sdp)"
  unfolding no_identity_def list_all_iff strip_identity_def
  by (intro ballI, rule splitlines_filtered) (simp_all add: identity_line_def)

lemma extract_identity_clean:
  "extract_identity repr depth sdp = Inr (kept, value) \<Longrightarrow> no_identity kept \<and> kept = strip_identity sdp"
  by (auto simp: extract_identity_eq Let_def ebind_eq_Inr no_identity_filter(1) [symmetric]
      strip_identity_none strip_identity_clean split: if_splits)

lemma identity_attribute:
  assumes "attribute_text e"
  shows "identity_line (identity_prefix @ e @ new_line sdp)"
  by (simp add: identity_line_def attribute_line(2) [OF assms])

lemma inserted_lines:
  assumes "no_identity sdp" and "insertable sdp" and "attribute_text e"
  shows "filter identity_line (splitlines (insert_identity sdp e)) = [identity_prefix @ e @ new_line sdp]"
    and "filter (\<lambda>l. \<not> identity_line l) (splitlines (insert_identity sdp e)) = splitlines sdp"
proof -
  have "filter identity_line (before_media sdp @ from_media sdp) = []"
      "filter (\<lambda>l. \<not> identity_line l) (before_media sdp @ from_media sdp) = splitlines sdp"
    using assms(1) no_identity_filter [of sdp] media_split [of sdp] by simp_all
  then show "filter identity_line (splitlines (insert_identity sdp e)) = [identity_prefix @ e @ new_line sdp]"
      "filter (\<lambda>l. \<not> identity_line l) (splitlines (insert_identity sdp e)) = splitlines sdp"
    using identity_attribute [OF assms(3), of sdp] by (simp_all add: insert_splits [OF assms(2,3)])
qed

lemma strip_inserted:
  assumes "no_identity sdp" and "insertable sdp" and "attribute_text e"
  shows "strip_identity (insert_identity sdp e) = sdp"
  using inserted_lines(2) [OF assms] by (simp add: strip_identity_def)

lemma extract_inserted:
  assumes "no_identity sdp" and "insertable sdp" and "attribute_text e"
  shows "extract_identity repr depth (insert_identity sdp e) =
    ebind (parse_envelope repr depth e) (\<lambda>v. Inr (sdp, Some v))"
  by (simp add: extract_identity_eq inserted_lines(1) [OF assms] strip_inserted [OF assms]
      attribute_line(2) [OF assms(3)])

section \<open>The envelope, built and parsed\<close>

lemma ascii_plain: "is_ascii s \<Longrightarrow> list_all plain_char s"
  by (auto simp: is_ascii_def list_all_iff plain_char_def surrogate_def)

lemma b64_attribute: "attribute_text (b64encode data)"
proof -
  have "\<not> uni_space c" if "c \<in> set (b64encode data)" for c
  proof (cases "c = 61")
    case False
    then have "b64_letter c" using that body_letters [of c data] by (auto simp: b64encode_body)
    then show ?thesis by (simp add: b64_letter_def uni_space_def)
  qed (simp add: uni_space_def)
  then show ?thesis by (simp add: attribute_text_def)
qed

lemma distinct_keys:
  "lit ''idp'' \<noteq> lit ''assertion''" "lit ''domain'' \<noteq> lit ''protocol''" "lit ''token'' \<noteq> lit ''fingerprints''"
  "lit ''algorithm'' \<noteq> lit ''digest''" "lit ''alg'' \<noteq> lit ''typ''"
  by (simp_all add: lit_def)

lemma build_parses:
  assumes "list_all plain_char domain" and "list_all plain_char token" and "list_all plain_char fingerprints"
    and "2 \<le> depth"
  obtains e where "build_envelope domain token fingerprints = Inr e" "attribute_text e"
    "parse_envelope repr depth e = Inr \<lparr>env_domain = domain, env_protocol = lit ''default'',
      env_token = token, env_fingerprints = fingerprints\<rparr>"
proof -
  obtain d where d: "depth = Suc (Suc d)" using assms(4) by (metis add_2_eq_Suc le_Suc_ex)
  let ?inner = "JDict [(lit ''token'', JString token), (lit ''fingerprints'', JString fingerprints)]"
  let ?outer = "JDict [(lit ''idp'', JDict [(lit ''domain'', JString domain), (lit ''protocol'', JString (lit ''default''))]),
      (lit ''assertion'', JString (dumps True ?inner))]"
  have texts: "list_all plain_char (lit s)"
    if "s \<in> {''idp'', ''assertion'', ''domain'', ''protocol'', ''default'', ''token'', ''fingerprints''}" for s
    using that by (intro ascii_plain) (auto simp: is_ascii_def lit_def)
  have inner: "readable depth ?inner" using assms texts distinct_keys by (simp add: d)
  then have "list_all plain_char (dumps True ?inner)" by (intro ascii_plain dumps_ascii)
  then have outer: "readable depth ?outer" using assms texts distinct_keys by (simp add: d)
  let ?b = "map of_nat (dumps True ?outer) :: bytes"
  have b: "utf8_encode (dumps True ?outer) = Inr ?b" using outer by (intro utf8_encode_ascii dumps_ascii)
  have "loads_bytes depth ?b = Inr ?outer" by (rule loads_bytes_dumps [OF outer b])
  moreover have "loads_str depth (dumps True ?inner) = Inr ?inner"
    using loads_dumps [OF inner, of True] by (simp add: loads_str_def)
  ultimately have "parse_envelope repr depth (b64encode ?b) = Inr \<lparr>env_domain = domain, env_protocol = lit ''default'',
      env_token = token, env_fingerprints = fingerprints\<rparr>"
    using distinct_keys
    by (simp add: parse_envelope_def b64decode_encode json_item_def str_item_def py_str_def del: dumps.simps)
  moreover have "build_envelope domain token fingerprints = Inr (b64encode ?b)"
    unfolding build_envelope_def Let_def b by simp
  ultimately show thesis using that b64_attribute by blast
qed

section \<open>The payload determines the fingerprints\<close>

lemma enc_text_plain: "enc_text s = Inr bs \<Longrightarrow> list_all plain_char s"
proof (induction s arbitrary: bs)
  case (Cons c s)
  then obtain b r where "enc_char c = Inr b" "enc_text s = Inr r" by (auto simp: rbind_eq_Inr)
  moreover from this(1) have "plain_char c" by (auto simp: enc_char_def plain_char_def surrogate_def split: if_splits)
  ultimately show ?case using Cons by simp
qed simp

lemma utf8_encode_plain: "utf8_encode s = Inr b \<Longrightarrow> list_all plain_char s"
  using enc_text_plain by (auto simp: utf8_encode_def rbind_eq_Inr)

lemma plain_escape: "list_all plain_char (escape_char False c) \<Longrightarrow> plain_char c"
proof (cases "c < 32")
  case True
  then show ?thesis by (simp add: plain_char_def surrogate_def)
qed (auto simp: escape_char_def split: if_splits)

lemma plain_dump_string: "list_all plain_char (dump_string False s) \<Longrightarrow> list_all plain_char s"
proof -
  have "list_all plain_char (concat (map (escape_char False) s)) \<Longrightarrow> list_all plain_char s"
    by (induction s) (simp_all add: plain_escape)
  then show "list_all plain_char (dump_string False s) \<Longrightarrow> list_all plain_char s" by (simp add: dump_string_def)
qed

lemma plain_join: "list_all P (join_with c xs) \<Longrightarrow> \<forall>x \<in> set xs. list_all P x"
  by (induction c xs rule: join_with.induct) simp_all

lemma sorted_pair:
  "lit ''algorithm'' \<le> lit ''digest''"
  by (simp add: lit_def)

lemma fingerprint_json_sorted: "sort_keys (fingerprint_json es) = fingerprint_json es"
  by (auto simp: fingerprint_json_def sorted_pair sort_key_simps insort_key.simps)

definition entry_json :: "pystr \<times> pystr \<Rightarrow> json" where
  "entry_json = (\<lambda>(a, d). JDict [(lit ''algorithm'', JString a), (lit ''digest'', JString d)])"

lemma plain_entry:
  "list_all plain_char (dumps False (entry_json p)) \<Longrightarrow> list_all plain_char (fst p) \<and> list_all plain_char (snd p)"
  by (cases p) (auto simp: entry_json_def dest: plain_dump_string)

lemma fingerprint_dumps:
  "dumps False (fingerprint_json es) =
    123 # (dump_string False (lit ''fingerprint'') @ 58 # 91 # join_with 44 (map (dumps False \<circ> entry_json) es) @ [93]) @ [125]"
  by (simp add: fingerprint_json_def entry_json_def comp_def)

lemma fingerprint_readable:
  assumes "list_all plain_char (dumps False (fingerprint_json es))"
  shows "readable 3 (fingerprint_json es)"
proof -
  have "list_all plain_char (join_with 44 (map (dumps False \<circ> entry_json) es))"
    using assms by (simp add: fingerprint_dumps)
  from plain_join [OF this]
  have "\<forall>p \<in> set es. list_all plain_char (fst p) \<and> list_all plain_char (snd p)"
    by (simp add: plain_entry)
  moreover have "list_all plain_char (lit s)" if "s \<in> {''fingerprint'', ''algorithm'', ''digest''}" for s
    using that by (intro ascii_plain) (auto simp: is_ascii_def lit_def)
  ultimately show ?thesis
    using distinct_keys by (auto simp: fingerprint_json_def numeral_3_eq_3)
qed

lemma fingerprint_payload_inject:
  assumes "fingerprint_payload sdp = Inr b" and "fingerprint_payload sdp' = Inr b"
  shows "fingerprints_of sdp = fingerprints_of sdp'"
proof -
  have "loads 3 (dumps False (fingerprint_json es)) = Inr (fingerprint_json es)"
    if "utf8_encode (dumps False (fingerprint_json es)) = Inr b" for es
    using loads_dumps fingerprint_readable utf8_encode_plain that by blast
  moreover have "utf8_encode (dumps False (fingerprint_json (fingerprints_of s))) = Inr b"
    if "fingerprint_payload s = Inr b" for s
    using that by (simp add: fingerprint_payload_def canonical_json_def fingerprint_json_sorted)
  ultimately have "fingerprint_json (fingerprints_of sdp) = fingerprint_json (fingerprints_of sdp')"
    using assms utf8_decode_encode by (metis option.inject sum.inject(2))
  then have "map entry_json (fingerprints_of sdp) = map entry_json (fingerprints_of sdp')"
    by (simp add: fingerprint_json_def entry_json_def)
  then show ?thesis by (rule map_injective) (auto simp: inj_def entry_json_def)
qed

end
