(* ===== verification/Identity.thy ===== *)
theory Identity
  imports Assertion Sha256
begin

text \<open>
  The keys and tokens of \<open>identity.py\<close>: raw ECDSA signatures, the detached JWS over the
  fingerprints, the \<open>cpk\<close> claim, the self-signed JWT, and the two operations that peers use,
  \<open>IdentitySigner.sign\<close> and \<open>verify_server_identity\<close>. ECDSA and the DER form of keys are
  \<open>cryptography\<close>'s, a parameter whose documented laws are \<open>ec_ok\<close>.
\<close>

section \<open>The library\<close>

datatype curve = SECP256R1 | SECP384R1 | SECP521R1 | OtherCurve
datatype hash_alg = SHA256 | SHA384 | SHA512

text \<open>\<open>load_der_public_key\<close>: a key, or a \<open>ValueError\<close>, or \<open>UnsupportedAlgorithm\<close>.\<close>

datatype 'p loaded = EcKey 'p | OtherKey | LoadValueError | LoadUnsupported

text \<open>
  A signature is the pair \<open>(r, s)\<close> that \<open>decode_dss_signature\<close> gives and \<open>encode_dss_signature\<close>
  takes. Signing draws a nonce, which is an argument here.
\<close>

record ('s, 'p) ec_lib =
  ec_public :: "'s \<Rightarrow> 'p"
  ec_curve :: "'p \<Rightarrow> curve"
  ec_sign :: "'s \<Rightarrow> hash_alg \<Rightarrow> nat \<Rightarrow> bytes \<Rightarrow> nat \<times> nat"
  ec_verify :: "'p \<Rightarrow> hash_alg \<Rightarrow> bytes \<Rightarrow> nat \<times> nat \<Rightarrow> bool"
  spki_der :: "'p \<Rightarrow> bytes"
  load_der :: "bytes \<Rightarrow> 'p loaded"

definition algorithms :: "(pystr \<times> curve \<times> hash_alg \<times> nat) list" where
  "algorithms =
     [(lit ''ES256'', SECP256R1, SHA256, 32), (lit ''ES384'', SECP384R1, SHA384, 48),
      (lit ''ES512'', SECP521R1, SHA512, 66)]"

text \<open>
  What \<open>cryptography\<close> documents: a key verifies its own signatures; both numbers are below the
  order of the curve, so they fit its coordinate size; a public key survives its DER form.
\<close>

definition ec_ok :: "('s, 'p) ec_lib \<Rightarrow> bool" where
  "ec_ok lib \<longleftrightarrow>
     (\<forall>k h n d. ec_verify lib (ec_public lib k) h d (ec_sign lib k h n d)) \<and>
     (\<forall>k h n d r s name h' width.
        (name, ec_curve lib (ec_public lib k), h', width) \<in> set algorithms \<longrightarrow> ec_sign lib k h n d = (r, s) \<longrightarrow>
        r < 256 ^ width \<and> s < 256 ^ width) \<and>
     (\<forall>p. load_der lib (spki_der lib p) = EcKey p)"

section \<open>Signatures\<close>

definition alg_for_key :: "('s, 'p) ec_lib \<Rightarrow> 'p \<Rightarrow> pystr checked" where
  "alg_for_key lib p =
     (case List.find (\<lambda>(name, c, h, width). c = ec_curve lib p) algorithms of
        Some (name, x) \<Rightarrow> Inr name
      | None \<Rightarrow> Inl InvalidIdentity)"

text \<open>\<open>int.to_bytes(size, "big")\<close> and \<open>int.from_bytes(b, "big")\<close>.\<close>

definition to_big :: "nat \<Rightarrow> nat \<Rightarrow> bytes checked" where
  "to_big width x = (if x < 256 ^ width then Inr (rev (le_bytes width (int x))) else Inl (Builtin OverflowError))"

definition from_big :: "bytes \<Rightarrow> nat" where
  "from_big b = nat (le_int (rev b))"

definition sign_raw :: "('s, 'p) ec_lib \<Rightarrow> 's \<Rightarrow> hash_alg \<times> nat \<Rightarrow> nat \<Rightarrow> bytes \<Rightarrow> bytes checked" where
  "sign_raw lib k alg nonce data =
     (let (r, s) = ec_sign lib k (fst alg) nonce data in
      ebind (to_big (snd alg) r) (\<lambda>a. ebind (to_big (snd alg) s) (\<lambda>b. Inr (a @ b))))"

definition verify_raw :: "('s, 'p) ec_lib \<Rightarrow> 'p \<Rightarrow> hash_alg \<times> nat \<Rightarrow> bytes \<Rightarrow> bytes \<Rightarrow> bool" where
  "verify_raw lib p alg data signature =
     (length signature = 2 * snd alg \<and>
      ec_verify lib p (fst alg) data (from_big (take (snd alg) signature), from_big (drop (snd alg) signature)))"

text \<open>
  \<open>alg not in _ALGORITHMS\<close>, then \<open>_ALGORITHMS[alg]\<close>. Looking up a list or a dictionary raises
  \<open>TypeError\<close>, since they are not hashable; other values are just not there.
\<close>

definition lookup_alg :: "json option \<Rightarrow> (hash_alg \<times> nat) checked" where
  "lookup_alg alg =
     (case alg of
        Some (JString name) \<Rightarrow>
          (case map_of algorithms name of Some (c, x) \<Rightarrow> Inr x | None \<Rightarrow> Inl InvalidIdentity)
      | Some (JList xs) \<Rightarrow> Inl TypeError
      | Some (JDict kvs) \<Rightarrow> Inl TypeError
      | _ \<Rightarrow> Inl InvalidIdentity)"

text \<open>\<open>str.split(".")\<close>.\<close>

fun split_dots :: "pystr \<Rightarrow> pystr list" where
  "split_dots [] = [[]]"
| "split_dots (c # s) =
     (if c = 46 then [] # split_dots s
      else (case split_dots s of [] \<Rightarrow> [[c]] | x # xs \<Rightarrow> (c # x) # xs))"

section \<open>The detached JWS over the fingerprints\<close>

definition signing_input :: "pystr \<Rightarrow> pystr \<Rightarrow> bytes checked" where
  "signing_input header payload = builtin (utf8_encode (header @ 46 # payload))"

definition sign_fingerprints :: "('s, 'p) ec_lib \<Rightarrow> nat \<Rightarrow> pystr \<Rightarrow> 's \<Rightarrow> pystr checked" where
  "sign_fingerprints lib nonce sdp k =
     ebind (alg_for_key lib (ec_public lib k)) (\<lambda>name.
     ebind (builtin (canonical_json (JDict [(lit ''alg'', JString name)]))) (\<lambda>h.
     ebind (builtin (fingerprint_payload sdp)) (\<lambda>p.
     ebind (signing_input (b64url h) (b64url p)) (\<lambda>d.
     ebind (lookup_alg (Some (JString name))) (\<lambda>alg.
     ebind (sign_raw lib k alg nonce d) (\<lambda>sig.
       Inr (b64url h @ [46, 46] @ b64url sig)))))))"

definition verify_fingerprints :: "('s, 'p) ec_lib \<Rightarrow> nat \<Rightarrow> pystr \<Rightarrow> pystr \<Rightarrow> 'p \<Rightarrow> unit checked" where
  "verify_fingerprints lib depth sdp jws p =
     (case split_dots jws of
        [header_b64, middle, signature_b64] \<Rightarrow>
          if middle \<noteq> [] then Inl InvalidIdentity
          else
            ebind (valid_or (unb64url header_b64)) (\<lambda>h.
            ebind (parsed_json (loads_bytes depth h)) (\<lambda>header.
            ebind (lookup_alg (json_item (lit ''alg'') header)) (\<lambda>alg.
            ebind (builtin (fingerprint_payload sdp)) (\<lambda>payload.
            ebind (signing_input header_b64 (b64url payload)) (\<lambda>d.
            ebind (valid_or (unb64url signature_b64)) (\<lambda>sig.
              if verify_raw lib p alg d sig then Inr () else Inl InvalidIdentity))))))
      | _ \<Rightarrow> Inl InvalidIdentity)"

section \<open>The cpk claim\<close>

definition encode_cpk :: "('s, 'p) ec_lib \<Rightarrow> 'p \<Rightarrow> pystr" where
  "encode_cpk lib p = b64encode (spki_der lib p)"

definition decode_cpk :: "('s, 'p) ec_lib \<Rightarrow> pystr \<Rightarrow> 'p checked" where
  "decode_cpk lib cpk =
     ebind (valid_or (b64decode True cpk)) (\<lambda>der.
       case load_der lib der of
         EcKey p \<Rightarrow> Inr p
       | LoadUnsupported \<Rightarrow> Inl UnsupportedAlgorithm
       | _ \<Rightarrow> Inl InvalidIdentity)"

definition hex_digits :: "byte \<Rightarrow> pystr" where
  "hex_digits b = map (\<lambda>d. if d < 10 then 48 + d else 87 + d) [unat b div 16, unat b mod 16]"

definition cpk_digest :: "('s, 'p) ec_lib \<Rightarrow> 'p \<Rightarrow> pystr" where
  "cpk_digest lib p = concat (map hex_digits (sha256 (spki_der lib p)))"

section \<open>The self-signed JWT\<close>

definition sign_jwt :: "('s, 'p) ec_lib \<Rightarrow> nat \<Rightarrow> (pystr \<times> json) list \<Rightarrow> 's \<Rightarrow> pystr checked" where
  "sign_jwt lib nonce claims k =
     ebind (alg_for_key lib (ec_public lib k)) (\<lambda>name.
     ebind (builtin (canonical_json (JDict [(lit ''alg'', JString name), (lit ''typ'', JString (lit ''JWT''))]))) (\<lambda>h.
     ebind (builtin (utf8_encode (dumps True (JDict claims)))) (\<lambda>p.
     ebind (signing_input (b64url h) (b64url p)) (\<lambda>d.
     ebind (lookup_alg (Some (JString name))) (\<lambda>alg.
     ebind (sign_raw lib k alg nonce d) (\<lambda>sig.
       Inr (b64url h @ [46] @ b64url p @ [46] @ b64url sig)))))))"

record jwt =
  jwt_header :: "(pystr \<times> json) list"
  jwt_claims :: "(pystr \<times> json) list"
  jwt_input :: bytes
  jwt_signature :: bytes

definition decode_jwt :: "nat \<Rightarrow> pystr \<Rightarrow> jwt checked" where
  "decode_jwt depth token =
     (case split_dots token of
        [header_b64, payload_b64, signature_b64] \<Rightarrow>
          ebind (valid_or (unb64url header_b64)) (\<lambda>h.
          ebind (parsed_json (loads_bytes depth h)) (\<lambda>header.
          ebind (valid_or (unb64url payload_b64)) (\<lambda>p.
          ebind (parsed_json (loads_bytes depth p)) (\<lambda>claims.
            case (header, claims) of
              (JDict hs, JDict cs) \<Rightarrow>
                ebind (signing_input header_b64 payload_b64) (\<lambda>d.
                ebind (valid_or (unb64url signature_b64)) (\<lambda>sig.
                  Inr \<lparr>jwt_header = hs, jwt_claims = cs, jwt_input = d, jwt_signature = sig\<rparr>))
            | _ \<Rightarrow> Inl InvalidIdentity))))
      | _ \<Rightarrow> Inl InvalidIdentity)"

section \<open>IdentitySigner\<close>

record 's identity_signer =
  signer_key :: 's
  signer_domain :: pystr
  signer_claims :: "(pystr \<times> json) list"
  token_lifetime :: "int option"           \<comment> \<open>\<open>int(self._token_lifetime)\<close>\<close>

definition new_signer ::
    "('s, 'p) ec_lib \<Rightarrow> 's \<Rightarrow> pystr \<Rightarrow> (pystr \<times> json) list \<Rightarrow> int option \<Rightarrow> 's identity_signer checked" where
  "new_signer lib k domain claims lifetime =
     ebind (alg_for_key lib (ec_public lib k)) (\<lambda>_.
       Inr \<lparr>signer_key = k, signer_domain = domain, signer_claims = claims, token_lifetime = lifetime\<rparr>)"

definition token_claims :: "('s, 'p) ec_lib \<Rightarrow> int \<Rightarrow> 's identity_signer \<Rightarrow> (pystr \<times> json) list" where
  "token_claims lib now sg =
     (let claims = foldl (\<lambda>m (k, v). AList.update k v m)
            [(lit ''cpk'', JString (encode_cpk lib (ec_public lib (signer_key sg)))), (lit ''iat'', JInt now)]
            (signer_claims sg)
      in case token_lifetime sg of
           None \<Rightarrow> claims
         | Some t \<Rightarrow> AList.update (lit ''exp'') (JInt (now + t)) claims)"

text \<open>\<open>now\<close> is \<open>int(time.time())\<close>; the two nonces are those of the token and of the fingerprints.\<close>

definition identity_sign ::
    "('s, 'p) ec_lib \<Rightarrow> int \<Rightarrow> nat \<times> nat \<Rightarrow> 's identity_signer \<Rightarrow> pystr \<Rightarrow> pystr checked" where
  "identity_sign lib now nonces sg sdp =
     ebind (sign_jwt lib (fst nonces) (token_claims lib now sg) (signer_key sg)) (\<lambda>token.
     ebind (sign_fingerprints lib (snd nonces) sdp (signer_key sg)) (\<lambda>fingerprints.
     ebind (builtin (build_envelope (signer_domain sg) token fingerprints)) (\<lambda>envelope.
       Inr (insert_identity sdp envelope))))"

section \<open>verify_server_identity\<close>

record 'p server_identity =
  id_domain :: pystr
  id_claims :: "(pystr \<times> json) list"
  id_public_key :: 'p
  id_key_digest :: pystr

text \<open>
  The clock: an integer is before \<open>time.time()\<close> if it is less than the ceiling \<open>now_up\<close>; a float,
  of which the model has the text, if \<open>float_past\<close> says so. \<open>bool\<close> is a subclass of \<open>int\<close>.
\<close>

record clock =
  now_up :: int
  float_past :: "pystr \<Rightarrow> bool"

definition expired :: "clock \<Rightarrow> json option \<Rightarrow> bool" where
  "expired clk exp =
     (case exp of
        Some (JInt i) \<Rightarrow> i < now_up clk
      | Some (JBool b) \<Rightarrow> (if b then 1 else 0) < now_up clk
      | Some (JFloat t) \<Rightarrow> float_past clk t
      | _ \<Rightarrow> False)"

definition verify_server_identity ::
    "('s, 'p) ec_lib \<Rightarrow> clock \<Rightarrow> (json \<Rightarrow> pystr option) \<Rightarrow> nat \<Rightarrow> pystr \<Rightarrow> (pystr \<times> 'p server_identity) checked" where
  "verify_server_identity lib clk repr depth sdp =
     ebind (extract_identity repr depth sdp) (\<lambda>(stripped, envelope).
     ebind (valid_or envelope) (\<lambda>env.
     ebind (decode_jwt depth (env_token env)) (\<lambda>j.
     ebind (lookup_alg (map_of (jwt_header j) (lit ''alg''))) (\<lambda>alg.
     ebind (case map_of (jwt_claims j) (lit ''cpk'') of
              Some (JString cpk) \<Rightarrow> decode_cpk lib cpk
            | _ \<Rightarrow> Inl InvalidIdentity) (\<lambda>p.
       if \<not> verify_raw lib p alg (jwt_input j) (jwt_signature j) then Inl InvalidIdentity
       else if expired clk (map_of (jwt_claims j) (lit ''exp'')) then Inl InvalidIdentity
       else
         ebind (verify_fingerprints lib depth stripped (env_fingerprints env) p) (\<lambda>_.
           Inr (stripped, \<lparr>id_domain = env_domain env, id_claims = jwt_claims j, id_public_key = p,
                           id_key_digest = cpk_digest lib p\<rparr>)))))))"

section \<open>Signatures are verified\<close>

lemma to_big_from_big: "to_big w x = Inr b \<Longrightarrow> length b = w \<and> from_big b = x"
  by (auto simp: to_big_def from_big_def le_int_le_bytes split: if_splits)

lemma algorithms_unique: "(name, x) \<in> set algorithms \<Longrightarrow> map_of algorithms name = Some x"
  by (auto simp: algorithms_def lit_def)

lemma algorithm_names: "(name, x) \<in> set algorithms \<Longrightarrow> list_all plain_char name"
  by (rule ascii_plain) (auto simp: algorithms_def lit_def is_ascii_def)

text \<open>A key of a supported curve has an algorithm, which the verifier finds by its name.\<close>

lemma alg_for_key_Inr:
  assumes "alg_for_key lib p = Inr name"
  obtains h w where "(name, ec_curve lib p, h, w) \<in> set algorithms" "lookup_alg (Some (JString name)) = Inr (h, w)"
proof -
  from assms obtain c h w where found: "List.find (\<lambda>(name, c, h, w). c = ec_curve lib p) algorithms = Some (name, c, h, w)"
    by (auto simp: alg_for_key_def split: option.splits prod.splits)
  then have "c = ec_curve lib p \<and> (name, c, h, w) \<in> set algorithms"
    by (auto simp: find_Some_iff) (metis nth_mem)
  then show thesis using that [of h w] algorithms_unique by (auto simp: lookup_alg_def)
qed

lemma signed_verifies:
  assumes "ec_ok lib" and "(name, ec_curve lib (ec_public lib k), h, w) \<in> set algorithms"
  obtains sig where "sign_raw lib k (h, w) nonce d = Inr sig" "verify_raw lib (ec_public lib k) (h, w) d sig"
proof -
  obtain r s where rs: "ec_sign lib k h nonce d = (r, s)" by (cases "ec_sign lib k h nonce d")
  then have "r < 256 ^ w" "s < 256 ^ w" using assms unfolding ec_ok_def by blast+
  then obtain a b where ab: "to_big w r = Inr a" "to_big w s = Inr b" by (simp add: to_big_def)
  have "ec_verify lib (ec_public lib k) h d (r, s)" using assms(1) rs unfolding ec_ok_def by metis
  then have "verify_raw lib (ec_public lib k) (h, w) d (a @ b)"
    using to_big_from_big [OF ab(1)] to_big_from_big [OF ab(2)] by (simp add: verify_raw_def)
  moreover have "sign_raw lib k (h, w) nonce d = Inr (a @ b)" by (simp add: sign_raw_def rs ab)
  ultimately show thesis using that by blast
qed

section \<open>Compact serialisations\<close>

lemma split_dots_none: "46 \<notin> set s \<Longrightarrow> split_dots s = [s]"
  by (induction s) auto

lemma split_dots_append: "46 \<notin> set s \<Longrightarrow> split_dots (s @ 46 # r) = s # split_dots r"
  by (induction s) auto

lemma b64url_no_dot [simp]: "46 \<notin> set (b64url b)"
  using b64url_chars by blast

lemma b64url_ascii [simp]: "is_ascii (b64url b)"
  using b64url_chars by (auto simp: is_ascii_def list_all_iff)

lemma signing_input_b64 [simp]: "signing_input (b64url h) (b64url p) = Inr (map of_nat (b64url h @ 46 # b64url p))"
  by (simp add: signing_input_def utf8_encode_ascii)

lemma split_compact:
  "split_dots (b64url h @ [46, 46] @ b64url sig) = [b64url h, [], b64url sig]"
  "split_dots (b64url h @ [46] @ b64url p @ [46] @ b64url sig) = [b64url h, b64url p, b64url sig]"
  by (simp_all add: split_dots_append split_dots_none)

text \<open>The headers, written and read.\<close>

lemma headers_read:
  assumes "(name, x) \<in> set algorithms" and "0 < depth"
  obtains b c where "canonical_json (JDict [(lit ''alg'', JString name)]) = Inr b"
    "loads_bytes depth b = Inr (JDict [(lit ''alg'', JString name)])"
    "canonical_json (JDict [(lit ''alg'', JString name), (lit ''typ'', JString (lit ''JWT''))]) = Inr c"
    "loads_bytes depth c = Inr (JDict [(lit ''alg'', JString name), (lit ''typ'', JString (lit ''JWT''))])"
proof -
  obtain d where d: "depth = Suc d" using assms(2) by (cases depth) auto
  have "list_all plain_char (lit s)" if "s \<in> {''alg'', ''typ'', ''JWT''}" for s
    using that by (intro ascii_plain) (auto simp: is_ascii_def lit_def)
  then have readable: "readable depth (JDict [(lit ''alg'', JString name)])"
      "readable depth (JDict [(lit ''alg'', JString name), (lit ''typ'', JString (lit ''JWT''))])"
    using algorithm_names [OF assms(1)] distinct_keys by (simp_all add: d)
  have header_order: "lit ''alg'' \<le> lit ''typ''" by (simp add: lit_def)
  have "is_ascii (dumps False (JDict [(lit ''alg'', JString name)])) \<and>
      is_ascii (dumps False (JDict [(lit ''alg'', JString name), (lit ''typ'', JString (lit ''JWT''))]))"
    using assms(1) by (auto simp: algorithms_def lit_def is_ascii_def dump_string_def escape_char_def)
  then show thesis
    using that [of "map of_nat (dumps False (JDict [(lit ''alg'', JString name)]))"
        "map of_nat (dumps False (JDict [(lit ''alg'', JString name), (lit ''typ'', JString (lit ''JWT''))]))"]
      loads_bytes_dumps [OF readable(1), of False] loads_bytes_dumps [OF readable(2), of False]
    by (simp add: canonical_json_def utf8_encode_ascii header_order del: dumps.simps)
qed

text \<open>A JWS made with a key is accepted under its public key.\<close>

lemma fingerprints_verify:
  assumes "ec_ok lib" and "alg_for_key lib (ec_public lib k) = Inr name" and "fingerprint_payload sdp = Inr p"
    and "0 < depth"
  obtains jws where "sign_fingerprints lib nonce sdp k = Inr jws" "is_ascii jws"
    "verify_fingerprints lib depth sdp jws (ec_public lib k) = Inr ()"
proof -
  obtain h w where alg: "(name, ec_curve lib (ec_public lib k), h, w) \<in> set algorithms"
      "lookup_alg (Some (JString name)) = Inr (h, w)" by (rule alg_for_key_Inr [OF assms(2)])
  obtain b where b: "canonical_json (JDict [(lit ''alg'', JString name)]) = Inr b"
      "loads_bytes depth b = Inr (JDict [(lit ''alg'', JString name)])" by (rule headers_read [OF alg(1) assms(4)])
  let ?d = "map of_nat (b64url b @ 46 # b64url p) :: bytes"
  obtain sig where sig: "sign_raw lib k (h, w) nonce ?d = Inr sig" "verify_raw lib (ec_public lib k) (h, w) ?d sig"
    by (rule signed_verifies [OF assms(1) alg(1)])
  show thesis
    by (rule that [of "b64url b @ [46, 46] @ b64url sig"])
      (simp_all add: sign_fingerprints_def verify_fingerprints_def assms(2,3) b alg(2) sig [simplified] split_compact [simplified]
        json_item_def)
qed

lemma jwt_verifies:
  assumes "ec_ok lib" and "alg_for_key lib (ec_public lib k) = Inr name"
    and "readable depth (JDict claims)"
  obtains token j where "sign_jwt lib nonce claims k = Inr token" "is_ascii token"
    "decode_jwt depth token = Inr j" "jwt_claims j = claims"
    "map_of (jwt_header j) (lit ''alg'') = Some (JString name)"
    "\<forall>alg. lookup_alg (Some (JString name)) = Inr alg \<longrightarrow> verify_raw lib (ec_public lib k) alg (jwt_input j) (jwt_signature j)"
proof -
  have "0 < depth" using assms(3) by (cases depth) simp_all
  obtain h w where alg: "(name, ec_curve lib (ec_public lib k), h, w) \<in> set algorithms"
      "lookup_alg (Some (JString name)) = Inr (h, w)" by (rule alg_for_key_Inr [OF assms(2)])
  let ?header = "[(lit ''alg'', JString name), (lit ''typ'', JString (lit ''JWT''))]"
  obtain b where b: "canonical_json (JDict ?header) = Inr b" "loads_bytes depth b = Inr (JDict ?header)"
    by (rule headers_read [OF alg(1) \<open>0 < depth\<close>])
  obtain p where p: "utf8_encode (dumps True (JDict claims)) = Inr p"
    using utf8_encode_ascii [OF dumps_ascii [OF assms(3)]] by blast
  have claims: "loads_bytes depth p = Inr (JDict claims)" by (rule loads_bytes_dumps [OF assms(3) p])
  let ?d = "map of_nat (b64url b @ 46 # b64url p) :: bytes"
  obtain sig where sig: "sign_raw lib k (h, w) nonce ?d = Inr sig" "verify_raw lib (ec_public lib k) (h, w) ?d sig"
    by (rule signed_verifies [OF assms(1) alg(1)])
  show thesis
    by (rule that [of "b64url b @ [46] @ b64url p @ [46] @ b64url sig"
          "\<lparr>jwt_header = ?header, jwt_claims = claims, jwt_input = ?d, jwt_signature = sig\<rparr>"])
      (use sig(2) alg(2) in \<open>simp_all add: sign_jwt_def decode_jwt_def assms(2) b alg(2) p claims sig(1) [simplified]
        split_compact [simplified] del: dumps.simps\<close>)
qed

section \<open>Signing and verifying an SDP\<close>

lemma set_update_subset: "set (AList.update k v m) \<subseteq> insert (k, v) (set m)"
  by (induction m) auto

lemma readable_update:
  assumes "readable (Suc d) (JDict m)" and "list_all plain_char k" and "readable d v"
  shows "readable (Suc d) (JDict (AList.update k v m))"
  using assms set_update_subset [of k v m] distinct_update [of m k v] by auto

lemma readable_updates:
  assumes "readable (Suc d) (JDict m)" and "\<forall>p \<in> set ps. list_all plain_char (fst p) \<and> readable d (snd p)"
  shows "readable (Suc d) (JDict (foldl (\<lambda>m (k, v). AList.update k v m) m ps))"
  using assms
proof (induction ps arbitrary: m)
  case (Cons p ps)
  then show ?case using readable_update [of d m "fst p" "snd p"] by (simp add: split_beta del: readable.simps)
qed simp

lemma cpk_ascii: "list_all plain_char (encode_cpk lib p)"
  by (simp add: encode_cpk_def b64encode_ascii ascii_plain)

lemma claim_names:
  "list_all plain_char (lit ''cpk'')" "list_all plain_char (lit ''iat'')" "list_all plain_char (lit ''exp'')"
  "lit ''cpk'' \<noteq> lit ''iat''" "lit ''cpk'' \<noteq> lit ''exp''"
  by (simp_all add: lit_def plain_char_def surrogate_def)

lemma token_claims_readable:
  assumes "readable depth (JDict (signer_claims sg))" and "int_fits now"
    and "\<And>t. token_lifetime sg = Some t \<Longrightarrow> int_fits (now + t)"
  shows "readable depth (JDict (token_claims lib now sg))"
proof -
  obtain d where d: "depth = Suc d" using assms(1) by (cases depth) simp_all
  let ?start = "[(lit ''cpk'', JString (encode_cpk lib (ec_public lib (signer_key sg)))), (lit ''iat'', JInt now)]"
  have "readable (Suc d) (JDict ?start)" using assms(2) cpk_ascii claim_names by simp
  then have "readable (Suc d) (JDict (foldl (\<lambda>m (k, v). AList.update k v m) ?start (signer_claims sg)))"
    using assms(1) d by (intro readable_updates) simp_all
  then show ?thesis
    using readable_update [OF _ claim_names(3)] assms(3)
    by (simp add: token_claims_def d Let_def del: readable.simps(9) split: option.split)
qed

lemma updates_other:
  "k \<notin> fst ` set ps \<Longrightarrow> map_of (foldl (\<lambda>m (k, v). AList.update k v m) m ps) k = map_of m k"
  by (induction ps arbitrary: m) (auto simp: update_conv')

lemma token_claims_cpk:
  assumes "lit ''cpk'' \<notin> fst ` set (signer_claims sg)"
  shows "map_of (token_claims lib now sg) (lit ''cpk'') = Some (JString (encode_cpk lib (ec_public lib (signer_key sg))))"
  using updates_other [OF assms] claim_names(4,5)
  by (simp add: token_claims_def Let_def update_conv' split: option.split)

lemma decode_encode_cpk: "ec_ok lib \<Longrightarrow> decode_cpk lib (encode_cpk lib p) = Inr p"
  by (simp add: decode_cpk_def encode_cpk_def b64decode_encode ec_ok_def)

lemma identity_signed:
  assumes "ec_ok lib" and "new_signer lib k domain claims lifetime = Inr sg"
    and "list_all plain_char domain" and "readable depth (JDict claims)" and "2 \<le> depth"
    and "lit ''cpk'' \<notin> fst ` set claims" and "int_fits now" and "\<And>t. lifetime = Some t \<Longrightarrow> int_fits (now + t)"
    and "\<not> expired clk (map_of (token_claims lib now sg) (lit ''exp''))"
    and "no_identity sdp" and "insertable sdp" and "fingerprint_payload sdp = Inr payload"
  shows "\<exists>signed. identity_sign lib now nonces sg sdp = Inr signed \<and>
    verify_server_identity lib clk repr depth signed =
      Inr (sdp, \<lparr>id_domain = domain, id_claims = token_claims lib now sg, id_public_key = ec_public lib k,
                id_key_digest = cpk_digest lib (ec_public lib k)\<rparr>)"
proof -
  obtain name where name: "alg_for_key lib (ec_public lib k) = Inr name"
      and sg: "sg = \<lparr>signer_key = k, signer_domain = domain, signer_claims = claims, token_lifetime = lifetime\<rparr>"
    using assms(2) by (auto simp: new_signer_def ebind_eq_Inr)
  have "readable depth (JDict (token_claims lib now sg))"
    using assms(4,7,8) by (intro token_claims_readable) (simp_all add: sg del: readable.simps)
  then obtain token j where j: "sign_jwt lib (fst nonces) (token_claims lib now sg) k = Inr token" "is_ascii token"
      "decode_jwt depth token = Inr j" "jwt_claims j = token_claims lib now sg"
      "map_of (jwt_header j) (lit ''alg'') = Some (JString name)"
      "\<forall>alg. lookup_alg (Some (JString name)) = Inr alg \<longrightarrow>
        verify_raw lib (ec_public lib k) alg (jwt_input j) (jwt_signature j)"
    by (rule jwt_verifies [OF assms(1) name, where nonce = "fst nonces"])
  have "0 < depth" using assms(5) by simp
  from fingerprints_verify [OF assms(1) name assms(12) this]
  obtain jws where jws: "sign_fingerprints lib (snd nonces) sdp k = Inr jws" "is_ascii jws"
      "verify_fingerprints lib depth sdp jws (ec_public lib k) = Inr ()" by blast
  obtain e where e: "build_envelope domain token jws = Inr e" "attribute_text e"
      "parse_envelope repr depth e = Inr \<lparr>env_domain = domain, env_protocol = lit ''default'',
        env_token = token, env_fingerprints = jws\<rparr>"
    by (rule build_parses [OF assms(3) ascii_plain [OF j(2)] ascii_plain [OF jws(2)] assms(5)])
  obtain h w where alg: "lookup_alg (Some (JString name)) = Inr (h, w)" by (rule alg_for_key_Inr [OF name])
  have "identity_sign lib now nonces sg sdp = Inr (insert_identity sdp e)"
    using j(1) jws(1) e(1) by (simp add: identity_sign_def sg)
  moreover have "map_of (token_claims lib now sg) (lit ''cpk'') = Some (JString (encode_cpk lib (ec_public lib k)))"
    using token_claims_cpk [of sg lib now] assms(6) by (simp add: sg)
  then have "verify_server_identity lib clk repr depth (insert_identity sdp e) =
      Inr (sdp, \<lparr>id_domain = domain, id_claims = token_claims lib now sg, id_public_key = ec_public lib k,
                id_key_digest = cpk_digest lib (ec_public lib k)\<rparr>)"
    using assms(1,9) j(3-5) jws(3) e(3) alg j(6)
    by (simp add: verify_server_identity_def extract_inserted [OF assms(10,11) e(2)] decode_encode_cpk)
  ultimately show ?thesis by blast
qed

text \<open>
  C8: what \<open>IdentitySigner.sign\<close> produces, \<open>verify_server_identity\<close> accepts: the client gets the
  original SDP back, and the domain, the claims, the public key and the digest of the signer, for
  every domain and every claims that JSON carries, under any clock for which the token has not expired.
\<close>

theorem identity_round_trip:
  assumes "ec_ok lib" and "new_signer lib k domain claims lifetime = Inr sg"
    and "list_all plain_char domain" and "readable depth (JDict claims)" and "2 \<le> depth"
    and "lit ''cpk'' \<notin> fst ` set claims" and "int_fits now" and "\<And>t. lifetime = Some t \<Longrightarrow> int_fits (now + t)"
    and "\<not> expired clk (map_of (token_claims lib now sg) (lit ''exp''))"
    and "no_identity sdp" and "insertable sdp" and "fingerprint_payload sdp = Inr payload"
  shows "\<exists>signed. identity_sign lib now nonces sg sdp = Inr signed \<and>
    verify_server_identity lib clk repr depth signed =
      Inr (sdp, \<lparr>id_domain = domain, id_claims = token_claims lib now sg, id_public_key = ec_public lib k,
                id_key_digest = cpk_digest lib (ec_public lib k)\<rparr>)"
  using assms by (rule identity_signed)

definition example_ec :: "(byte, byte) ec_lib" where
  "example_ec =
     \<lparr>ec_public = (\<lambda>k. k), ec_curve = (\<lambda>p. SECP256R1),
      ec_sign = (\<lambda>k h n d. (unat k, sum_list (map unat d) mod 256)),
      ec_verify = (\<lambda>p h d (r, s). r = unat p \<and> s = sum_list (map unat d) mod 256),
      spki_der = (\<lambda>p. [p]), load_der = (\<lambda>b. case b of [p] \<Rightarrow> EcKey p | _ \<Rightarrow> LoadValueError)\<rparr>"

lemma example_ec_ok: "ec_ok example_ec"
proof -
  have "unat (k :: byte) < 256 ^ w" "x mod 256 < 256 ^ w" if "0 < w" for k w and x :: nat
  proof -
    have "(256 :: nat) \<le> 256 ^ w" using that by (simp add: self_le_power)
    moreover have "unat k < 256" "x mod 256 < 256" by simp_all
    ultimately show "unat k < 256 ^ w" "x mod 256 < 256 ^ w" using less_le_trans by blast+
  qed
  moreover have "0 < w" if "(name, c, h, w) \<in> set algorithms" for name c h w
    using that by (auto simp: algorithms_def)
  ultimately show ?thesis unfolding ec_ok_def by (auto simp: example_ec_def)
qed

definition example_sdp :: pystr where
  "example_sdp = lit ''a=fingerprint:s A'' @ [10]"

lemma example_lines: "splitlines example_sdp = [example_sdp]"
  by (simp add: example_sdp_def lit_def is_linebreak_def)

lemma example_sdp_facts:
  "no_identity example_sdp" "insertable example_sdp" "\<exists>p. fingerprint_payload example_sdp = Inr p"
proof -
  show "insertable example_sdp" by (simp add: insertable_def example_sdp_def is_linebreak_def)
  have strip: "strip example_sdp = lit ''a=fingerprint:s A''" "strip (chomp example_sdp) = lit ''a=fingerprint:s A''"
    by (simp_all add: example_sdp_def lit_def strip_def uni_space_def chomp_def ends_with_def starts_with_def)
  show "no_identity example_sdp"
    by (simp add: no_identity_def example_lines identity_line_def strip)
      (simp add: starts_with_def identity_prefix_text lit_def)
  have "fingerprints_of example_sdp = [(lit ''s'', lit ''A'')]"
    by (simp add: fingerprints_of_def example_lines strip starts_with_def fingerprint_prefix_def fingerprint_entry_def)
      (simp add: lit_def)
  then have "fingerprint_payload example_sdp = utf8_encode (dumps False (fingerprint_json [(lit ''s'', lit ''A'')]))"
    by (simp add: fingerprint_payload_def canonical_json_def fingerprint_json_sorted)
  moreover have "is_ascii (dumps False (fingerprint_json [(lit ''s'', lit ''A'')]))"
    by (simp add: fingerprint_json_def lit_def dump_string_def escape_char_def)
  ultimately show "\<exists>p. fingerprint_payload example_sdp = Inr p" using utf8_encode_ascii by metis
qed

definition example_signer :: "byte identity_signer" where
  "example_signer = \<lparr>signer_key = 7, signer_domain = lit ''d'', signer_claims = [(lit ''iss'', JBool True)], token_lifetime = Some 60\<rparr>"

lemma example_signer_facts:
  "new_signer example_ec 7 (lit ''d'') [(lit ''iss'', JBool True)] (Some 60) = Inr example_signer"
  "\<not> expired \<lparr>now_up = 6, float_past = (\<lambda>_. False)\<rparr> (map_of (token_claims example_ec 5 example_signer) (lit ''exp''))"
  "int_fits 5" "(Some 60 = Some t) \<Longrightarrow> int_fits (5 + t)"
  "list_all plain_char (lit ''d'')" "readable 3 (JDict [(lit ''iss'', JBool True)])"
  "lit ''cpk'' \<notin> fst ` set [(lit ''iss'', JBool True)]"
proof -
  have exp: "map_of (token_claims example_ec 5 example_signer) (lit ''exp'') = Some (JInt 65)"
    by (simp add: token_claims_def example_signer_def update_conv')
  show "\<not> expired \<lparr>now_up = 6, float_past = (\<lambda>_. False)\<rparr> (map_of (token_claims example_ec 5 example_signer) (lit ''exp''))"
    unfolding exp by (simp add: expired_def)
  show "new_signer example_ec 7 (lit ''d'') [(lit ''iss'', JBool True)] (Some 60) = Inr example_signer"
    by (simp add: new_signer_def alg_for_key_def algorithms_def example_ec_def example_signer_def)
  show "int_fits 5" "(Some 60 = Some t) \<Longrightarrow> int_fits (5 + t)"
    by (auto simp: int_fits_def dec_of_nat.simps int_max_str_digits_def)
qed (simp_all add: lit_def plain_char_def surrogate_def numeral_3_eq_3)

theorem identity_round_trip_witness:
  "\<exists>signed. identity_sign example_ec 5 (0, 0) example_signer example_sdp = Inr signed \<and>
    verify_server_identity example_ec \<lparr>now_up = 6, float_past = (\<lambda>_. False)\<rparr> (\<lambda>_. None) 3 signed =
      Inr (example_sdp, \<lparr>id_domain = lit ''d'', id_claims = token_claims example_ec 5 example_signer,
        id_public_key = ec_public example_ec 7, id_key_digest = cpk_digest example_ec (ec_public example_ec 7)\<rparr>)"
proof -
  obtain p where p: "fingerprint_payload example_sdp = Inr p" using example_sdp_facts(3) by blast
  show ?thesis
    by (rule identity_round_trip [OF example_ec_ok example_signer_facts(1,5,6) _ example_signer_facts(7,3,4,2)
          example_sdp_facts(1,2) p]) simp_all
qed

lemma example_verified:
  obtains signed sid where
    "verify_server_identity example_ec \<lparr>now_up = 6, float_past = (\<lambda>_. False)\<rparr> (\<lambda>_. None) 3 signed = Inr (example_sdp, sid)"
proof -
  obtain p where p: "fingerprint_payload example_sdp = Inr p" using example_sdp_facts(3) by blast
  have "(2 :: nat) \<le> 3" by simp
  from identity_signed [OF example_ec_ok example_signer_facts(1,5,6) this example_signer_facts(7,3,4,2)
      example_sdp_facts(1,2) p]
  show thesis using that by blast
qed

section \<open>What acceptance means\<close>

text \<open>Under the key \<open>p\<close> there is a valid signature over these claims, and over the fingerprints of this SDP.\<close>

definition signed_claims :: "('s, 'p) ec_lib \<Rightarrow> nat \<Rightarrow> 'p \<Rightarrow> (pystr \<times> json) list \<Rightarrow> bool" where
  "signed_claims lib depth p claims \<longleftrightarrow>
     (\<exists>header payload b h d rs. unb64url payload = Some b \<and> loads_bytes depth b = Inr (JDict claims) \<and>
        signing_input header payload = Inr d \<and> ec_verify lib p h d rs)"

definition fingerprint_message :: "pystr \<Rightarrow> bytes \<Rightarrow> bool" where
  "fingerprint_message sdp d \<longleftrightarrow>
     (\<exists>header payload. 46 \<notin> set header \<and> fingerprint_payload sdp = Inr payload \<and>
        signing_input header (b64url payload) = Inr d)"

lemma decode_jwt_Inr:
  assumes "decode_jwt depth token = Inr j"
  obtains header payload b where "unb64url payload = Some b" "loads_bytes depth b = Inr (JDict (jwt_claims j))"
    "signing_input header payload = Inr (jwt_input j)"
proof -
  obtain hb pb sb where parts: "split_dots token = [hb, pb, sb]"
    using assms by (auto simp: decode_jwt_def split: list.splits)
  then obtain hv b cv where steps: "unb64url pb = Some b" "loads_bytes depth b = Inr cv"
      "(case (hv, cv) of (JDict hs, JDict cs) \<Rightarrow>
          ebind (signing_input hb pb) (\<lambda>d. ebind (valid_or (unb64url sb)) (\<lambda>sig.
            Inr \<lparr>jwt_header = hs, jwt_claims = cs, jwt_input = d, jwt_signature = sig\<rparr>))
        | _ \<Rightarrow> Inl InvalidIdentity) = Inr j"
    using assms by (auto simp: decode_jwt_def ebind_eq_Inr)
  then show thesis using that by (cases hv; cases cv) (auto simp: ebind_eq_Inr)
qed

lemma split_dots_parts: "x \<in> set (split_dots s) \<Longrightarrow> 46 \<notin> set x"
  by (induction s arbitrary: x) (auto split: list.splits if_splits)

lemma verify_raw_signed: "verify_raw lib p alg d sig \<Longrightarrow> \<exists>h rs. ec_verify lib p h d rs"
  by (auto simp: verify_raw_def)

lemma verify_fingerprints_signed:
  assumes "verify_fingerprints lib depth sdp jws p = Inr ()"
  shows "\<exists>h d rs. fingerprint_message sdp d \<and> ec_verify lib p h d rs"
proof -
  obtain header sig where parts: "split_dots jws = [header, [], sig]"
    using assms by (auto simp: verify_fingerprints_def split: list.splits if_splits)
  then obtain payload d alg s where d: "fingerprint_payload sdp = Inr payload"
      "signing_input header (b64url payload) = Inr d" "verify_raw lib p alg d s"
    using assms by (auto simp: verify_fingerprints_def ebind_eq_Inr split: if_splits)
  moreover have "46 \<notin> set header" using split_dots_parts [of header jws] parts by simp
  ultimately have "fingerprint_message sdp d" unfolding fingerprint_message_def by blast
  with verify_raw_signed [OF d(3)] show ?thesis by blast
qed

text \<open>
  C9: what a client that gets a server identity may rely on: the SDP it goes on with is the
  answer without any \<open>a=identity\<close> line, the identity's key is the one in the \<open>cpk\<close> claim and its digest
  is that key's, the token has not expired, and under this key there are valid signatures over the claims
  and over the fingerprints of the very SDP that is returned.
\<close>

theorem identity_sound:
  assumes "verify_server_identity lib clk repr depth sdp = Inr (stripped, sid)"
  shows "stripped = strip_identity sdp \<and> no_identity stripped \<and>
    (\<exists>cpk. map_of (id_claims sid) (lit ''cpk'') = Some (JString cpk) \<and> decode_cpk lib cpk = Inr (id_public_key sid)) \<and>
    id_key_digest sid = cpk_digest lib (id_public_key sid) \<and>
    \<not> expired clk (map_of (id_claims sid) (lit ''exp'')) \<and>
    signed_claims lib depth (id_public_key sid) (id_claims sid) \<and>
    (\<exists>h d rs. fingerprint_message stripped d \<and> ec_verify lib (id_public_key sid) h d rs)"
proof -
  obtain env j alg p where *: "extract_identity repr depth sdp = Inr (stripped, Some env)"
      "decode_jwt depth (env_token env) = Inr j" "verify_raw lib p alg (jwt_input j) (jwt_signature j)"
      "\<not> expired clk (map_of (jwt_claims j) (lit ''exp''))"
      "verify_fingerprints lib depth stripped (env_fingerprints env) p = Inr ()"
      "\<exists>cpk. map_of (jwt_claims j) (lit ''cpk'') = Some (JString cpk) \<and> decode_cpk lib cpk = Inr p"
      "sid = \<lparr>id_domain = env_domain env, id_claims = jwt_claims j, id_public_key = p, id_key_digest = cpk_digest lib p\<rparr>"
    using assms by (auto simp: verify_server_identity_def ebind_eq_Inr split: if_splits option.splits json.splits)
  have "signed_claims lib depth p (jwt_claims j)"
    using decode_jwt_Inr [OF *(2)] verify_raw_signed [OF *(3)] unfolding signed_claims_def by metis
  then show ?thesis
    using extract_identity_clean [OF *(1)] verify_fingerprints_signed [OF *(5)] *(4,6,7) by auto
qed

theorem identity_sound_witness:
  "\<exists>(p :: byte) h d rs. fingerprint_message example_sdp d \<and> ec_verify example_ec p h d rs"
proof -
  obtain signed sid where
      "verify_server_identity example_ec \<lparr>now_up = 6, float_past = (\<lambda>_. False)\<rparr> (\<lambda>_. None) 3 signed = Inr (example_sdp, sid)"
    by (rule example_verified)
  from identity_sound [OF this] show ?thesis by blast
qed

section \<open>Unforgeable fingerprints\<close>

text \<open>The other message that a signer signs: a token, whose claims begin with \<open>cpk\<close>.\<close>

definition token_message :: "bytes \<Rightarrow> bool" where
  "token_message d \<longleftrightarrow>
     (\<exists>header v kvs b. 46 \<notin> set header \<and> utf8_encode (dumps True (JDict ((lit ''cpk'', v) # kvs))) = Inr b \<and>
        signing_input header (b64url b) = Inr d)"

lemma updates_head:
  "\<exists>v kvs. foldl (\<lambda>m (k, v). AList.update k v m) ((c, v0) # m) ps = (c, v) # kvs"
  by (induction ps arbitrary: v0 m) auto

lemma token_claims_head: "\<exists>v kvs. token_claims lib now sg = (lit ''cpk'', v) # kvs"
proof -
  have "\<exists>v kvs. foldl (\<lambda>m (k, v). AList.update k v m)
      [(lit ''cpk'', JString (encode_cpk lib (ec_public lib (signer_key sg)))), (lit ''iat'', JInt now)] (signer_claims sg) =
      (lit ''cpk'', v) # kvs"
    by (rule updates_head)
  then show ?thesis using claim_names(5) by (auto simp: token_claims_def Let_def split: option.split)
qed

lemma sign_jwt_message:
  assumes "sign_jwt lib nonce (token_claims lib' now sg) k = Inr token"
  shows "\<exists>d alg sig. token_message d \<and> sign_raw lib k alg nonce d = Inr sig"
proof -
  obtain v kvs where claims: "token_claims lib' now sg = (lit ''cpk'', v) # kvs" using token_claims_head by blast
  obtain h p d alg sig where "utf8_encode (dumps True (JDict ((lit ''cpk'', v) # kvs))) = Inr p"
      "signing_input (b64url h) (b64url p) = Inr d" "sign_raw lib k alg nonce d = Inr sig"
    using assms unfolding sign_jwt_def claims ebind_eq_Inr builtin_eq_Inr by blast
  then show ?thesis using b64url_no_dot [of h] unfolding token_message_def by blast
qed

lemma sign_fingerprints_message:
  assumes "sign_fingerprints lib nonce sdp k = Inr jws"
  shows "\<exists>d alg sig. fingerprint_message sdp d \<and> sign_raw lib k alg nonce d = Inr sig"
proof -
  obtain h p d alg sig where "fingerprint_payload sdp = Inr p"
      "signing_input (b64url h) (b64url p) = Inr d" "sign_raw lib k alg nonce d = Inr sig"
    using assms unfolding sign_fingerprints_def ebind_eq_Inr builtin_eq_Inr by blast
  then show ?thesis using b64url_no_dot [of h] unfolding fingerprint_message_def by blast
qed

lemma signing_input_inject:
  assumes "signing_input a (b64url x) = Inr d" and "signing_input b (b64url y) = Inr d"
    and "46 \<notin> set a" and "46 \<notin> set b"
  shows "x = y"
proof -
  have "a @ 46 # b64url x = b @ 46 # b64url y"
    using assms(1,2) utf8_decode_encode unfolding signing_input_def builtin_eq_Inr by (metis option.inject)
  then have "b64url x = b64url y" using assms(3,4) by (simp add: append_Cons_eq_iff)
  then show ?thesis by (metis option.inject unb64url_b64url)
qed

text \<open>A token is never mistaken for the fingerprints of an SDP.\<close>

lemma messages_apart: "fingerprint_message sdp d \<Longrightarrow> token_message d \<Longrightarrow> False"
proof -
  assume "fingerprint_message sdp d" "token_message d"
  then obtain a x b y v kvs where "46 \<notin> set a" "46 \<notin> set b" "fingerprint_payload sdp = Inr x"
      "signing_input a (b64url x) = Inr d" "signing_input b (b64url y) = Inr d"
      "utf8_encode (dumps True (JDict ((lit ''cpk'', v) # kvs))) = Inr y"
    unfolding fingerprint_message_def token_message_def by blast
  moreover from this signing_input_inject have "x = y" by metis
  ultimately have "dumps False (fingerprint_json (fingerprints_of sdp)) = dumps True (JDict ((lit ''cpk'', v) # kvs))"
    using utf8_decode_encode
    by (metis canonical_json_def fingerprint_json_sorted fingerprint_payload_def option.inject)
  then show False
    by (cases kvs) (simp_all add: fingerprint_json_def lit_def dump_string_def escape_char_def)
qed



section \<open>Exceptions that escape\<close>

lemma scan_deep: "2 * d < n \<Longrightarrow> scan n d (replicate (Suc d) 91) = TooDeep"
proof (induction d arbitrary: n)
  case 0
  then show ?case by (cases n) simp_all
next
  case (Suc d)
  then obtain m where m: "n = Suc (Suc m)" "2 * d < m" by (cases n; cases "n - 1") auto
  have "skip_ws (replicate (Suc d) 91) = replicate (Suc d) 91" by (simp add: skip_ws_def json_space_def)
  then show ?case using Suc.IH [OF m(2)] by (simp add: m(1))
qed

lemma loads_deep: "loads_bytes depth (replicate (Suc depth) 91) = Inl JsonRecursionError"
proof -
  have "dec_pass (replicate n 91) = Some (replicate n 91)" for n by (induction n) simp_all
  moreover have "detect_encoding (replicate (Suc depth) 91) = UTF8"
    by (simp add: detect_encoding_def nth_Cons' del: replicate_Suc) (simp add: take_replicate numeral_eq_Suc)
  ultimately have "json_text (replicate (Suc depth) 91) = Some (replicate (Suc depth) 91)"
    by (simp add: json_text_def del: replicate_Suc)
  moreover have "skip_ws (replicate (Suc depth) 91) = replicate (Suc depth) 91" by (simp add: skip_ws_def json_space_def)
  moreover have "scan (Suc (2 * Suc depth)) depth (replicate (Suc depth) 91) = TooDeep" by (rule scan_deep) simp
  ultimately show ?thesis
    by (simp only: loads_bytes_def loads_def option.case parsed.case length_replicate)
qed

definition fails :: "(identity_exn \<Rightarrow> bool) \<Rightarrow> 'a checked \<Rightarrow> bool" where
  "fails P r \<longleftrightarrow> (case r of Inl e \<Rightarrow> P e | Inr x \<Rightarrow> True)"

lemma fails_simps [simp]: "fails P (Inl e) = P e" "fails P (Inr x)"
  by (simp_all add: fails_def)

lemma fails_bind [intro]:
  "fails P r \<Longrightarrow> (\<And>x. r = Inr x \<Longrightarrow> fails P (f x)) \<Longrightarrow> fails P (ebind r f)"
  by (cases r) simp_all

definition identity_failure :: "identity_exn \<Rightarrow> bool" where
  "identity_failure e \<longleftrightarrow> e = InvalidIdentity \<or> e = RecursionError"

lemma failure_cases:
  "P InvalidIdentity \<Longrightarrow> fails P (valid_or x)"
  "P InvalidIdentity \<Longrightarrow> P RecursionError \<Longrightarrow> fails P (parsed_json r)"
  "P RecursionError \<Longrightarrow> fails P (py_str repr v)"
  "P InvalidIdentity \<Longrightarrow> P TypeError \<Longrightarrow> fails P (lookup_alg a)"
  by (simp_all add: valid_or_def parsed_json_def py_str_def lookup_alg_def
      split: option.split sum.split json_exn.split json.split)

lemma parse_envelope_failure: "fails identity_failure (parse_envelope repr depth v)"
proof -
  have P: "identity_failure InvalidIdentity" "identity_failure RecursionError" by (simp_all add: identity_failure_def)
  have "fails identity_failure (str_item repr k v)" for k v
    unfolding str_item_def using P by (intro fails_bind failure_cases)
  moreover have "fails identity_failure (case a of JString s \<Rightarrow> parsed_json (loads_str depth s) | _ \<Rightarrow> Inl InvalidIdentity)"
    for a using P failure_cases(2) [OF P] by (simp split: json.split)
  ultimately show ?thesis
    unfolding parse_envelope_def using P by (intro fails_bind failure_cases) simp_all
qed

text \<open>
  A malformed assertion is meant to raise \<open>InvalidIdentity\<close>. \<open>extract_identity\<close> raises that or
  \<open>RecursionError\<close>, and does raise the latter, whatever the recursion limit, for an attribute that is
  the base64 of enough opening brackets.
\<close>

theorem deep_assertion_escapes:
  "(case extract_identity repr depth sdp of Inl e \<Rightarrow> e = InvalidIdentity \<or> e = RecursionError | Inr r \<Rightarrow> True) \<and>
   extract_identity repr depth (insert_identity [] (b64encode (replicate (Suc depth) 91))) = Inl RecursionError"
proof
  show "case extract_identity repr depth sdp of Inl e \<Rightarrow> e = InvalidIdentity \<or> e = RecursionError | Inr r \<Rightarrow> True"
  proof -
    have "fails identity_failure (extract_identity repr depth sdp)"
      unfolding extract_identity_eq Let_def
      by (auto intro!: fails_bind parse_envelope_failure)
    then show ?thesis by (simp only: fails_def identity_failure_def)
  qed
  have "parse_envelope repr depth (b64encode (replicate (Suc depth) 91)) = Inl RecursionError"
    by (simp only: parse_envelope_def b64decode_encode valid_or_simps ebind_simps loads_deep parsed_json_simps)
  then show "extract_identity repr depth (insert_identity [] (b64encode (replicate (Suc depth) 91))) = Inl RecursionError"
    using extract_inserted [of "[]", OF _ _ b64_attribute] by (simp add: no_identity_def insertable_def del: replicate_Suc)
qed

definition list_alg_header :: bytes where
  "list_alg_header = map of_nat (dumps True (JDict [(lit ''alg'', JList [])]))"

text \<open>
  \<open>verify_fingerprints\<close> is documented to raise \<open>InvalidIdentity\<close>. Apart from an SDP whose fingerprint
  lines have no UTF-8 form, it raises that, or \<open>RecursionError\<close>, or \<open>TypeError\<close>; and it does raise
  \<open>TypeError\<close>, under every key and for every SDP and signature, if the header's \<open>alg\<close> is a JSON list.
\<close>

theorem list_alg_escapes:
  "(case verify_fingerprints lib depth sdp jws p of
      Inl e \<Rightarrow> e = InvalidIdentity \<or> e = RecursionError \<or> e = TypeError \<or> (\<exists>x. e = Builtin x \<and> fingerprint_payload sdp = Inl x)
    | Inr u \<Rightarrow> True) \<and>
   verify_fingerprints lib (Suc (Suc d)) sdp (b64url list_alg_header @ [46, 46] @ b64url sig) p = Inl TypeError"
proof
  let ?P = "\<lambda>e. e = InvalidIdentity \<or> e = RecursionError \<or> e = TypeError \<or> (\<exists>x. e = Builtin x \<and> fingerprint_payload sdp = Inl x)"
  have input: "fails ?P (signing_input h (b64url q))" if "unb64url h = Some b" for h q b
  proof -
    have "is_ascii h" using that by (simp add: unb64url_def urlsafe_b64decode_def split: if_splits)
    then show ?thesis by (simp add: signing_input_def utf8_encode_ascii)
  qed
  have payload: "fails ?P (builtin (fingerprint_payload sdp))" by (cases "fingerprint_payload sdp") simp_all
  have "fails ?P (verify_fingerprints lib depth sdp jws p)"
    unfolding verify_fingerprints_def
    by (auto intro!: fails_bind failure_cases payload input split: list.split)
  then show "case verify_fingerprints lib depth sdp jws p of
      Inl e \<Rightarrow> e = InvalidIdentity \<or> e = RecursionError \<or> e = TypeError \<or> (\<exists>x. e = Builtin x \<and> fingerprint_payload sdp = Inl x)
    | Inr u \<Rightarrow> True"
    by (simp only: fails_def)
  have "readable (Suc (Suc d)) (JDict [(lit ''alg'', JList [])])" by (simp add: lit_def plain_char_def surrogate_def)
  note readable = this
  have "loads_bytes (Suc (Suc d)) list_alg_header = Inr (JDict [(lit ''alg'', JList [])])"
    unfolding list_alg_header_def
    by (rule loads_bytes_dumps [OF readable utf8_encode_ascii [OF dumps_ascii [OF readable]]])
  then show "verify_fingerprints lib (Suc (Suc d)) sdp (b64url list_alg_header @ [46, 46] @ b64url sig) p = Inl TypeError"
    by (simp add: verify_fingerprints_def split_compact [simplified] json_item_def lookup_alg_def)
qed

end
