(* ===== verification/HttpPeer.thy ===== *)
theory HttpPeer
  imports Exceptions Connection Http Identity
begin

text \<open>
  What \<open>connect_http\<close> and \<open>HttpServer\<close> of \<open>api.py\<close> share: a session without a LAN transport and its
  connection, wired by \<open>_make_http_session\<close>. The session's callbacks run inside the session's
  step: \<open>peer_step\<close> replays on the connection what the step added to the session's log.
\<close>

section \<open>What the code does not define\<close>

text \<open>
  The parameters of the earlier theories in one record: Unicode's decimal digits and digits, aiortc's
  candidate parser, the ECDSA library, \<open>repr\<close> and the recursion limit.
\<close>

record ('k, 'p, 'c) platform =
  u_dec :: "nat \<Rightarrow> nat option"
  u_digit :: "nat \<Rightarrow> bool"
  candidate_sdp :: "pystr \<Rightarrow> 'c option"
  ec_of :: "('k, 'p) ec_lib"
  py_repr :: "json \<Rightarrow> pystr option"
  max_depth :: nat

section \<open>_make_http_session\<close>

record 'c http_peer =
  hp_session :: "'c session"
  hp_conn :: connection

text \<open>Signals go nowhere: the log's \<open>Signal\<close>s are \<open>send_signal=lambda message: None\<close>.\<close>

definition make_http_session :: "64 word \<Rightarrow> nat \<Rightarrow> bool \<Rightarrow> bool \<Rightarrow> 'c http_peer" where
  "make_http_session bits k dialer relay =
     \<lparr>hp_session = new_session (new_connection_id bits) dialer True True True relay,
      hp_conn = new_connection k False\<rparr>"

fun http_notice :: "connection \<Rightarrow> 'c effect \<Rightarrow> connection" where
  "http_notice c OnOpen = mark_connected c"
| "http_notice c (OnClose err) = snd (mark_closed err c)"
| "http_notice c (OnPacket data) = enqueue data c"
| "http_notice c _ = c"

definition fresh_effects :: "'c session \<Rightarrow> 'c session \<Rightarrow> 'c effect list" where
  "fresh_effects s s' = drop (length (log s)) (log s')"

definition peer_step :: "('k, 'p, 'c) platform \<Rightarrow> 'c http_peer \<Rightarrow> session_event \<Rightarrow> 'c http_peer" where
  "peer_step env p ev =
     (let s = session_step (u_dec env) (candidate_sdp env) (hp_session p) ev in
      \<lparr>hp_session = s, hp_conn = foldl http_notice (hp_conn p) (fresh_effects (hp_session p) s)\<rparr>)"

text \<open>
  The events of a session that come from aiortc, the event loop and the application; the calls of
  the two entry points and the signals of a LAN are not among them.
\<close>

fun outside_event :: "session_event \<Rightarrow> bool" where
  "outside_event (Resume i raw) = True"
| "outside_event (ResumeRaise i) = True"
| "outside_event (DataChannel ch label ready) = True"
| "outside_event (ChannelOpened rel) = True"
| "outside_event (ChannelMessage rel m) = True"
| "outside_event (ConnectionState st) = True"
| "outside_event TimerFires = True"
| "outside_event (SendCall data t) = True"
| "outside_event (ReadCall m) = True"
| "outside_event _ = False"

definition returned_sdp :: "'c effect list \<Rightarrow> pystr option" where
  "returned_sdp es = (case List.map_filter (\<lambda>e. case e of Result t \<Rightarrow> Some t | _ \<Rightarrow> None) es of [] \<Rightarrow> None | t # ts \<Rightarrow> Some t)"

text \<open>\<open>identity_signer.sign\<close>, if there is a signer. A turn of the event loop has its clocks and nonces.\<close>

record turn =
  t_now :: int
  t_nonces :: "nat \<times> nat"
  t_clock :: clock

definition sign_if :: "('k, 'p, 'c) platform \<Rightarrow> turn \<Rightarrow> 'k identity_signer option \<Rightarrow> pystr \<Rightarrow> pystr checked" where
  "sign_if env t signer desc =
     (case signer of None \<Rightarrow> Inr desc | Some sg \<Rightarrow> identity_sign (ec_of env) (t_now t) (t_nonces t) sg desc)"

section \<open>The descriptions that a session gives to aiortc\<close>

fun applied_of :: "'c effect \<Rightarrow> pystr option" where
  "applied_of (PeerCall (SetRemoteDescription desc kind)) = Some desc"
| "applied_of _ = None"

definition applied :: "'c effect list \<Rightarrow> pystr list" where
  "applied l = List.map_filter applied_of l"

lemma applied_simps [simp]:
  "applied [] = []" "applied (a @ b) = applied a @ applied b"
  "applied (x # l) = (case applied_of x of None \<Rightarrow> applied l | Some t \<Rightarrow> t # applied l)"
  by (simp_all add: applied_def map_filter_def split: option.split)

lemma applied_calls:
  "applied (log (run_call s c)) = applied (log s) @ (case c of SetRemoteDescription desc kind \<Rightarrow> [desc] | _ \<Rightarrow> [])"
  by (cases c) (simp_all add: handle_channels_open_def cancel_timeout_def handle_packet_def emit_def Let_def)

definition local_calls :: "'c pc_call list \<Rightarrow> bool" where
  "local_calls cs \<longleftrightarrow> list_all (\<lambda>c. case c of SetRemoteDescription desc kind \<Rightarrow> False | _ \<Rightarrow> True) cs"

lemma local_calls_simps [simp]:
  "local_calls []" "local_calls (a @ b) = (local_calls a \<and> local_calls b)"
  "local_calls [ChannelsOpenCb]" "local_calls [ChannelSend r ch f]" "local_calls (map PacketCb ps)"
  "local_calls (map (ChannelSend r ch) fs)"
  by (auto simp: local_calls_def list_all_iff)

lemma applied_run_pc: "local_calls (fst r) \<Longrightarrow> applied (log (run_pc r s)) = applied (log s)"
proof -
  have "local_calls cs \<Longrightarrow> applied (log (foldl run_call s cs)) = applied (log s)" for cs and s :: "'a session"
    by (induction cs arbitrary: s) (auto simp: applied_calls local_calls_def split: pc_call.splits)
  then show "local_calls (fst r) \<Longrightarrow> applied (log (run_pc r s)) = applied (log s)" by (simp add: run_pc_def)
qed

lemma channel_calls_local:
  "local_calls (fst (handle_channel_open rel p))"
  "local_calls (fst (register_channel ch label ready p))"
  "handle_channel_message rel m p = Inr r \<Longrightarrow> local_calls (fst r)"
  "pc_send data t p = Inr (ok, r) \<Longrightarrow> local_calls (fst r)"
proof -
  show open_local: "local_calls (fst (handle_channel_open rel p))" for rel and p :: "'a peer_connection"
    by (simp add: handle_channel_open_def flush_calls_def Let_def split: option.split)
  show "local_calls (fst (register_channel ch label ready p))"
    by (simp add: register_channel_def open_local Let_def)
  show "handle_channel_message rel m p = Inr r \<Longrightarrow> local_calls (fst r)"
    by (auto simp: handle_channel_message_def rbind_eq_Inr deliver_def split_beta)
  have "local_calls (fst (channel_sends fs p))" for fs and p :: "'a peer_connection"
    by (induction fs p rule: channel_sends.induct)
      (auto simp: channel_send_def split_beta Let_def split: option.splits)
  then show "pc_send data t p = Inr (ok, r) \<Longrightarrow> local_calls (fst r)"
    by (auto simp: pc_send_def rbind_eq_Inr)
qed

lemma applied_resume: "applied (log (snd (resume_frame udec f raw s))) = applied (log s)"
proof -
  have flush: "applied (log (snd (flush_from k i s))) = applied (log s)" for k i and s :: "'a session"
    by (simp add: flush_from_def emit_def split_beta Let_def split: option.split)
  have cands: "applied (map (\<lambda>c. Signal (g c)) cs) = []" for g and cs :: "pystr list"
    by (induction cs) simp_all
  show ?thesis
    by (cases f)
      (simp_all add: flush begin_flush_def after_offer_def after_answer_def emit_def arm_timeout_def cancel_timeout_def
        send_candidates_def cands split_beta Let_def split: offer_task.split answer_task.split)
qed

lemma applied_outside:
  assumes "outside_event ev"
  shows "applied (log (session_step udec from_sdp s ev)) = applied (log s)"
proof (cases ev)
  case (Resume i raw)
  then show ?thesis by (simp add: set_task_def applied_resume split: option.split)
next
  case TimerFires
  have "applied (log (close err notify s)) = applied (log s)" for err notify
    by (simp add: close_def cancel_timeout_def emit_def Let_def)
  with TimerFires show ?thesis by (simp split: option.split)
next
  case (ConnectionState st)
  then show ?thesis by (simp add: handle_connection_state_def close_def cancel_timeout_def emit_def Let_def)
next
  case (SendCall data t)
  then show ?thesis
    by (auto simp: session_send_def rbind_eq_Inr applied_run_pc dest!: channel_calls_local(4) split: sum.split if_splits)
next
  case (ReadCall m)
  then show ?thesis by (simp add: session_read_def split: prod.split)
next
  case (ChannelMessage rel m)
  then show ?thesis by (auto simp: applied_run_pc channel_calls_local(3) split: sum.split)
qed (use assms in \<open>simp_all add: applied_run_pc channel_calls_local split: option.split\<close>)

section \<open>Local descriptions\<close>

text \<open>What \<open>offer\<close> and \<open>answer\<close> return, of aiortc's description \<open>raw\<close>.\<close>

definition own_sdp :: "('k, 'p, 'c) platform \<Rightarrow> bool \<Rightarrow> pystr \<Rightarrow> pystr" where
  "own_sdp env relay raw =
     (let s = set_max_message_size (u_dec env) MAX_MESSAGE_SIZE raw in if relay then keep_only_relay_candidates s else s)"

lemma local_own: "local_sdp (u_dec env) p raw = own_sdp env (relay_only p) raw"
  by (simp add: local_sdp_def own_sdp_def)

lemma new_pc_relay [simp]: "relay_only (new_pc dialer relay on_pkt on_open) = relay"
  by (simp add: new_pc_def bare_pc_def register_channel_def set_channel_def Let_def)

section \<open>The connection follows its session\<close>

text \<open>
  What a step of the peer does to its two halves. A known error never raises in \<open>_mark_closed\<close>, so
  a close always reaches the connection.
\<close>

lemma peer_session [simp]:
  "hp_session (peer_step env p ev) = session_step (u_dec env) (candidate_sdp env) (hp_session p) ev"
  by (simp add: peer_step_def Let_def)

lemma fresh_log: "grows s s' \<Longrightarrow> log s' = log s @ fresh_effects s s'"
  by (auto simp: grows_def fresh_effects_def)

lemma opens_of_resolved:
  "connected (foldl http_notice c es) = Resolved \<Longrightarrow> connected c = Resolved \<or> 0 < opens es"
proof (induction es arbitrary: c)
  case (Cons e es)
  from Cons.IH [of "http_notice c e"] Cons.prems show ?case
    by (cases e) (auto simp: mark_connected_def mark_closed_def finish_close_def enqueue_def Let_def split: if_splits sum.splits)
qed simp

lemma settled_stays: "connected c \<noteq> Pending \<Longrightarrow> connected (foldl http_notice c es) = connected c"
proof (induction es arbitrary: c)
  case (Cons e es)
  have "connected (http_notice c e) = connected c"
    using Cons.prems by (cases e) (simp_all add: mark_connected_def mark_closed_def finish_close_def enqueue_def Let_def)
  with Cons show ?case by simp
qed simp

lemma peer_conn: "hp_conn (peer_step env p ev) = foldl http_notice (hp_conn p) (fresh_effects (hp_session p) (hp_session (peer_step env p ev)))"
  by (simp add: peer_step_def Let_def)

lemma opens_once: "session_inv s \<Longrightarrow> opens (log s) \<le> 1"
  by (cases "channels_open_fired (pc s)") (auto simp: session_inv_def)

lemma opened_channels:
  assumes "session_inv s" and "0 < opens (log s)"
  shows "reliable_open (pc s) \<and> unreliable_open (pc s)"
proof -
  have "channels_open_fired (pc s)" using assms by (cases "channels_open_fired (pc s)") (auto simp: session_inv_def)
  then show ?thesis using assms(1) by (simp add: session_inv_def peer_ok_def channels_ok_def)
qed

section \<open>A connected peer\<close>

text \<open>
  The session of a peer is \<open>CONNECTED\<close>, nothing is half-received, and \<open>q\<close> waits in the queue of
  its connection.
\<close>

definition ready :: "recv_item list \<Rightarrow> 'c http_peer \<Rightarrow> bool" where
  "ready q p \<longleftrightarrow> session_inv (hp_session p) \<and> state (hp_session p) = CONNECTED \<and>
     packet_handler (hp_session p) \<and> has_on_close (hp_session p) \<and>
     packets (pc (hp_session p)) = new_queue \<and> recv_queue (hp_conn p) = q"

section \<open>An instance of the parameters\<close>

definition example_platform :: "(byte, byte, nat) platform" where
  "example_platform =
     \<lparr>u_dec = (\<lambda>_. None), u_digit = (\<lambda>_. False), candidate_sdp = (\<lambda>_. None), ec_of = example_ec,
      py_repr = (\<lambda>_. None), max_depth = 3\<rparr>"

definition example_turn :: turn where
  "example_turn = \<lparr>t_now = 0, t_nonces = (0, 0), t_clock = \<lparr>now_up = 0, float_past = (\<lambda>_. False)\<rparr>\<rparr>"

end
