(* ===== verification/HttpDial.thy ===== *)
theory HttpDial
  imports HttpPeer
begin

text \<open>
  The coroutine \<open>connect_http\<close> of \<open>api.py\<close>, cut at its awaits: the offer, the exchange with the host,
  the verified identity and its hook, the answer, the wait for the channels, and the \<open>except\<close> block.
\<close>

section \<open>The coroutine\<close>

text \<open>What \<open>connect_http\<close> raises.\<close>

datatype join_exn =
    IdentityExn identity_exn
  | SignalingExn signaling_exn
  | ConnectExn outcome                     \<comment> \<open>of \<open>_await_connected\<close>\<close>
  | HookExn                                \<comment> \<open>of \<open>on_server_identity\<close>\<close>
  | AiortcExn
  | CancelExn

text \<open>
  Where it is: in \<open>session.offer\<close>, in \<open>request_answer\<close> with the offer, in \<open>on_server_identity\<close> with the
  stripped answer, in \<open>session.accept_answer\<close>, in \<open>_await_connected\<close>, returned, or in the \<open>aclose\<close> of
  the \<open>except\<close> block with what it raises after that.
\<close>

datatype 'p join_phase =
    Offering
  | Requesting pystr
  | Trusting pystr "'p server_identity"
  | Accepting nat
  | Opening
  | Joined
  | Failing join_exn

record ('p, 'c) http_dial =
  hd_local :: network_id
  hd_peer :: "'c http_peer"
  hd_phase :: "'p join_phase"

record 'k dial_options =
  o_server_url :: pystr
  o_capability_check :: bool
  o_wants_identity :: bool                 \<comment> \<open>\<open>on_server_identity is not None\<close>\<close>
  o_signer :: "'k identity_signer option"

definition fail_join :: "('k, 'p, 'c) platform \<Rightarrow> join_exn \<Rightarrow> ('p, 'c) http_dial \<Rightarrow> ('p, 'c) http_dial" where
  "fail_join env x d =
     d\<lparr>hd_peer := peer_step env (hd_peer d) (AcloseCall (Known E_GENERIC_FAILURE)), hd_phase := Failing x\<rparr>"

text \<open>\<open>_await_connected\<close>, whenever the future may have changed.\<close>

definition await_join :: "('k, 'p, 'c) platform \<Rightarrow> ('p, 'c) http_dial \<Rightarrow> ('p, 'c) http_dial" where
  "await_join env d =
     (case await_connected (hp_conn (hd_peer d)) of
        Waits \<Rightarrow> d\<lparr>hd_phase := Opening\<rparr>
      | Finished \<Rightarrow> d\<lparr>hd_phase := Joined\<rparr>
      | r \<Rightarrow> fail_join env (ConnectExn r) d)"

text \<open>\<open>accept_answer\<close> returns at once unless the session still waits for an answer.\<close>

definition accept_join :: "('k, 'p, 'c) platform \<Rightarrow> pystr \<Rightarrow> ('p, 'c) http_dial \<Rightarrow> ('p, 'c) http_dial" where
  "accept_join env answer d =
     (let i = length (tasks (hp_session (hd_peer d)));
          d1 = d\<lparr>hd_peer := peer_step env (hd_peer d) (AcceptAnswer answer)\<rparr>
      in if task_at i (hp_session (hd_peer d1)) = None then await_join env d1
         else d1\<lparr>hd_phase := Accepting i\<rparr>)"

text \<open>After the reply: verify the identity and call the hook, or drop it unverified.\<close>

definition answered ::
    "('k, 'p, 'c) platform \<Rightarrow> 'k dial_options \<Rightarrow> turn \<Rightarrow> pystr \<Rightarrow> ('p, 'c) http_dial \<Rightarrow> ('p, 'c) http_dial" where
  "answered env opts t answer d =
     (if o_wants_identity opts
      then (case verify_server_identity (ec_of env) (t_clock t) (py_repr env) (max_depth env) answer of
              Inl x \<Rightarrow> fail_join env (IdentityExn x) d
            | Inr (stripped, sid) \<Rightarrow> d\<lparr>hd_phase := Trusting stripped sid\<rparr>)
      else accept_join env (strip_identity answer) d)"

text \<open>What the coroutine does once the session has handled an event, in the same turn.\<close>

definition resume_join ::
    "('k, 'p, 'c) platform \<Rightarrow> 'k dial_options \<Rightarrow> turn \<Rightarrow> session_event \<Rightarrow> 'c session \<Rightarrow> ('p, 'c) http_dial \<Rightarrow>
     ('p, 'c) http_dial" where
  "resume_join env opts t ev old d =
     (let s = hp_session (hd_peer d) in
      case hd_phase d of
        Offering \<Rightarrow>
          if task_at 0 s \<noteq> None then d
          else (case returned_sdp (fresh_effects old s) of
                  None \<Rightarrow> fail_join env AiortcExn d
                | Some offer \<Rightarrow>
                    (case sign_if env t (o_signer opts) offer of
                       Inl x \<Rightarrow> fail_join env (IdentityExn x) d
                     | Inr own_offer \<Rightarrow> d\<lparr>hd_phase := Requesting own_offer\<rparr>))
      | Accepting i \<Rightarrow>
          if task_at i s \<noteq> None then d
          else if ev = ResumeRaise i then fail_join env AiortcExn d
          else await_join env d
      | Opening \<Rightarrow> await_join env d
      | _ \<Rightarrow> d)"

datatype join_event =
    JSession turn session_event            \<comment> \<open>aiortc, the timer, the application\<close>
  | JReplies turn http_reply http_reply    \<comment> \<open>to the GET and to the POST; a cancel is one of the replies\<close>
  | JHook bool                             \<comment> \<open>\<open>on_server_identity\<close> has returned, or raised\<close>
  | JTimeout                               \<comment> \<open>of \<open>wait_for\<close>\<close>
  | JCancel

definition cancel_task :: "('k, 'p, 'c) platform \<Rightarrow> nat \<Rightarrow> ('p, 'c) http_dial \<Rightarrow> ('p, 'c) http_dial" where
  "cancel_task env i d = fail_join env CancelExn (d\<lparr>hd_peer := peer_step env (hd_peer d) (ResumeRaise i)\<rparr>)"

definition set_conn :: "connection \<Rightarrow> ('p, 'c) http_dial \<Rightarrow> ('p, 'c) http_dial" where
  "set_conn c d = d\<lparr>hd_peer := (hd_peer d)\<lparr>hp_conn := c\<rparr>\<rparr>"

fun join_step ::
    "('k, 'p, 'c) platform \<Rightarrow> 'k dial_options \<Rightarrow> ('p, 'c) http_dial \<Rightarrow> join_event \<Rightarrow>
     http_request list \<times> ('p, 'c) http_dial" where
  "join_step env opts d (JSession t ev) =
     ([], if outside_event ev
          then resume_join env opts t ev (hp_session (hd_peer d)) (d\<lparr>hd_peer := peer_step env (hd_peer d) ev\<rparr>)
          else d)"
| "join_step env opts d (JReplies t get_reply post_reply) =
     (case hd_phase d of
        Requesting offer \<Rightarrow>
          (case request_answer (u_dec env) (u_digit env) (o_server_url opts) (str_network_id (hd_local d)) offer
                  (o_capability_check opts) get_reply post_reply of
             (requests, Inl x) \<Rightarrow> (requests, fail_join env (SignalingExn x) d)
           | (requests, Inr answer) \<Rightarrow> (requests, answered env opts t answer d))
      | _ \<Rightarrow> ([], d))"
| "join_step env opts d (JHook ok) =
     ([], case hd_phase d of
            Trusting stripped sid \<Rightarrow> if ok then accept_join env stripped d else fail_join env HookExn d
          | _ \<Rightarrow> d)"
| "join_step env opts d JTimeout =
     ([], case hd_phase d of
            Opening \<Rightarrow> (let (r, c) = await_timeout (hp_conn (hd_peer d)) in fail_join env (ConnectExn r) (set_conn c d))
          | _ \<Rightarrow> d)"
| "join_step env opts d JCancel =
     ([], case hd_phase d of
            Offering \<Rightarrow> cancel_task env 0 d
          | Accepting i \<Rightarrow> cancel_task env i d
          | Trusting stripped sid \<Rightarrow> fail_join env CancelExn d
          | Opening \<Rightarrow>
              fail_join env CancelExn
                (set_conn (let c = hp_conn (hd_peer d) in if connected c = Pending then c\<lparr>connected := Cancelled\<rparr> else c) d)
          | _ \<Rightarrow> d)"

definition start_join ::
    "('k, 'p, 'c) platform \<Rightarrow> network_id option \<Rightarrow> 64 word \<Rightarrow> 64 word \<Rightarrow> bool \<Rightarrow> ('p, 'c) http_dial result" where
  "start_join env lid id_bits bits relay =
     rbind (case lid of Some nid \<Rightarrow> Inr nid | None \<Rightarrow> p2p (new_connection_id id_bits)) (\<lambda>local.
       Inr \<lparr>hd_local = local, hd_peer = peer_step env (make_http_session bits 0 True relay) OfferCall,
            hd_phase = Offering\<rparr>)"

section \<open>The frames of a dialing session\<close>

definition dialer_frame :: "frame option \<Rightarrow> bool" where
  "dialer_frame f \<longleftrightarrow>
     (case f of None \<Rightarrow> True | Some FrRemoteAnswer \<Rightarrow> True | Some (FrFlush k i) \<Rightarrow> k = None | Some FrAddCandidate \<Rightarrow> True
      | _ \<Rightarrow> False)"

lemma dialer_frame_None [simp]: "dialer_frame None"
  by (simp add: dialer_frame_def)

definition quiet :: "'c session \<Rightarrow> bool" where
  "quiet s \<longleftrightarrow> list_all dialer_frame (tasks s)"

lemma resume_dialer_frame: "dialer_frame (Some f) \<Longrightarrow> dialer_frame (fst (resume_frame udec f raw s))"
  by (cases f) (simp_all add: dialer_frame_def begin_flush_def flush_from_def split_beta Let_def split: option.split)

lemma list_all_update: "list_all P xs \<Longrightarrow> P x \<Longrightarrow> list_all P (xs[i := x])"
  by (auto simp: list_all_iff dest: set_update_subset_insert [THEN subsetD])

lemma outside_tasks:
  assumes "outside_event ev" and "is_dialer s"
  shows "tasks (session_step udec from_sdp s ev) =
    (case ev of
       Resume i raw \<Rightarrow> (case task_at i s of None \<Rightarrow> tasks s | Some f \<Rightarrow> (tasks s)[i := fst (resume_frame udec f raw s)])
     | ResumeRaise i \<Rightarrow> (tasks s)[i := None]
     | _ \<Rightarrow> tasks s)"
proof (cases ev)
  case (Resume i raw)
  have "tasks (snd (resume_frame udec f raw s)) = tasks s" for f
    by (cases f) (simp_all add: after_offer_spec after_answer_spec begin_flush_def flush_from_def split_beta Let_def split: option.split)
  with Resume show ?thesis by (simp add: set_task_def split: option.split)
next
  case TimerFires
  then show ?thesis by (simp add: close_def cancel_timeout_def Let_def split: option.split)
next
  case (ConnectionState st)
  then show ?thesis by (simp add: handle_connection_state_def close_def cancel_timeout_def Let_def)
next
  case (SendCall data t)
  then show ?thesis by (auto simp: session_send_def rbind_eq_Inr run_pc_spec split: sum.split if_splits)
next
  case (ReadCall m)
  then show ?thesis by (simp add: session_read_def split: prod.split)
qed (use assms in \<open>simp_all add: run_pc_spec split: option.split sum.split\<close>)

lemma quiet_outside:
  assumes "outside_event ev" and "is_dialer s" and "quiet s"
  shows "quiet (session_step udec from_sdp s ev)"
proof -
  have "dialer_frame (fst (resume_frame udec f raw s))" if "task_at i s = Some f" for i f raw
    using assms(3) that by (auto simp: quiet_def task_at_def list_all_length split: if_splits intro!: resume_dialer_frame)
  then show ?thesis
    using assms(3)
    by (auto simp: quiet_def outside_tasks [OF assms(1,2)] intro!: list_all_update split: session_event.split option.split)
qed

lemma quiet_not_stale: "quiet s \<Longrightarrow> \<not> stale s ev"
proof
  assume "quiet s" "stale s ev"
  from this(2) show False
    by (rule stale_cases)
      (use \<open>quiet s\<close> in \<open>auto simp: quiet_def dialer_frame_def task_at_def list_all_length split: if_splits dest!: spec\<close>)
qed

section \<open>The invariant of every run\<close>

text \<open>
  \<open>E\<close> are the events of the run. A description was verified if it is what
  \<open>verify_server_identity\<close> made of the body of a reply, approved if it was also passed by the hook;
  without a hook, it is the body of a reply without its identity lines.
\<close>

definition replied :: "join_event set \<Rightarrow> turn \<Rightarrow> pystr \<Rightarrow> bool" where
  "replied E t body \<longleftrightarrow> (\<exists>g status. JReplies t g (Reply status (Body (Some body))) \<in> E \<and> ok_status status)"

definition verified :: "('k, 'p, 'c) platform \<Rightarrow> join_event set \<Rightarrow> pystr \<Rightarrow> 'p server_identity \<Rightarrow> bool" where
  "verified env E desc sid \<longleftrightarrow>
     (\<exists>t body. replied E t body \<and>
        verify_server_identity (ec_of env) (t_clock t) (py_repr env) (max_depth env) body = Inr (desc, sid))"

definition approved :: "('k, 'p, 'c) platform \<Rightarrow> 'k dial_options \<Rightarrow> join_event set \<Rightarrow> pystr \<Rightarrow> bool" where
  "approved env opts E desc \<longleftrightarrow>
     (if o_wants_identity opts then (\<exists>sid. verified env E desc sid) \<and> JHook True \<in> E
      else \<exists>t body. replied E t body \<and> desc = strip_identity body)"

definition dial_base :: "('k, 'p, 'c) platform \<Rightarrow> 'k dial_options \<Rightarrow> join_event set \<Rightarrow> ('p, 'c) http_dial \<Rightarrow> bool" where
  "dial_base env opts E d \<longleftrightarrow>
     (let s = hp_session (hd_peer d) in
      session_inv s \<and> is_dialer s \<and> packet_handler s \<and> (connected (hp_conn (hd_peer d)) = Resolved \<longrightarrow> opens (log s) = 1) \<and>
      (\<forall>desc \<in> set (applied (log s)). approved env opts E desc) \<and> length (applied (log s)) \<le> 1)"

definition dial_inv :: "('k, 'p, 'c) platform \<Rightarrow> 'k dial_options \<Rightarrow> join_event set \<Rightarrow> ('p, 'c) http_dial \<Rightarrow> bool" where
  "dial_inv env opts E d \<longleftrightarrow> dial_base env opts E d \<and>
     (let s = hp_session (hd_peer d) in
      case hd_phase d of
        Offering \<Rightarrow> tasks s = [Some (FrCreateOffer KOffer)] \<and> applied (log s) = []
      | Requesting offer \<Rightarrow> quiet s \<and> applied (log s) = []
      | Trusting desc sid \<Rightarrow> quiet s \<and> applied (log s) = [] \<and> o_wants_identity opts \<and> verified env E desc sid
      | Failing x \<Rightarrow> quiet s \<and> state s = CLOSED
      | Joined \<Rightarrow> quiet s \<and> Ex (approved env opts E) \<and> connected (hp_conn (hd_peer d)) = Resolved
      | _ \<Rightarrow> quiet s \<and> Ex (approved env opts E))"

lemma base_step:
  assumes "dial_base env opts E d"
    and "\<forall>desc \<in> set (applied (log (hp_session (peer_step env (hd_peer d) ev)))). approved env opts E desc"
    and "length (applied (log (hp_session (peer_step env (hd_peer d) ev)))) \<le> 1"
  shows "dial_base env opts E (d\<lparr>hd_peer := peer_step env (hd_peer d) ev, hd_phase := ph\<rparr>)"
proof -
  let ?s = "hp_session (hd_peer d)" and ?t = "hp_session (peer_step env (hd_peer d) ev)"
  have inv: "session_inv ?s" "is_dialer ?s" using assms(1) by (simp_all add: dial_base_def Let_def)
  then have inv': "session_inv ?t" by (simp add: session_inv_step)
  have "is_dialer ?t \<and> packet_handler ?t = packet_handler ?s"
    using inv(2) step_same [of ?s "u_dec env" "candidate_sdp env" ev] by (simp add: same_session_def)
  moreover have "opens (log ?t) \<le> 1" by (rule opens_once [OF inv'])
  moreover have "log ?t = log ?s @ fresh_effects ?s ?t" by (simp only: peer_session fresh_log [OF step_grows])
  then have "opens (log ?t) = opens (log ?s) + opens (fresh_effects ?s ?t)" by simp
  ultimately show ?thesis
    using assms inv' opens_of_resolved [of "hp_conn (hd_peer d)" "fresh_effects ?s ?t"]
    by (auto simp: dial_base_def Let_def peer_conn simp del: peer_session)
qed

lemma base_phase [simp]: "dial_base env opts E (d\<lparr>hd_phase := ph\<rparr>) = dial_base env opts E d"
  by (simp add: dial_base_def)

lemma fail_inv:
  assumes "dial_base env opts E d" and "quiet (hp_session (hd_peer d))"
  shows "dial_inv env opts E (fail_join env x d)"
proof -
  let ?s = "hp_session (hd_peer d)"
  have s: "applied (log (aclose err ?s)) = applied (log ?s)" "tasks (aclose err ?s) = tasks ?s" "state (aclose err ?s) = CLOSED" for err
    by (simp_all add: aclose_def close_def cancel_timeout_def emit_def Let_def)
  have "dial_base env opts E (d\<lparr>hd_peer := peer_step env (hd_peer d) (AcloseCall (Known E_GENERIC_FAILURE)), hd_phase := Failing x\<rparr>)"
    using assms(1) by (intro base_step) (simp_all add: s dial_base_def Let_def)
  then show ?thesis using assms(2) by (simp add: fail_join_def dial_inv_def s quiet_def Let_def)
qed

lemma await_inv:
  assumes "dial_base env opts E d" and "quiet (hp_session (hd_peer d))" and "Ex (approved env opts E)"
  shows "dial_inv env opts E (await_join env d)"
proof (cases "connected (hp_conn (hd_peer d))")
  case Pending
  then show ?thesis using assms by (simp add: await_join_def await_connected_def dial_inv_def Let_def)
next
  case Resolved
  then show ?thesis using assms by (simp add: await_join_def await_connected_def dial_inv_def Let_def)
qed (simp_all add: await_join_def await_connected_def fail_inv [OF assms(1,2)])

lemma accept_inv:
  assumes "dial_base env opts E d" and "quiet (hp_session (hd_peer d))" and "approved env opts E answer"
    and "applied (log (hp_session (hd_peer d))) = []"
  shows "dial_inv env opts E (accept_join env answer d)"
proof -
  let ?s = "hp_session (hd_peer d)" and ?d = "d\<lparr>hd_peer := peer_step env (hd_peer d) (AcceptAnswer answer)\<rparr>"
  have "applied (log (hp_session (hd_peer ?d))) = [] \<or> applied (log (hp_session (hd_peer ?d))) = [answer]"
    using assms(4) by (simp add: accept_answer_def new_task_def arm_timeout_def cancel_timeout_def emit_def Let_def)
  then have base: "dial_base env opts E (?d\<lparr>hd_phase := ph\<rparr>)" for ph
    using base_step [OF assms(1), of "AcceptAnswer answer" ph] assms(3) by auto
  have quiet: "quiet (hp_session (hd_peer ?d))"
    using assms(2) by (auto simp: quiet_def accept_answer_def new_task_def arm_timeout_def cancel_timeout_def dialer_frame_def Let_def)
  have "Ex (approved env opts E)" using assms(3) by blast
  with base [of "hd_phase d"] quiet await_inv [of env opts E ?d] base show ?thesis
    by (simp add: accept_join_def dial_inv_def Let_def del: peer_session)
qed

lemma request_answer_reply:
  assumes "request_answer dec digit url nid offer check g p = (rs, Inr body)"
  shows "\<exists>status. p = Reply status (Body (Some body)) \<and> ok_status status"
proof -
  have "\<exists>status. p = Reply status (Body (Some body)) \<and> ok_status status"
    if "snd (post_offer dec digit u offer p) = Inr body" for u
    using that
    by (auto simp: post_offer_def read_answer_def parse_answer_Inr split: sum.splits http_reply.splits http_body.splits option.splits if_splits)
  moreover have "snd (request_answer dec digit url nid offer check g p) = Inr body" by (simp add: assms)
  then have "snd (post_offer dec digit (join_url url @ 47 # nid) offer p) = Inr body"
    by (auto simp: request_answer_def Let_def split: if_splits http_reply.splits)
  ultimately show ?thesis by blast
qed

lemma offering_tasks:
  assumes "outside_event ev" and "is_dialer s" and "tasks s = [Some (FrCreateOffer k)]"
  shows "tasks (session_step dec from_sdp s ev) = tasks s \<or> tasks (session_step dec from_sdp s ev) = [None]"
  unfolding outside_tasks [OF assms(1,2)] using assms(3)
  by (auto simp: task_at_def list_update.simps split: session_event.split option.split nat.split)

lemma session_event_inv:
  assumes "dial_inv env opts E d" and "outside_event ev"
  shows "dial_inv env opts E (resume_join env opts t ev (hp_session (hd_peer d)) (d\<lparr>hd_peer := peer_step env (hd_peer d) ev\<rparr>))"
proof -
  let ?s = "hp_session (hd_peer d)" and ?d = "d\<lparr>hd_peer := peer_step env (hd_peer d) ev\<rparr>"
  let ?t = "hp_session (hd_peer ?d)"
  have applied: "applied (log ?t) = applied (log ?s)" by (simp add: applied_outside assms(2))
  have base: "dial_base env opts E d" using assms(1) by (simp add: dial_inv_def)
  have "dial_base env opts E (?d\<lparr>hd_phase := hd_phase d\<rparr>)"
    using base applied by (intro base_step) (simp_all add: dial_base_def Let_def)
  then have base': "dial_base env opts E ?d" by simp
  have dialer: "is_dialer ?s" using base by (simp add: dial_base_def Let_def)
  show ?thesis
  proof (cases "hd_phase d = Offering")
    case True
    then have start: "tasks ?s = [Some (FrCreateOffer KOffer)]" "applied (log ?s) = []"
      using assms(1) by (simp_all add: dial_inv_def Let_def)
    have tasks: "tasks ?t = tasks ?s \<or> tasks ?t = [None]"
      using offering_tasks [OF assms(2) dialer start(1)] by simp
    show ?thesis
    proof (cases "task_at 0 ?t = None")
      case False
      then have "tasks ?t = tasks ?s" using tasks by (auto simp: task_at_def)
      then show ?thesis using False True base' start applied by (simp add: resume_join_def dial_inv_def Let_def)
    next
      case ended: True
      then have "quiet ?t" using tasks start by (auto simp: task_at_def quiet_def)
      then show ?thesis using True ended base' start(2) applied fail_inv [OF base']
        by (simp add: resume_join_def dial_inv_def [of _ _ _ "?d\<lparr>hd_phase := _\<rparr>"] Let_def del: peer_session
            split: option.split sum.split)
    qed
  next
    case False
    then have "quiet ?s" using assms(1) by (auto simp: dial_inv_def Let_def split: join_phase.splits)
    then have quiet: "quiet ?t" using quiet_outside [OF assms(2) dialer] by simp
    have closed: "state ?s = CLOSED \<Longrightarrow> state ?t = CLOSED"
      using closed_step [of ?s] quiet_not_stale [OF \<open>quiet ?s\<close>] by auto
    show ?thesis
    proof (cases "hd_phase d")
      case (Accepting i)
      then have "Ex (approved env opts E)" using assms(1) by (simp add: dial_inv_def Let_def)
      then show ?thesis using Accepting base' quiet fail_inv [OF base' quiet] await_inv [OF base' quiet]
        by (auto simp: resume_join_def dial_inv_def [of _ _ _ ?d] Let_def simp del: peer_session)
    next
      case Opening
      then have "Ex (approved env opts E)" using assms(1) by (simp add: dial_inv_def Let_def)
      then show ?thesis using Opening await_inv [OF base' quiet] by (simp add: resume_join_def Let_def)
    next
      case Joined
      then show ?thesis using assms(1) base' quiet
        by (simp add: resume_join_def dial_inv_def Let_def peer_conn settled_stays del: peer_session)
    qed (use assms(1) False base' quiet applied closed in \<open>simp_all add: resume_join_def dial_inv_def Let_def del: peer_session\<close>)
  qed
qed

lemma conn_base:
  "dial_base env opts E d \<Longrightarrow> (connected c = Resolved \<Longrightarrow> connected (hp_conn (hd_peer d)) = Resolved) \<Longrightarrow>
   dial_base env opts E (set_conn c d)"
  by (auto simp: dial_base_def set_conn_def Let_def)

lemma cancelled_task_inv:
  assumes "dial_base env opts E d" and "quiet (hp_session (peer_step env (hd_peer d) (ResumeRaise i)))"
  shows "dial_inv env opts E (cancel_task env i d)"
proof -
  have "applied (log (hp_session (peer_step env (hd_peer d) (ResumeRaise i)))) = applied (log (hp_session (hd_peer d)))"
    by simp
  then have "dial_base env opts E (d\<lparr>hd_peer := peer_step env (hd_peer d) (ResumeRaise i), hd_phase := hd_phase d\<rparr>)"
    using assms(1) by (intro base_step) (simp_all add: dial_base_def Let_def del: peer_session)
  then show ?thesis using assms(2) by (simp add: cancel_task_def fail_inv)
qed

lemma join_step_inv:
  assumes "dial_inv env opts E d" and "ev \<in> E"
  shows "dial_inv env opts E (snd (join_step env opts d ev))"
proof -
  let ?s = "hp_session (hd_peer d)"
  have base: "dial_base env opts E d" using assms(1) by (simp add: dial_inv_def)
  show ?thesis
  proof (cases ev)
    case (JSession t e)
    then show ?thesis using assms(1) by (simp add: session_event_inv)
  next
    case (JReplies t g p)
    show ?thesis
    proof (cases "hd_phase d")
      case (Requesting offer)
      then have s: "quiet ?s" "applied (log ?s) = []" using assms(1) by (simp_all add: dial_inv_def Let_def)
      obtain rs r where r: "request_answer (u_dec env) (u_digit env) (o_server_url opts) (str_network_id (hd_local d)) offer
          (o_capability_check opts) g p = (rs, r)" by fastforce
      show ?thesis
      proof (cases r)
        case (Inl x)
        then show ?thesis using JReplies Requesting r fail_inv [OF base s(1)] by simp
      next
        case (Inr body)
        then obtain status where "p = Reply status (Body (Some body))" "ok_status status"
          using request_answer_reply [OF r [unfolded Inr]] by blast
        then have "replied E t body" using assms(2) JReplies by (auto simp: replied_def)
        then have "\<not> o_wants_identity opts \<Longrightarrow> approved env opts E (strip_identity body)"
            "verify_server_identity (ec_of env) (t_clock t) (py_repr env) (max_depth env) body = Inr (desc, sid) \<Longrightarrow>
              verified env E desc sid" for desc sid
          by (auto simp: approved_def verified_def)
        then have "dial_inv env opts E (answered env opts t body d)"
          using fail_inv [OF base s(1)] accept_inv [OF base s(1) _ s(2)] base s
          by (auto simp: answered_def dial_inv_def [of _ _ _ "d\<lparr>hd_phase := _\<rparr>"] Let_def split: sum.split)
        then show ?thesis using JReplies Requesting r Inr by simp
      qed
    qed (use assms(1) JReplies in simp_all)
  next
    case (JHook ok)
    show ?thesis
    proof (cases "hd_phase d")
      case (Trusting desc sid)
      then have s: "quiet ?s" "applied (log ?s) = []" "o_wants_identity opts \<and> verified env E desc sid"
        using assms(1) by (simp_all add: dial_inv_def Let_def)
      have "ok \<Longrightarrow> approved env opts E desc" using s(3) JHook assms(2) by (auto simp: approved_def)
      then show ?thesis using JHook Trusting fail_inv [OF base s(1)] accept_inv [OF base s(1) _ s(2)] by simp
    qed (use assms(1) JHook in simp_all)
  next
    case JTimeout
    show ?thesis
    proof (cases "hd_phase d = Opening")
      case True
      then have "quiet ?s" using assms(1) by (simp add: dial_inv_def Let_def)
      then have "dial_inv env opts E (fail_join env x (set_conn (snd (await_timeout (hp_conn (hd_peer d)))) d))" for x
        using base by (intro fail_inv conn_base) (auto simp: await_timeout_def set_conn_def split: if_splits)
      then show ?thesis using JTimeout True by (simp add: split_beta Let_def)
    next
      case False
      then show ?thesis using assms(1) JTimeout by (simp split: join_phase.split)
    qed
  next
    case JCancel
    show ?thesis
    proof (cases "hd_phase d")
      case Offering
      then have "tasks ?s = [Some (FrCreateOffer KOffer)]" using assms(1) by (simp add: dial_inv_def Let_def)
      then have "quiet (hp_session (peer_step env (hd_peer d) (ResumeRaise 0)))" by (simp add: quiet_def)
      then show ?thesis using JCancel Offering cancelled_task_inv [OF base] by simp
    next
      case (Accepting i)
      then have "quiet ?s" "is_dialer ?s" using assms(1) by (simp_all add: dial_inv_def dial_base_def Let_def)
      then have "quiet (hp_session (peer_step env (hd_peer d) (ResumeRaise i)))"
        using quiet_outside [of "ResumeRaise i"] by simp
      then show ?thesis using JCancel Accepting cancelled_task_inv [OF base] by simp
    next
      case (Trusting desc sid)
      then show ?thesis using JCancel assms(1) fail_inv [OF base] by (simp add: dial_inv_def [of _ _ _ d] Let_def)
    next
      case Opening
      let ?c = "let c = hp_conn (hd_peer d) in if connected c = Pending then c\<lparr>connected := Cancelled\<rparr> else c"
      have "dial_base env opts E (set_conn ?c d)" by (rule conn_base [OF base]) (simp add: Let_def split: if_splits)
      moreover have "quiet (hp_session (hd_peer (set_conn ?c d)))"
        using Opening assms(1) by (simp add: dial_inv_def set_conn_def Let_def)
      ultimately show ?thesis using JCancel Opening fail_inv by (simp add: fail_inv)
    qed (use assms(1) JCancel in simp_all)
  qed
qed

lemma start_join_inv:
  assumes "start_join env lid id_bits bits relay = Inr d"
  shows "dial_inv env opts E d"
proof -
  let ?p = "make_http_session bits 0 True relay" and ?q = "peer_step env (make_http_session bits 0 True relay) OfferCall"
  have d: "hd_phase d = Offering" "hd_peer d = ?q" using assms by (auto simp: start_join_def rbind_eq_Inr)
  have "hp_session ?q = new_task (create_offer KOffer (hp_session ?p))" by simp
  moreover have "session_inv (hp_session ?q)" using new_session_inv by (simp add: make_http_session_def create_offer_def)
  ultimately show ?thesis using d
    by (simp add: dial_inv_def dial_base_def make_http_session_def create_offer_def new_task_def new_session_def
        new_connection_def peer_conn fresh_effects_def Let_def)
qed

lemma run_join_inv:
  assumes "dial_inv env opts E d" and "set es \<subseteq> E"
  shows "dial_inv env opts E (snd (run_out (join_step env opts) d es))"
  using assms
proof (induction es arbitrary: d)
  case (Cons ev es)
  then have "dial_inv env opts E (snd (join_step env opts d ev))" by (simp add: join_step_inv)
  with Cons show ?case by (simp add: split_beta Let_def)
qed simp

lemma failing_step:
  assumes "dial_inv env opts UNIV d" and "hd_phase d = Failing x"
  shows "hd_phase (snd (join_step env opts d ev)) = Failing x \<and>
    applied (log (hp_session (hd_peer (snd (join_step env opts d ev))))) = applied (log (hp_session (hd_peer d)))"
  using assms(2) by (cases ev) (simp_all add: resume_join_def applied_outside)

section \<open>The run that connects\<close>

definition dialing_peer :: "('k, 'p, 'c) platform \<Rightarrow> 64 word \<Rightarrow> bool \<Rightarrow> pystr \<Rightarrow> 'c http_peer" where
  "dialing_peer env bits relay raw =
     \<lparr>hp_session = (new_session (new_connection_id bits) True True True True relay)
        \<lparr>state := OFFER_SENT, timer := Some E_NEGOTIATION_TIMEOUT_WAITING_FOR_RESPONSE, tasks := [None],
         log := [Result (own_sdp env relay raw)]\<rparr>,
      hp_conn = new_connection 0 False\<rparr>"

lemma offer_made:
  assumes "sign_if env t (o_signer opts) (own_sdp env relay raw) = Inr offer"
  shows "join_step env opts
      \<lparr>hd_local = nid, hd_peer = peer_step env (make_http_session bits 0 True relay) OfferCall, hd_phase = Offering\<rparr>
      (JSession t (Resume 0 raw)) =
    ([], \<lparr>hd_local = nid, hd_peer = dialing_peer env bits relay raw, hd_phase = Requesting offer\<rparr>)"
  using assms
  by (simp add: resume_join_def peer_step_def make_http_session_def create_offer_def new_task_def set_task_def task_at_def
      new_session_def after_offer_def arm_timeout_def cancel_timeout_def emit_def fresh_effects_def returned_sdp_def
      map_filter_simps dialing_peer_def local_own Let_def)

definition answer_events :: "turn \<Rightarrow> join_event list" where
  "answer_events t =
     [JSession t (Resume 1 []), JSession t (ChannelOpened True), JSession t (ChannelOpened False)]"

lemma answer_connects:
  assumes "d = \<lparr>hd_local = nid, hd_peer = dialing_peer env bits relay raw, hd_phase = ph\<rparr>"
  shows "case run_out (join_step env opts) (accept_join env answer d) (answer_events t) of (rs, d') \<Rightarrow>
    rs = [] \<and> hd_phase d' = Joined \<and> state (hp_session (hd_peer d')) = CONNECTED \<and>
    applied (log (hp_session (hd_peer d'))) = [answer] \<and>
    hp_conn (hd_peer d') = (new_connection 0 False)\<lparr>connected := Resolved\<rparr> \<and> has_on_close (hp_session (hd_peer d')) \<and>
    ready [] (hd_peer d')"
proof -
  show ?thesis
    unfolding ready_def session_inv_def
    by (simp add: assms dialing_peer_def accept_join_def answer_events_def resume_join_def peer_step_def accept_answer_def
      session_run_simps await_join_def await_connected_def new_connection_def fresh_effects_def
      channel_of_def handle_channel_open_def is_open_def set_open_def set_pending_def pending_of_def flush_calls_def
      run_pc_def handle_channels_open_def mark_connected_def RELIABLE_LABEL_def UNRELIABLE_LABEL_def lit_def split_beta
      peer_ok_def channels_ok_def new_queue_def)
qed

definition example_options :: "byte dial_options" where
  "example_options = \<lparr>o_server_url = lit ''u'', o_capability_check = False, o_wants_identity = False, o_signer = None\<rparr>"

definition example_start :: "(byte, nat) http_dial" where
  "example_start =
     \<lparr>hd_local = mk_p2p 1, hd_peer = peer_step example_platform (make_http_session 7 0 True False) OfferCall,
      hd_phase = Offering\<rparr>"

definition example_events :: "join_event list" where
  "example_events =
     [JSession example_turn (Resume 0 []), JReplies example_turn RequestError (Reply 200 (Body (Some (lit ''v=0''))))] @
     answer_events example_turn"

lemma example_started: "start_join example_platform (Some (mk_p2p 1)) 0 7 False = Inr example_start"
  by (simp add: start_join_def example_start_def)

lemma example_connects:
  "hd_phase (snd (run_out (join_step example_platform example_options) example_start example_events)) = Joined"
  "hp_conn (hd_peer (snd (run_out (join_step example_platform example_options) example_start example_events))) =
     (new_connection 0 False)\<lparr>connected := Resolved\<rparr>"
  "state (hp_session (hd_peer (snd (run_out (join_step example_platform example_options) example_start example_events)))) = CONNECTED"
  "has_on_close (hp_session (hd_peer (snd (run_out (join_step example_platform example_options) example_start example_events))))"
proof -
  let ?env = example_platform and ?opts = example_options
  let ?d = "\<lparr>hd_local = mk_p2p 1, hd_peer = dialing_peer ?env 7 False [], hd_phase = Requesting []\<rparr> :: (byte, nat) http_dial"
  have "own_sdp ?env False [] = []"
    by (simp add: own_sdp_def set_max_message_size_def splitlines.simps) (simp add: size_attr_def lit_def contains_def)
  then have offer: "join_step ?env ?opts example_start (JSession example_turn (Resume 0 [])) = ([], ?d)"
    using offer_made [of ?env example_turn ?opts False "[]" "[]" "mk_p2p 1" 7]
    by (simp add: sign_if_def example_options_def example_start_def)
  have "strip_identity (lit ''v=0'') = lit ''v=0''"
    by (simp add: strip_identity_def lit_def is_linebreak_def identity_line_def identity_prefix_text strip_def uni_space_def starts_with_def)
  then have "snd (join_step ?env ?opts ?d (JReplies example_turn RequestError (Reply 200 (Body (Some (lit ''v=0'')))))) =
      accept_join ?env (lit ''v=0'') ?d"
    by (simp add: request_answer_def post_offer_def read_answer_def parse_answer_def ok_status_def answered_def example_options_def
        lit_def strip_def uni_space_def starts_with_def Let_def utf8_encode_def)
  with offer answer_connects [where d = ?d and opts = ?opts and answer = "lit ''v=0''" and t = example_turn, OF refl]
  show "hd_phase (snd (run_out (join_step example_platform example_options) example_start example_events)) = Joined"
    "hp_conn (hd_peer (snd (run_out (join_step example_platform example_options) example_start example_events))) =
       (new_connection 0 False)\<lparr>connected := Resolved\<rparr>"
    "state (hp_session (hd_peer (snd (run_out (join_step example_platform example_options) example_start example_events)))) = CONNECTED"
    "has_on_close (hp_session (hd_peer (snd (run_out (join_step example_platform example_options) example_start example_events))))"
    by (simp_all add: example_events_def run_out_append split_beta Let_def)
qed

section \<open>Properties\<close>

text \<open>
  C7: \<open>connect_http\<close> gives aiortc at most one remote description, and only one that it may trust:
  with \<open>on_server_identity\<close> the stripped SDP of a 2xx reply whose identity \<open>verify_server_identity\<close>
  accepted and which the callback let pass, without it a reply without its identity lines. It returns only
  after that, with a session that has opened. In every run, with any timeouts, cancellations and packets.
\<close>

theorem join_sound:
  assumes "start_join env lid id_bits bits relay = Inr d"
    and "d' = snd (run_out (join_step env opts) d es)"
  shows "(\<forall>desc \<in> set (applied (log (hp_session (hd_peer d')))). approved env opts (set es) desc) \<and>
    length (applied (log (hp_session (hd_peer d')))) \<le> 1 \<and>
    (hd_phase d' = Joined \<longrightarrow>
       Ex (approved env opts (set es)) \<and> connected (hp_conn (hd_peer d')) = Resolved \<and>
       opens (log (hp_session (hd_peer d'))) = 1)"
proof -
  have "dial_inv env opts (set es) d'" unfolding assms(2)
    by (rule run_join_inv [OF start_join_inv [OF assms(1)]]) simp
  then show ?thesis by (auto simp: dial_inv_def dial_base_def Let_def)
qed

theorem join_sound_witness:
  "Ex (approved example_platform example_options (set example_events)) \<and>
   connected (hp_conn (hd_peer (snd (run_out (join_step example_platform example_options) example_start example_events)))) = Resolved"
  using join_sound [OF example_started refl, of example_options example_events] example_connects by simp

text \<open>
  C36: a \<open>connect_http\<close> that raises leaves nothing behind: its session is closed, its timer is off, its
  peer connection is being torn down, and stays so whatever still happens; no description is applied any more.
\<close>

theorem join_failure:
  assumes "start_join env lid id_bits bits relay = Inr d"
    and "d' = snd (run_out (join_step env opts) d es)" and "hd_phase d' = Failing x"
    and "d'' = snd (run_out (join_step env opts) d' fs)"
  shows "hd_phase d'' = Failing x \<and> state (hp_session (hd_peer d'')) = CLOSED \<and>
    timer (hp_session (hd_peer d'')) = None \<and> close_task (hp_session (hd_peer d'')) \<and>
    applied (log (hp_session (hd_peer d''))) = applied (log (hp_session (hd_peer d')))"
proof -
  have inv: "dial_inv env opts UNIV d'" unfolding assms(2)
    by (rule run_join_inv [OF start_join_inv [OF assms(1)]]) simp
  have stays: "hd_phase (snd (run_out (join_step env opts) e fs)) = Failing x \<and>
      applied (log (hp_session (hd_peer (snd (run_out (join_step env opts) e fs))))) = applied (log (hp_session (hd_peer e)))"
    if "dial_inv env opts UNIV e" "hd_phase e = Failing x" for e
    using that
  proof (induction fs arbitrary: e)
    case (Cons ev fs)
    then have "dial_inv env opts UNIV (snd (join_step env opts e ev))" by (simp add: join_step_inv)
    with Cons failing_step [OF Cons.prems, of ev] show ?case by (simp add: split_beta Let_def)
  qed simp
  have "dial_inv env opts UNIV d''" unfolding assms(4) by (rule run_join_inv [OF inv]) simp
  with stays [OF inv assms(3)] show ?thesis
    by (auto simp: assms(4) dial_inv_def dial_base_def session_inv_def Let_def)
qed

theorem join_failure_witness:
  "state (hp_session (hd_peer (snd (run_out (join_step example_platform example_options)
     (snd (run_out (join_step example_platform example_options) example_start [JCancel])) example_events)))) = CLOSED"
proof -
  let ?d = "snd (run_out (join_step example_platform example_options) example_start [JCancel])"
  have "hd_phase ?d = Failing CancelExn" by (simp add: example_start_def cancel_task_def fail_join_def)
  from join_failure [OF example_started refl this refl, of example_events] show ?thesis by simp
qed

text \<open>A message that is a whole packet reaches the connection, whatever the session's state.\<close>

lemma packet_enqueued:
  assumes "session_inv (hp_session p)" and "packet_handler (hp_session p)"
  shows "hp_conn (peer_step env p (ChannelMessage False (PBytes (b # data)))) = enqueue data (hp_conn p)"
proof -
  have "has_on_packet (pc (hp_session p))" "received (packets (pc (hp_session p))) = []"
    using assms(1) by (simp_all add: session_inv_def peer_ok_def channels_ok_def)
  then show ?thesis using assms(2)
    by (simp add: peer_conn handle_channel_message_def payload_bytes_def on_unreliable_message_def deliver_def read_def
        run_pc_def handle_packet_def fresh_effects_def emit_def split_beta)
qed

text \<open>
  The documented order of \<open>recv\<close> is not kept over HTTP signaling. When \<open>recv\<close> has raised
  \<open>ConnectionClosed\<close> on a drained queue, and aiortc still hands over a message before the peer connection
  is down, \<open>recv\<close> raises once more and then returns that message: the mark that is to keep
  \<open>recv\<close> raising has moved behind it.
\<close>

theorem late_packet_after_close:
  assumes "start_join env lid id_bits bits relay = Inr d"
    and "d' = snd (run_out (join_step env opts) d es)" and "hd_phase d' = Joined"
    and "state (hp_session (hd_peer d')) = CLOSED" and "recv_queue (hp_conn (hd_peer d')) = [ClosedMark]"
    and "c = hp_conn (hd_peer (snd (join_step env opts d' (JSession t (ChannelMessage False (PBytes (b # data)))))))"
  shows "fst (recv (hp_conn (hd_peer d'))) = raise_closed (hp_conn (hd_peer d')) \<and>
    fst (recv c) = raise_closed c \<and> fst (recv (snd (recv c))) = Returned data"
proof -
  have "dial_inv env opts UNIV d'" unfolding assms(2)
    by (rule run_join_inv [OF start_join_inv [OF assms(1)]]) simp
  then have "session_inv (hp_session (hd_peer d'))" "packet_handler (hp_session (hd_peer d'))"
    by (simp_all add: dial_inv_def dial_base_def Let_def)
  then have "c = enqueue data (hp_conn (hd_peer d'))"
    using packet_enqueued assms(3,6) by (simp add: resume_join_def)
  moreover have "closed_reason (x\<lparr>recv_queue := q\<rparr>) = closed_reason x" for x :: connection and q
    by (simp add: closed_reason_def)
  then have "raise_closed (x\<lparr>recv_queue := q\<rparr>) = raise_closed x" for x :: connection and q
    by (simp add: raise_closed_def cong: sum.case_cong)
  ultimately show ?thesis using assms(5) by (simp add: recv_def enqueue_def Let_def)
qed

theorem late_packet_after_close_witness:
  "\<exists>c. fst (recv c) = raise_closed c \<and> fst (recv (snd (recv c))) = Returned [7]"
proof -
  let ?fail = "JSession example_turn (ConnectionState (lit ''failed''))"
  let ?run = "\<lambda>es. snd (run_out (join_step example_platform example_options) example_start es)"
  define x where "x = ?run example_events"
  have "?run (example_events @ [?fail]) = snd (join_step example_platform example_options x ?fail)"
    by (simp add: x_def run_out_append split_beta Let_def)
  then have d: "hd_phase (?run (example_events @ [?fail])) = Joined"
      "state (hp_session (hd_peer (?run (example_events @ [?fail])))) = CLOSED"
      "recv_queue (hp_conn (hd_peer (?run (example_events @ [?fail])))) = [ClosedMark]"
    using example_connects
    by (simp_all add: x_def [symmetric] resume_join_def peer_conn handle_connection_state_def close_def cancel_timeout_def
        emit_def fresh_effects_def mark_closed_def finish_close_def new_connection_def Let_def)
  from late_packet_after_close [OF example_started refl d refl, of example_turn 1 "[7]"] show ?thesis by blast
qed

end
