(* ===== verification/HttpServe.thy ===== *)
theory HttpServe
  imports HttpPeer
begin

text \<open>
  The class \<open>HttpServer\<close> of \<open>api.py\<close>: the coroutines of \<open>_answer_offer\<close>, the registry of connections, the
  handler tasks and the shutdown. All connections ever made are in \<open>hs_peers\<close>; the registry
  \<open>_conns\<close> and the tasks refer to them by index.
\<close>

section \<open>State\<close>

record incoming_offer =
  network_id_text :: pystr
  offer_network_id :: network_id
  offer_sdp :: pystr
  offer_identity :: "identity_envelope option"

text \<open>What \<open>_answer_offer\<close> raises, as \<open>_handle_join\<close> tells it apart.\<close>

datatype offer_exn =
    SignalingRejected int pystr
  | NetherNetExn                           \<comment> \<open>any other \<open>NetherNetError\<close>, such as \<open>InvalidIdentity\<close>\<close>
  | UnexpectedExn

datatype offer_phase =
    Validating incoming_offer              \<comment> \<open>in \<open>validate_offer\<close>\<close>
  | Answering nat                          \<comment> \<open>in \<open>session.answer\<close> of this connection\<close>
  | Settled "offer_exn + pystr"

text \<open>A handler's task: in the handler, there and cancelled, or in the \<open>close\<close> of its \<open>finally\<close>.\<close>

datatype handler_phase = Handling | Cancelling | Finishing

text \<open>Where \<open>aclose\<close> is; \<open>_closed\<close> is set in all but the first.\<close>

datatype server_stage = Serving | StoppingSignaling | ClosingSessions "nat list" | Stopped

record 'c http_server =
  hs_peers :: "'c http_peer list"
  hs_conns :: "(int \<times> nat) list"
  hs_offers :: "offer_phase list"
  hs_handlers :: "(nat \<times> handler_phase) list"
  hs_signaling :: signaling_server
  hs_stage :: server_stage

record 'k server_options =
  so_local :: network_id
  so_validates :: bool                     \<comment> \<open>\<open>validate_offer is not None\<close>\<close>
  so_signer :: "'k identity_signer option"
  so_relay :: bool

definition new_http_server :: "'c http_server" where
  "new_http_server =
     \<lparr>hs_peers = [], hs_conns = [], hs_offers = [], hs_handlers = [], hs_signaling = new_signaling_server,
      hs_stage = Serving\<rparr>"

text \<open>\<open>serve_http\<close>: the identity is given or drawn at random.\<close>

definition serve_http :: "network_id option \<Rightarrow> 64 word \<Rightarrow> bool \<Rightarrow> 'k identity_signer option \<Rightarrow> bool \<Rightarrow>
    ('k server_options \<times> 'c http_server) result" where
  "serve_http lid id_bits validates signer relay =
     rbind (case lid of Some nid \<Rightarrow> Inr nid | None \<Rightarrow> p2p (new_connection_id id_bits)) (\<lambda>local.
       Inr (\<lparr>so_local = local, so_validates = validates, so_signer = signer, so_relay = relay\<rparr>, new_http_server))"

section \<open>The callbacks of a session\<close>

text \<open>
  A step of connection \<open>k\<close>, with \<open>_handle_open\<close>, which starts the handler's task, and \<open>_handle_close\<close>,
  which drops the registry's entry under the connection's id. The output: the handlers started.
\<close>

definition serve_peer ::
    "('k, 'p, 'c) platform \<Rightarrow> nat \<Rightarrow> session_event \<Rightarrow> 'c http_server \<Rightarrow> nat list \<times> 'c http_server" where
  "serve_peer env k ev s =
     (if k < length (hs_peers s)
      then let p = hs_peers s ! k; p1 = peer_step env p ev; es = fresh_effects (hp_session p) (hp_session p1) in
        (replicate (opens es) k,
         s\<lparr>hs_peers := (hs_peers s)[k := p1],
           hs_conns := (if closes es = [] then hs_conns s else AList.delete (cid (hp_session p)) (hs_conns s)),
           hs_handlers := hs_handlers s @ replicate (opens es) (k, Handling)\<rparr>)
      else ([], s))"

section \<open>_answer_offer\<close>

definition settle :: "nat \<Rightarrow> offer_exn + pystr \<Rightarrow> 'c http_server \<Rightarrow> 'c http_server" where
  "settle i r s = s\<lparr>hs_offers := (hs_offers s)[i := Settled r]\<rparr>"

definition offer_raise :: "identity_exn \<Rightarrow> offer_exn" where
  "offer_raise x = (if x = InvalidIdentity then NetherNetExn else UnexpectedExn)"

text \<open>From the new session to the wait for its answer, in the coroutine \<open>i\<close>.\<close>

definition begin_answer ::
    "('k, 'p, 'c) platform \<Rightarrow> 'k server_options \<Rightarrow> nat \<Rightarrow> 64 word \<Rightarrow> incoming_offer \<Rightarrow> 'c http_server \<Rightarrow> 'c http_server" where
  "begin_answer env opts i bits offer s =
     (let k = length (hs_peers s); p = make_http_session bits k False (so_relay opts) in
      s\<lparr>hs_conns := AList.update (new_connection_id bits) k (hs_conns s),
        hs_peers := hs_peers s @ [peer_step env p (AnswerCall (offer_sdp offer))],
        hs_offers := (hs_offers s)[i := Answering k]\<rparr>)"

definition answer_offer ::
    "('k, 'p, 'c) platform \<Rightarrow> 'k server_options \<Rightarrow> 64 word \<Rightarrow> pystr \<Rightarrow> pystr \<Rightarrow> 'c http_server \<Rightarrow> 'c http_server" where
  "answer_offer env opts bits nid_text body s =
     (let i = length (hs_offers s) in
      case extract_identity (py_repr env) (max_depth env) body of
        Inl x \<Rightarrow> s\<lparr>hs_offers := hs_offers s @ [Settled (Inl (offer_raise x))]\<rparr>
      | Inr (stripped, envelope) \<Rightarrow>
          (case parse_network_id (u_dec env) nid_text of
             Inl x \<Rightarrow> s\<lparr>hs_offers := hs_offers s @ [Settled (Inl UnexpectedExn)]\<rparr>
           | Inr nid \<Rightarrow>
               (let offer = \<lparr>network_id_text = nid_text, offer_network_id = nid, offer_sdp = stripped,
                             offer_identity = envelope\<rparr>;
                    s1 = s\<lparr>hs_offers := hs_offers s @ [Validating offer]\<rparr>
                in if so_validates opts then s1 else begin_answer env opts i bits offer s1)))"

text \<open>\<open>validate_offer\<close> returns, or raises.\<close>

definition validated ::
    "('k, 'p, 'c) platform \<Rightarrow> 'k server_options \<Rightarrow> nat \<Rightarrow> 64 word \<Rightarrow> offer_exn option \<Rightarrow> 'c http_server \<Rightarrow> 'c http_server" where
  "validated env opts i bits r s =
     (if i < length (hs_offers s)
      then (case hs_offers s ! i of
              Validating offer \<Rightarrow>
                (case r of Some x \<Rightarrow> settle i (Inl x) s | None \<Rightarrow> begin_answer env opts i bits offer s)
            | _ \<Rightarrow> s)
      else s)"

text \<open>\<open>session.answer\<close> of the coroutine \<open>i\<close> has returned a description, or raised.\<close>

definition answer_ends ::
    "('k, 'p, 'c) platform \<Rightarrow> 'k server_options \<Rightarrow> turn \<Rightarrow> nat \<Rightarrow> nat \<Rightarrow> pystr option \<Rightarrow> 'c http_server \<Rightarrow>
     nat list \<times> 'c http_server" where
  "answer_ends env opts t i k r s =
     (case r of
        Some answer \<Rightarrow>
          ([], settle i (case sign_if env t (so_signer opts) answer of Inl x \<Rightarrow> Inl (offer_raise x) | Inr a \<Rightarrow> Inr a) s)
      | None \<Rightarrow>
          (let s1 = s\<lparr>hs_conns := AList.delete (cid (hp_session (hs_peers s ! k))) (hs_conns s)\<rparr>;
               (out, s2) = serve_peer env k (AcloseCall (Known E_FAILED_TO_CREATE_ANSWER)) s1
           in (out, settle i (Inl UnexpectedExn) s2)))"

definition answering :: "nat \<Rightarrow> 'c http_server \<Rightarrow> nat option" where
  "answering k s = List.find (\<lambda>i. hs_offers s ! i = Answering k) [0..<length (hs_offers s)]"

text \<open>An event of connection \<open>k\<close>; if it ends \<open>session.answer\<close>, its task 0, the coroutine goes on in the same turn.\<close>

definition serve_session ::
    "('k, 'p, 'c) platform \<Rightarrow> 'k server_options \<Rightarrow> turn \<Rightarrow> nat \<Rightarrow> session_event \<Rightarrow> 'c http_server \<Rightarrow>
     nat list \<times> 'c http_server" where
  "serve_session env opts t k ev s =
     (if k < length (hs_peers s) \<and> outside_event ev
      then let (out, s1) = serve_peer env k ev s; now = hp_session (hs_peers s1 ! k) in
        (case answering k s1 of
           Some i \<Rightarrow>
             if task_at 0 now \<noteq> None then (out, s1)
             else let (out', s2) = answer_ends env opts t i k
                        (returned_sdp (fresh_effects (hp_session (hs_peers s ! k)) now)) s1
                  in (out @ out', s2)
         | None \<Rightarrow> (out, s1))
      else ([], s))"

section \<open>Handlers and shutdown\<close>

text \<open>\<open>_run_handler\<close>: however the handler ends, the task closes the connection and then ends.\<close>

definition http_handler_ends ::
    "('k, 'p, 'c) platform \<Rightarrow> nat \<Rightarrow> 'c http_server \<Rightarrow> nat list \<times> 'c http_server" where
  "http_handler_ends env k s =
     (if (k, Handling) \<in> set (hs_handlers s) \<or> (k, Cancelling) \<in> set (hs_handlers s)
      then serve_peer env k (AcloseCall (Known E_NONE))
             (s\<lparr>hs_handlers := map (\<lambda>x. if fst x = k then (k, Finishing) else x) (hs_handlers s)\<rparr>)
      else ([], s))"

definition http_handler_closed :: "nat \<Rightarrow> 'c http_server \<Rightarrow> 'c http_server" where
  "http_handler_closed k s = s\<lparr>hs_handlers := filter (\<lambda>x. x \<noteq> (k, Finishing)) (hs_handlers s)\<rparr>"

text \<open>
  \<open>aclose\<close>: mark as closed and stop the signaling; then close the sessions one after the other, each
  after the teardown of the one before; then clear the registry and cancel the handlers' tasks, which run
  their \<open>finally\<close> in later \<open>http_handler_ends\<close>.
\<close>

definition http_aclose :: "'c http_server \<Rightarrow> 'c http_server" where
  "http_aclose s = (if hs_stage s = Serving then s\<lparr>hs_stage := StoppingSignaling\<rparr> else s)"

definition signaling_stopped :: "'c http_server \<Rightarrow> 'c http_server" where
  "signaling_stopped s =
     (if hs_stage s = StoppingSignaling
      then s\<lparr>hs_signaling := signaling_aclose (hs_signaling s), hs_stage := ClosingSessions (map snd (hs_conns s))\<rparr>
      else s)"

definition close_next :: "('k, 'p, 'c) platform \<Rightarrow> 'c http_server \<Rightarrow> nat list \<times> 'c http_server" where
  "close_next env s =
     (case hs_stage s of
        ClosingSessions (k # ks) \<Rightarrow> serve_peer env k (AcloseCall (Known E_NONE)) (s\<lparr>hs_stage := ClosingSessions ks\<rparr>)
      | ClosingSessions [] \<Rightarrow>
          ([], s\<lparr>hs_conns := [], hs_stage := Stopped,
                 hs_handlers := map (\<lambda>(k, ph). (k, if ph = Handling then Cancelling else ph)) (hs_handlers s)\<rparr>)
      | _ \<Rightarrow> ([], s))"

definition http_connections :: "'c http_server \<Rightarrow> 'c http_peer list" where
  "http_connections s = map (\<lambda>x. hs_peers s ! snd x) (hs_conns s)"

section \<open>Events\<close>

datatype http_event =
    HsStart "int list"
  | HsOffer pystr pystr "64 word"          \<comment> \<open>a POST: the path segment and the body\<close>
  | HsValidated nat "64 word" "offer_exn option"
  | HsSession turn nat session_event
  | HsHandlerEnds nat
  | HsHandlerClosed nat
  | HsAclose | HsSignalingStopped | HsCloseNext

fun http_step ::
    "('k, 'p, 'c) platform \<Rightarrow> 'k server_options \<Rightarrow> 'c http_server \<Rightarrow> http_event \<Rightarrow> nat list \<times> 'c http_server" where
  "http_step env opts s (HsStart ports) = ([], s\<lparr>hs_signaling := signaling_start ports (hs_signaling s)\<rparr>)"
| "http_step env opts s (HsOffer nid_text body bits) = ([], answer_offer env opts bits nid_text body s)"
| "http_step env opts s (HsValidated i bits r) = ([], validated env opts i bits r s)"
| "http_step env opts s (HsSession t k ev) = serve_session env opts t k ev s"
| "http_step env opts s (HsHandlerEnds k) = http_handler_ends env k s"
| "http_step env opts s (HsHandlerClosed k) = ([], http_handler_closed k s)"
| "http_step env opts s HsAclose = ([], http_aclose s)"
| "http_step env opts s HsSignalingStopped = ([], signaling_stopped s)"
| "http_step env opts s HsCloseNext = close_next env s"

text \<open>The reply to a POST, once its coroutine has ended. The text of another \<open>NetherNetError\<close> is \<open>why\<close>.\<close>

definition offer_response :: "pystr \<Rightarrow> offer_exn + pystr \<Rightarrow> http_response option" where
  "offer_response why r =
     handle_join
       (case r of
          Inr answer \<Rightarrow> Answered answer
        | Inl (SignalingRejected status reason) \<Rightarrow> Rejected status reason
        | Inl NetherNetExn \<Rightarrow> OtherNetherNetError why
        | Inl UnexpectedExn \<Rightarrow> EscapingException)"

section \<open>The registry\<close>

abbreviation session_of :: "'c http_server \<Rightarrow> nat \<Rightarrow> 'c session" where
  "session_of s k \<equiv> hp_session (hs_peers s ! k)"

definition peers_ok :: "'c http_server \<Rightarrow> bool" where
  "peers_ok s \<longleftrightarrow>
     (\<forall>k < length (hs_peers s). session_inv (session_of s k) \<and> \<not> is_dialer (session_of s k) \<and> has_on_close (session_of s k))"

definition registry_ok :: "'c http_server \<Rightarrow> bool" where
  "registry_ok s \<longleftrightarrow> distinct (map fst (hs_conns s)) \<and>
     (\<forall>(c, k) \<in> set (hs_conns s). k < length (hs_peers s) \<and> cid (session_of s k) = c \<and> state (session_of s k) \<noteq> CLOSED)"

definition server_inv :: "'c http_server \<Rightarrow> bool" where
  "server_inv s \<longleftrightarrow> peers_ok s \<and> registry_ok s"

lemma server_inv_simps [simp]:
  "server_inv (s\<lparr>hs_offers := os\<rparr>) = server_inv s" "server_inv (s\<lparr>hs_handlers := hs\<rparr>) = server_inv s"
  "server_inv (s\<lparr>hs_stage := st\<rparr>) = server_inv s" "server_inv (s\<lparr>hs_signaling := sg\<rparr>) = server_inv s"
  "server_inv (settle i r s) = server_inv s"
  by (simp_all add: server_inv_def peers_ok_def registry_ok_def settle_def)

lemma peer_kept:
  assumes "session_inv (hp_session p) \<and> \<not> is_dialer (hp_session p) \<and> has_on_close (hp_session p)"
  shows "session_inv (hp_session (peer_step env p ev)) \<and> \<not> is_dialer (hp_session (peer_step env p ev)) \<and>
    has_on_close (hp_session (peer_step env p ev))"
  using assms step_same [of "hp_session p" "u_dec env" "candidate_sdp env" ev]
  by (simp add: session_inv_step same_session_def)

lemma unclosed_step:
  assumes "has_on_close (hp_session p)" and "state (hp_session p) \<noteq> CLOSED"
    and "closes (fresh_effects (hp_session p) (hp_session (peer_step env p ev))) = []"
  shows "state (hp_session (peer_step env p ev)) \<noteq> CLOSED"
  using step_close_told [OF assms(1,2)] assms(3) by (auto simp: fresh_effects_def)

lemma delete_entries: "(c, k) \<in> set (AList.delete d m) \<longleftrightarrow> c \<noteq> d \<and> (c, k) \<in> set m"
  by (auto simp: AList.delete_eq)

lemma serve_peer_inv:
  assumes "server_inv s"
  shows "server_inv (snd (serve_peer env k ev s))"
proof (cases "k < length (hs_peers s)")
  case True
  let ?p = "hs_peers s ! k" and ?q = "peer_step env (hs_peers s ! k) ev"
  let ?es = "fresh_effects (hp_session ?p) (hp_session ?q)" and ?t = "snd (serve_peer env k ev s)"
  have peers: "hs_peers ?t = (hs_peers s)[k := ?q]" using True by (simp add: serve_peer_def Let_def)
  have conns: "hs_conns ?t = (if closes ?es = [] then hs_conns s else AList.delete (cid (hp_session ?p)) (hs_conns s))"
    using True by (simp add: serve_peer_def Let_def)
  have ok: "session_inv (hp_session ?p) \<and> \<not> is_dialer (hp_session ?p) \<and> has_on_close (hp_session ?p)"
    using assms True by (simp add: server_inv_def peers_ok_def)
  have "peers_ok ?t"
    using assms True peer_kept [OF ok, of env ev] by (auto simp: server_inv_def peers_ok_def peers nth_list_update simp del: peer_session split: if_splits)
  moreover have "j < length (hs_peers ?t) \<and> cid (session_of ?t j) = c \<and> state (session_of ?t j) \<noteq> CLOSED"
    if mem: "(c, j) \<in> set (hs_conns ?t)" for c j
  proof -
    have "(c, j) \<in> set (hs_conns s)" using mem by (auto simp: conns delete_entries split: if_splits)
    then have old: "j < length (hs_peers s)" "cid (session_of s j) = c" "state (session_of s j) \<noteq> CLOSED"
      using assms by (auto simp: server_inv_def registry_ok_def)
    show ?thesis
    proof (cases "j = k")
      case True
      then have "closes ?es = []" using mem old(2) by (auto simp: conns delete_entries split: if_splits)
      then have "state (hp_session ?q) \<noteq> CLOSED" using unclosed_step ok old(3) True by blast
      moreover have "cid (hp_session ?q) = c"
        using step_same [of "hp_session ?p" "u_dec env" "candidate_sdp env" ev] old(2) True by (simp add: same_session_def)
      ultimately show ?thesis using True old(1) by (simp add: peers del: peer_session)
    qed (use old in \<open>simp add: peers\<close>)
  qed
  then have "registry_ok ?t" using assms
    by (auto simp: registry_ok_def server_inv_def) (simp add: conns AList.distinct_delete)
  ultimately show ?thesis by (simp add: server_inv_def)
qed (use assms in \<open>simp add: serve_peer_def\<close>)

lemma entry_dropped_inv: "server_inv s \<Longrightarrow> server_inv (s\<lparr>hs_conns := AList.delete c (hs_conns s)\<rparr>)"
  by (auto simp: server_inv_def peers_ok_def registry_ok_def AList.distinct_delete delete_entries)

lemma begin_answer_inv:
  fixes env :: "('k, 'p, 'c) platform"
  assumes "server_inv s"
  shows "server_inv (begin_answer env opts i bits offer s)"
proof -
  let ?k = "length (hs_peers s)" and ?c = "new_connection_id bits"
  let ?p = "make_http_session bits ?k False (so_relay opts) :: 'c http_peer" and ?t = "begin_answer env opts i bits offer s"
  let ?q = "peer_step env ?p (AnswerCall (offer_sdp offer))"
  have q: "session_inv (hp_session ?q) \<and> \<not> is_dialer (hp_session ?q) \<and> has_on_close (hp_session ?q)"
    by (rule peer_kept) (simp add: make_http_session_def new_session_inv, simp add: new_session_def)
  have new: "cid (hp_session ?q) = ?c" "state (hp_session ?q) \<noteq> CLOSED"
    by (simp_all add: make_http_session_def new_session_def create_answer_def new_task_def emit_def)
  have peers: "hs_peers ?t = hs_peers s @ [?q]" and conns: "hs_conns ?t = AList.update ?c ?k (hs_conns s)"
    by (simp_all add: begin_answer_def Let_def)
  have "peers_ok ?t" using assms q
    by (auto simp: server_inv_def peers_ok_def peers nth_append less_Suc_eq simp del: peer_session)
  moreover have "registry_ok ?t"
    using assms new set_update_subset [of ?c ?k "hs_conns s"]
    by (fastforce simp: server_inv_def registry_ok_def peers conns nth_append distinct_update simp del: peer_session)
  ultimately show ?thesis by (simp add: server_inv_def)
qed

lemma answer_ends_inv: "server_inv s \<Longrightarrow> server_inv (snd (answer_ends env opts t i k r s))"
  by (auto simp: answer_ends_def split_beta Let_def serve_peer_inv entry_dropped_inv split: option.split)

lemma http_step_inv:
  assumes "server_inv s"
  shows "server_inv (snd (http_step env opts s ev))"
proof (cases ev)
  case (HsOffer nid_text body bits)
  then show ?thesis using assms
    by (auto simp: answer_offer_def Let_def intro!: begin_answer_inv split: sum.split prod.split)
next
  case (HsValidated i bits r)
  then show ?thesis using assms
    by (auto simp: validated_def begin_answer_inv split: offer_phase.split option.split)
next
  case (HsSession t k e)
  then show ?thesis using assms
    by (auto simp: serve_session_def split_beta Let_def serve_peer_inv answer_ends_inv split: option.split)
next
  case (HsHandlerEnds k)
  then show ?thesis using assms by (simp add: http_handler_ends_def serve_peer_inv)
next
  case HsCloseNext
  have "server_inv (s\<lparr>hs_conns := [], hs_stage := Stopped, hs_handlers := hs\<rparr>)" for hs
    using assms by (simp add: server_inv_def peers_ok_def registry_ok_def)
  then show ?thesis using HsCloseNext assms
    by (auto simp: close_next_def serve_peer_inv split: server_stage.split list.split)
qed (use assms in \<open>simp_all add: http_handler_closed_def http_aclose_def signaling_stopped_def\<close>)

interpretation http_server_machine: state_machine
  "\<lambda>s ev. snd (http_step env opts s ev)" "\<lambda>s. s = new_http_server" server_inv
  for env opts
  by unfold_locales (simp_all add: http_step_inv, simp add: new_http_server_def server_inv_def peers_ok_def registry_ok_def)

section \<open>Every opening starts one handler\<close>

definition opened :: "'c http_server \<Rightarrow> nat \<Rightarrow> nat" where
  "opened s k = (if k < length (hs_peers s) then opens (log (session_of s k)) else 0)"

definition starts_handlers :: "'c http_server \<Rightarrow> nat list \<times> 'c http_server \<Rightarrow> bool" where
  "starts_handlers s r \<longleftrightarrow> (\<forall>k. opened (snd r) k = opened s k + count_list (fst r) k)"

interpretation starting: behaviour starts_handlers
  by unfold_locales (simp_all add: starts_handlers_def)

lemma opened_simps [simp]:
  "opened (s\<lparr>hs_offers := os\<rparr>) = opened s" "opened (s\<lparr>hs_handlers := hs\<rparr>) = opened s"
  "opened (s\<lparr>hs_stage := st\<rparr>) = opened s" "opened (s\<lparr>hs_signaling := sg\<rparr>) = opened s"
  "opened (s\<lparr>hs_conns := cs\<rparr>) = opened s" "opened (settle i r s) = opened s"
  by (simp_all add: opened_def settle_def fun_eq_iff)

lemma count_replicate [simp]: "count_list (replicate n x) y = (if x = y then n else 0)"
  by (induction n) auto

lemma serve_peer_starts: "starts_handlers s (serve_peer env k ev s)"
proof (cases "k < length (hs_peers s)")
  case True
  let ?p = "hs_peers s ! k" and ?q = "peer_step env (hs_peers s ! k) ev"
  have "log (hp_session ?q) = log (hp_session ?p) @ fresh_effects (hp_session ?p) (hp_session ?q)"
    by (simp only: peer_session fresh_log [OF step_grows])
  then have "opens (log (hp_session ?q)) = opens (log (hp_session ?p)) + opens (fresh_effects (hp_session ?p) (hp_session ?q))"
    by simp
  then show ?thesis using True
    by (simp add: starts_handlers_def serve_peer_def opened_def nth_list_update Let_def del: peer_session)
qed (simp add: starts_handlers_def serve_peer_def)

lemma begin_answer_starts: "starts_handlers s ([], begin_answer env opts i bits offer s)"
  by (simp add: starts_handlers_def opened_def begin_answer_def nth_append make_http_session_def new_session_def
      create_answer_def new_task_def emit_def Let_def)

lemma answer_ends_starts: "starts_handlers s (answer_ends env opts t i k r s)"
proof (cases r)
  case None
  then show ?thesis
    using serve_peer_starts [of "s\<lparr>hs_conns := AList.delete (cid (session_of s k)) (hs_conns s)\<rparr>" env k]
    by (simp add: answer_ends_def starts_handlers_def split_beta Let_def)
qed (simp add: answer_ends_def starts_handlers_def)

lemma http_step_starts: "starts_handlers s (http_step env opts s ev)"
proof (cases ev)
  case (HsOffer nid_text body bits)
  have "starts_handlers s ([], begin_answer env opts i bits offer (s\<lparr>hs_offers := os\<rparr>))" for i offer os
    using begin_answer_starts [of "s\<lparr>hs_offers := os\<rparr>"] by (simp add: starts_handlers_def)
  then show ?thesis using HsOffer
    by (auto simp: answer_offer_def Let_def split: sum.split prod.split) (simp_all add: starts_handlers_def)
next
  case (HsValidated i bits r)
  then show ?thesis using begin_answer_starts [of s]
    by (auto simp: validated_def split: offer_phase.split option.split) (simp_all add: starts_handlers_def)
next
  case (HsSession t k e)
  have "starts_handlers s (fst (serve_peer env k e s) @ fst (answer_ends env opts t i k r (snd (serve_peer env k e s))),
      snd (answer_ends env opts t i k r (snd (serve_peer env k e s))))" for i r
    using serve_peer_starts [of s env k e] answer_ends_starts [of "snd (serve_peer env k e s)" env opts t i k r]
    by (simp add: starts_handlers_def)
  then show ?thesis using HsSession serve_peer_starts [of s env k e]
    by (auto simp: serve_session_def split_beta Let_def split: option.split) (simp_all add: starts_handlers_def)
next
  case (HsHandlerEnds k)
  then show ?thesis
    using serve_peer_starts [of "s\<lparr>hs_handlers := map (\<lambda>x. if fst x = k then (k, Finishing) else x) (hs_handlers s)\<rparr>"]
    by (auto simp: http_handler_ends_def starts_handlers_def)
next
  case HsCloseNext
  have "starts_handlers s (serve_peer env k (AcloseCall (Known E_NONE)) (s\<lparr>hs_stage := st\<rparr>))" for k st
    using serve_peer_starts [of "s\<lparr>hs_stage := st\<rparr>"] by (simp add: starts_handlers_def)
  then show ?thesis using HsCloseNext
    by (auto simp: close_next_def split: server_stage.split list.split) (simp_all add: starts_handlers_def)
qed (simp_all add: starts_handlers_def http_handler_closed_def http_aclose_def signaling_stopped_def)

lemma count_distinct: "(\<And>x. count_list xs x \<le> 1) \<Longrightarrow> distinct xs"
proof (induction xs)
  case (Cons y xs)
  have "count_list xs x \<le> 1" for x using Cons.prems [of x] by (simp split: if_splits)
  moreover have "count_list xs y = 0" using Cons.prems [of y] by simp
  ultimately show ?case using Cons.IH by (simp add: count_list_0_iff)
qed simp

section \<open>Properties\<close>

text \<open>
  C34: the registry of an HTTP host, in every run: each connection in it stands under its own
  connection id, once, and its session is not closed: whatever closes a session, a timeout, aiortc, a failed
  answer, a handler's end or the shutdown, has dropped it from \<open>connections\<close>.
\<close>

theorem http_registry:
  "case run_out (http_step env opts) new_http_server es of (out, s) \<Rightarrow>
     distinct (map fst (hs_conns s)) \<and>
     list_all (\<lambda>(c, k). k < length (hs_peers s) \<and> cid (session_of s k) = c \<and> state (session_of s k) \<noteq> CLOSED) (hs_conns s) \<and>
     list_all (\<lambda>p. state (hp_session p) \<noteq> CLOSED) (http_connections s)"
proof -
  have "server_inv (snd (run_out (http_step env opts) new_http_server es))"
    using http_server_machine.inv_reachable [of new_http_server env opts es] by (simp add: run_out_state)
  then show ?thesis by (auto simp: server_inv_def registry_ok_def http_connections_def list_all_iff split: prod.split)
qed

text \<open>
  C35: an HTTP host starts the handler of a connection at most once, and only when both channels of its
  session have opened: \<open>out\<close> are the handlers started in the run.
\<close>

theorem http_handlers:
  "case run_out (http_step env opts) new_http_server es of (out, s) \<Rightarrow>
     distinct out \<and>
     list_all (\<lambda>k. k < length (hs_peers s) \<and> reliable_open (pc (session_of s k)) \<and> unreliable_open (pc (session_of s k))) out"
proof -
  obtain out s where run: "run_out (http_step env opts) new_http_server es = (out, s)" by fastforce
  have "server_inv s"
    using http_server_machine.inv_reachable [of new_http_server env opts es] run by (simp add: run_out_state [symmetric])
  then have inv: "session_inv (session_of s k)" if "k < length (hs_peers s)" for k
    using that by (simp add: server_inv_def peers_ok_def)
  have "starts_handlers new_http_server (run_out (http_step env opts) new_http_server es)"
    by (rule starting.run) (rule http_step_starts)
  then have count: "count_list out k = opened s k" for k
    using run by (simp add: starts_handlers_def) (simp add: opened_def new_http_server_def)
  have "count_list out k \<le> 1" for k using opens_once [OF inv, of k] by (simp add: count opened_def)
  then have "distinct out" by (rule count_distinct)
  moreover have "k < length (hs_peers s) \<and> reliable_open (pc (session_of s k)) \<and> unreliable_open (pc (session_of s k))"
    if "k \<in> set out" for k
  proof -
    have "0 < opened s k" using that count by (metis count_list_0_iff gr0I)
    then have "k < length (hs_peers s)" "0 < opens (log (session_of s k))" by (simp_all add: opened_def split: if_splits)
    with opened_channels [OF inv] show ?thesis by blast
  qed
  ultimately show ?thesis by (simp add: run list_all_iff)
qed

text \<open>
  An answer that cannot be made leaves no connection: if aiortc raises in \<open>session.answer\<close>, or the
  request is cancelled there, the coroutine raises, the session is closed and its owner told
  \<open>FAILED_TO_CREATE_ANSWER\<close> unless it was closed before, the connection is out of the registry, and no handler starts.
\<close>

theorem answer_failure:
  assumes "run_out (http_step env opts) new_http_server es = (out, s)"
    and "k < length (hs_peers s)" and "answering k s = Some i"
  shows "case http_step env opts s (HsSession t k (ResumeRaise 0)) of (out', s') \<Rightarrow>
    out' = [] \<and> hs_offers s' ! i = Settled (Inl UnexpectedExn) \<and> offer_response why (Inl UnexpectedExn) = None \<and>
    k \<notin> snd ` set (hs_conns s') \<and> state (session_of s' k) = CLOSED \<and>
    closes (log (session_of s' k)) = closes (log (session_of s k)) @
      (if state (session_of s k) = CLOSED then [] else [Known E_FAILED_TO_CREATE_ANSWER])"
proof -
  obtain out' s' where step: "http_step env opts s (HsSession t k (ResumeRaise 0)) = (out', s')" by fastforce
  have inv: "server_inv s"
    using http_server_machine.inv_reachable [of new_http_server env opts es] assms(1) by (simp add: run_out_state [symmetric])
  then have told: "has_on_close (session_of s k)" using assms(2) by (simp add: server_inv_def peers_ok_def)
  have i: "i < length (hs_offers s)" using assms(3) by (auto simp: answering_def find_Some_iff)
  let ?t = "(session_of s k)\<lparr>tasks := (tasks (session_of s k))[0 := None]\<rparr>"
  have raised: "serve_peer env k (ResumeRaise 0) s =
      ([], s\<lparr>hs_peers := (hs_peers s)[k := \<lparr>hp_session = ?t, hp_conn = hp_conn (hs_peers s ! k)\<rparr>]\<rparr>)"
    using assms(2) by (simp add: serve_peer_def peer_step_def fresh_effects_def Let_def)
  have wait: "answering k (snd (serve_peer env k (ResumeRaise 0) s)) = Some i"
    using assms(3) by (simp add: raised answering_def)
  have ended: "task_at 0 ?t = None" by (simp add: task_at_def)
  let ?c = "AcloseCall (Known E_FAILED_TO_CREATE_ANSWER)"
  have closed: "session_step (u_dec env) (candidate_sdp env) ?t ?c = aclose (Known E_FAILED_TO_CREATE_ANSWER) ?t" by simp
  have opens: "opens (fresh_effects ?t (aclose err ?t)) = 0" for err
    by (simp add: fresh_effects_def aclose_def close_def cancel_timeout_def emit_def Let_def)
  have s': "out' = []" "hs_offers s' = (hs_offers s)[i := Settled (Inl UnexpectedExn)]" "k < length (hs_peers s')"
      "session_of s' k = aclose (Known E_FAILED_TO_CREATE_ANSWER) ?t"
    using step assms(2) wait ended
    by (auto simp: serve_session_def raised answer_ends_def returned_sdp_def fresh_effects_def map_filter_simps serve_peer_def
        peer_step_def settle_def opens [unfolded fresh_effects_def, simplified] Let_def)
  have state: "state (session_of s' k) = CLOSED" by (simp add: s'(4) aclose_def close_def cancel_timeout_def Let_def)
  have "server_inv s'" using http_step_inv [OF inv, of env opts "HsSession t k (ResumeRaise 0)"] step by simp
  then have "k \<notin> snd ` set (hs_conns s')" using state by (auto simp: server_inv_def registry_ok_def)
  moreover have "closes (log (session_of s' k)) = closes (log (session_of s k)) @
      (if state (session_of s k) = CLOSED then [] else [Known E_FAILED_TO_CREATE_ANSWER])"
    using told by (simp add: s'(4) aclose_def close_notices)
  ultimately show ?thesis using step s'(1,2) i state by (simp add: offer_response_def handle_join_def)
qed

definition example_host :: "byte server_options" where
  "example_host = \<lparr>so_local = mk_p2p 2, so_validates = False, so_signer = None, so_relay = False\<rparr>"

theorem answer_failure_witness:
  "\<exists>s. hs_offers s = [Answering 0] \<and>
     closes (log (session_of (snd (http_step example_platform example_host s (HsSession example_turn 0 (ResumeRaise 0)))) 0)) =
       [Known E_FAILED_TO_CREATE_ANSWER]"
proof -
  let ?offer = "HsOffer [] [] 9"
  let ?s = "snd (run_out (http_step example_platform example_host) new_http_server [?offer])"
  have "answer_offer example_platform example_host 9 [] [] new_http_server =
      begin_answer example_platform example_host 0 9
        \<lparr>network_id_text = [], offer_network_id = unset, offer_sdp = [], offer_identity = None\<rparr>
        (new_http_server\<lparr>hs_offers := [Validating
          \<lparr>network_id_text = [], offer_network_id = unset, offer_sdp = [], offer_identity = None\<rparr>]\<rparr>)"
    by (simp add: answer_offer_def extract_identity_none no_identity_def parse_str_unset example_host_def new_http_server_def Let_def)
  then have s: "hs_offers ?s = [Answering 0]" "length (hs_peers ?s) = 1" "closes (log (session_of ?s 0)) = []"
      "state (session_of ?s 0) = IDLE"
    by (simp_all add: begin_answer_def new_http_server_def make_http_session_def new_session_def create_answer_def
        new_task_def emit_def Let_def)
  have run: "run_out (http_step example_platform example_host) new_http_server [?offer] = ([], ?s)" by (simp add: split_beta Let_def)
  have "answering 0 ?s = Some 0" using s(1) by (simp add: answering_def)
  from answer_failure [OF run _ this, where t = example_turn and why = "[]"] s show ?thesis
    by (intro exI [of _ ?s]) (simp del: http_step.simps run_out.simps add: split_beta)
qed

end
