(* ===== verification/HttpFlow.thy ===== *)
theory HttpFlow
  imports HttpDial HttpServe
begin

text \<open>
  HTTP signaling end to end: what the two parties sign and strip, and the run in which the client's
  coroutine, the exchange and the host's coroutine meet.
\<close>

section \<open>Signed descriptions\<close>

lemma plain_encodes: "list_all plain_char s \<Longrightarrow> \<exists>b. utf8_encode s = Inr b"
proof -
  have "list_all plain_char s \<Longrightarrow> is_ok (enc_text s)"
    by (induction s) (auto simp: plain_char_def enc_char_def surrogate_def is_ok_iff rbind_eq_Inr)
  then show "list_all plain_char s \<Longrightarrow> \<exists>b. utf8_encode s = Inr b"
    by (auto simp: utf8_encode_def is_ok_iff)
qed

lemma sign_inserts:
  assumes "identity_sign lib now nonces sg desc = Inr s"
  shows "\<exists>b. s = insert_identity desc (b64encode b)"
proof -
  obtain token jws e where "build_envelope (signer_domain sg) token jws = Inr e" "s = insert_identity desc e"
    using assms by (auto simp: identity_sign_def ebind_eq_Inr builtin_eq_Inr)
  then show ?thesis by (auto simp: build_envelope_def Let_def rbind_eq_Inr)
qed

lemma insert_plain:
  assumes "list_all plain_char desc"
  shows "list_all plain_char (insert_identity desc (b64encode b))"
proof -
  have "set desc = set (concat (before_media desc @ from_media desc))" by (simp only: media_split [symmetric] concat_splitlines)
  moreover have "list_all plain_char identity_prefix" "list_all plain_char (new_line desc)"
    by (simp_all add: identity_prefix_text new_line_def plain_char_def surrogate_def)
  ultimately show ?thesis using assms ascii_plain [OF b64encode_ascii, of b]
    by (auto simp: insert_identity_eq list_all_iff)
qed

lemma starts_v: "starts_with (lit ''v='') s \<longleftrightarrow> (\<exists>r. s = 118 # 61 # r)"
proof (cases s)
  case (Cons c cs)
  then show ?thesis by (cases cs) (simp_all add: starts_with_def lit_def)
qed (simp add: starts_with_def lit_def)

lemma insert_starts:
  assumes "starts_with (lit ''v='') desc"
  shows "starts_with (lit ''v='') (insert_identity desc e)"
proof -
  obtain r where r: "desc = 118 # 61 # r" using assms by (auto simp: starts_v)
  have "\<exists>l ls. splitlines (61 # r) = (61 # l) # ls" by (cases r) (auto simp: is_linebreak_def split: list.split)
  then obtain l ls where "splitlines desc = (118 # 61 # l) # ls" by (auto simp: r is_linebreak_def)
  then show ?thesis unfolding starts_v by (simp add: insert_identity_eq before_media_def starts_with_def lit_def)
qed

lemma strip_starts:
  assumes "starts_with (lit ''v='') s"
  shows "starts_with (lit ''v='') (strip s)"
proof -
  obtain r where r: "s = 118 # 61 # r" using assms by (auto simp: starts_v)
  have "\<exists>t. dropWhile uni_space (u @ [61, 118]) = t @ [61, 118]" for u
    by (induction u) (auto simp: uni_space_def)
  from this [of "rev r"] obtain t where "dropWhile uni_space (rev r @ [61, 118]) = t @ [61, 118]" by blast
  then show ?thesis by (simp add: strip_def r uni_space_def [of 118] starts_v)
qed

text \<open>
  A party that signs, or does not: its key has an algorithm, its domain and claims are JSON's, its token
  has not expired when it is verified, and its description is one that aiortc makes: without an identity,
  with a media line, and with fingerprints that have a text.
\<close>

definition signs :: "('k, 'p, 'c) platform \<Rightarrow> turn \<Rightarrow> clock \<Rightarrow> 'k identity_signer option \<Rightarrow> pystr \<Rightarrow> bool" where
  "signs env t clk signer desc \<longleftrightarrow> no_identity desc \<and>
     (case signer of
        None \<Rightarrow> True
      | Some sg \<Rightarrow>
          new_signer (ec_of env) (signer_key sg) (signer_domain sg) (signer_claims sg) (token_lifetime sg) = Inr sg \<and>
          list_all plain_char (signer_domain sg) \<and> readable (max_depth env) (JDict (signer_claims sg)) \<and>
          lit ''cpk'' \<notin> fst ` set (signer_claims sg) \<and> int_fits (t_now t) \<and>
          pred_option (\<lambda>l. int_fits (t_now t + l)) (token_lifetime sg) \<and>
          \<not> expired clk (map_of (token_claims (ec_of env) (t_now t) sg) (lit ''exp'')) \<and>
          insertable desc \<and> is_ok (fingerprint_payload desc))"

text \<open>The identity that a client finds.\<close>

definition identity_of :: "('k, 'p, 'c) platform \<Rightarrow> turn \<Rightarrow> 'k identity_signer \<Rightarrow> 'p server_identity" where
  "identity_of env t sg =
     \<lparr>id_domain = signer_domain sg, id_claims = token_claims (ec_of env) (t_now t) sg,
      id_public_key = ec_public (ec_of env) (signer_key sg),
      id_key_digest = cpk_digest (ec_of env) (ec_public (ec_of env) (signer_key sg))\<rparr>"

lemma signs_verified:
  assumes "ec_ok (ec_of env)" and "2 \<le> max_depth env" and "signs env t clk signer desc"
  obtains s where "sign_if env t signer desc = Inr s"
    and "\<exists>e. extract_identity (py_repr env) (max_depth env) s = Inr (desc, e)"
    and "strip_identity s = desc"
    and "\<forall>sg. signer = Some sg \<longrightarrow>
      verify_server_identity (ec_of env) clk (py_repr env) (max_depth env) s = Inr (desc, identity_of env t sg)"
    and "list_all plain_char desc \<longrightarrow> list_all plain_char s"
    and "starts_with (lit ''v='') desc \<longrightarrow> starts_with (lit ''v='') s"
proof (cases signer)
  case None
  have "no_identity desc" using assms(3) by (simp add: signs_def)
  then show thesis
    using None by (intro that [of desc]) (simp_all add: sign_if_def extract_identity_none strip_identity_none)
next
  case (Some sg)
  let ?lib = "ec_of env"
  have sg: "new_signer ?lib (signer_key sg) (signer_domain sg) (signer_claims sg) (token_lifetime sg) = Inr sg"
      "list_all plain_char (signer_domain sg)" "readable (max_depth env) (JDict (signer_claims sg))"
      "lit ''cpk'' \<notin> fst ` set (signer_claims sg)" "int_fits (t_now t)"
      "\<And>l. token_lifetime sg = Some l \<Longrightarrow> int_fits (t_now t + l)"
      "\<not> expired clk (map_of (token_claims ?lib (t_now t) sg) (lit ''exp''))"
      "no_identity desc" "insertable desc" "\<exists>p. fingerprint_payload desc = Inr p"
    using assms(3) Some by (simp_all add: signs_def is_ok_iff del: readable.simps)
  then obtain p where p: "fingerprint_payload desc = Inr p" by blast
  obtain s where s: "identity_sign ?lib (t_now t) (t_nonces t) sg desc = Inr s"
      "verify_server_identity ?lib clk (py_repr env) (max_depth env) s = Inr (desc, identity_of env t sg)"
    using identity_signed [OF assms(1) sg(1,2,3) assms(2) sg(4-9) p, of "t_nonces t" "py_repr env"]
    unfolding identity_of_def by blast
  obtain b where b: "s = insert_identity desc (b64encode b)" using sign_inserts [OF s(1)] by blast
  have "\<exists>e. extract_identity (py_repr env) (max_depth env) s = Inr (desc, e)"
    using s(2) by (auto simp: verify_server_identity_def ebind_eq_Inr valid_or_def split: option.splits if_splits json.splits)
  moreover from this have "strip_identity s = desc" using extract_identity_clean by metis
  ultimately show thesis
    using Some s insert_plain insert_starts by (intro that [of s]) (simp_all add: sign_if_def b)
qed

section \<open>The host's coroutine\<close>

definition host_events ::
    "'k server_options \<Rightarrow> turn \<Rightarrow> pystr \<Rightarrow> pystr \<Rightarrow> pystr \<Rightarrow> 64 word \<Rightarrow> http_event list" where
  "host_events opts t nid_text body raw bits =
     HsOffer nid_text body bits # (if so_validates opts then [HsValidated 0 bits None] else []) @
     [HsSession t 0 (Resume 0 []), HsSession t 0 (Resume 0 raw)]"

text \<open>The channels that the client made arrive open.\<close>

definition channel_events :: "turn \<Rightarrow> http_event list" where
  "channel_events t =
     [HsSession t 0 (DataChannel 0 RELIABLE_LABEL True), HsSession t 0 (DataChannel 1 UNRELIABLE_LABEL True)]"

lemma host_begins:
  assumes "extract_identity (py_repr env) (max_depth env) body = Inr (offer, e)"
    and "parse_network_id (u_dec env) nid_text = Inr nid"
  shows "run_out (http_step env opts) new_http_server (host_events opts t nid_text body raw bits) =
    run_out (http_step env opts)
      (begin_answer env opts 0 bits
        \<lparr>network_id_text = nid_text, offer_network_id = nid, offer_sdp = offer, offer_identity = e\<rparr>
        (new_http_server\<lparr>hs_offers :=
          [Validating \<lparr>network_id_text = nid_text, offer_network_id = nid, offer_sdp = offer, offer_identity = e\<rparr>]\<rparr>))
      [HsSession t 0 (Resume 0 []), HsSession t 0 (Resume 0 raw)]"
  using assms
  by (simp add: host_events_def answer_offer_def validated_def new_http_server_def Let_def split_beta
      del: http_step.simps(4))

lemma host_answers:
  assumes "extract_identity (py_repr env) (max_depth env) body = Inr (offer, e)"
    and "parse_network_id (u_dec env) nid_text = Inr nid"
    and "sign_if env t (so_signer opts) (own_sdp env (so_relay opts) raw) = Inr answer"
  shows "case run_out (http_step env opts) new_http_server (host_events opts t nid_text body raw bits) of (out, s) \<Rightarrow>
    out = [] \<and> hs_offers s = [Settled (Inr answer)] \<and> hs_conns s = [(new_connection_id bits, 0)] \<and>
    length (hs_peers s) = 1 \<and> applied (log (session_of s 0)) = [offer] \<and>
    (case run_out (http_step env opts) s (channel_events t) of (out', s') \<Rightarrow>
       out' = [0] \<and> state (session_of s' 0) = CONNECTED \<and> connected (hp_conn (hs_peers s' ! 0)) = Resolved)"
  unfolding host_begins [OF assms(1,2)]
  using assms
  by (simp add: begin_answer_def new_http_server_def serve_session_def serve_peer_def
      peer_step_def make_http_session_def session_run_simps fresh_effects_def answering_def answer_ends_def returned_sdp_def
      map_filter_simps settle_def new_connection_def local_own split_beta channel_events_def
      handle_channel_open_def is_open_def set_open_def set_pending_def pending_of_def flush_calls_def channel_of_def
      run_pc_def handle_channels_open_def mark_connected_def RELIABLE_LABEL_def UNRELIABLE_LABEL_def lit_def)

lemma host_ready:
  assumes "extract_identity (py_repr env) (max_depth env) body = Inr (offer, e)"
    and "parse_network_id (u_dec env) nid_text = Inr nid"
    and "sign_if env t (so_signer opts) (own_sdp env (so_relay opts) raw) = Inr answer"
  shows "ready [] (hs_peers (snd (run_out (http_step env opts)
    (snd (run_out (http_step env opts) new_http_server (host_events opts t nid_text body raw bits))) (channel_events t))) ! 0)"
  unfolding ready_def session_inv_def host_begins [OF assms(1,2)]
  using assms
  by (simp add: begin_answer_def new_http_server_def serve_session_def serve_peer_def
      peer_step_def make_http_session_def session_run_simps fresh_effects_def answering_def answer_ends_def returned_sdp_def
      map_filter_simps settle_def new_connection_def local_own split_beta channel_events_def
      handle_channel_open_def is_open_def set_open_def set_pending_def pending_of_def flush_calls_def channel_of_def
      run_pc_def handle_channels_open_def mark_connected_def RELIABLE_LABEL_def UNRELIABLE_LABEL_def lit_def
      peer_ok_def channels_ok_def new_queue_def)

section \<open>Both together\<close>

lemma request_succeeds:
  assumes "supported check g" and "utf8_encode offer = Inr data" and "starts_with (lit ''v='') body"
  shows "\<exists>gets. request_answer dec digit url nid offer check g (Reply 200 (Body (Some body))) =
    (gets @ [HttpPost (join_url url @ 47 # nid) data], Inr body)"
proof -
  have "post_offer dec digit u offer (Reply 200 (Body (Some body))) = ([HttpPost u data], Inr body)" for u
    using assms(2) strip_starts [OF assms(3)]
    by (simp add: post_offer_def ok_status_def read_answer_def parse_answer_def Let_def)
  then show ?thesis using assms(1)
    by (auto simp: request_answer_def supported_def Let_def split: http_reply.split)
qed

definition hook_events :: "'k dial_options \<Rightarrow> join_event list" where
  "hook_events opts = (if o_wants_identity opts then [JHook True] else [])"

lemma dial_receives:
  assumes "request_answer (u_dec env) (u_digit env) (o_server_url opts) (str_network_id nid) offer
      (o_capability_check opts) g p = (rs, Inr body)"
    and "strip_identity body = answer"
    and "o_wants_identity opts \<Longrightarrow>
      verify_server_identity (ec_of env) (t_clock t) (py_repr env) (max_depth env) body = Inr (answer, sid)"
    and "d = \<lparr>hd_local = nid, hd_peer = dialing_peer env bits relay raw, hd_phase = Requesting offer\<rparr>"
  shows "\<exists>ph. run_out (join_step env opts) d (JReplies t g p # hook_events opts) =
    (rs, accept_join env answer \<lparr>hd_local = nid, hd_peer = dialing_peer env bits relay raw, hd_phase = ph\<rparr>)"
  using assms by (auto simp: hook_events_def answered_def)

text \<open>
  The run in full. It is used for the property below and where the two peers go on from it.
\<close>

lemma onboarding:
  assumes "ec_ok (ec_of env)" and "2 \<le> max_depth env"
    and "start_join env (Some nid) id_bits bits relay = Inr d" and "wf_network_id nid"
    and "signs env tc (t_clock tc) (o_signer opts) (own_sdp env relay raw)"
    and "signs env th (t_clock tr) (so_signer host) (own_sdp env (so_relay host) raw')"
    and "list_all plain_char (own_sdp env relay raw)" and "starts_with (lit ''v='') (own_sdp env (so_relay host) raw')"
    and "o_wants_identity opts \<longrightarrow> so_signer host \<noteq> None"
    and "supported (o_capability_check opts) get_reply"
  shows "\<exists>offer data answer s s' d' gets.
    sign_if env tc (o_signer opts) (own_sdp env relay raw) = Inr offer \<and> utf8_decode data = Some offer \<and>
    run_out (http_step env host) new_http_server (host_events host th (str_network_id nid) offer raw' bits') = ([], s) \<and>
    hs_offers s = [Settled (Inr answer)] \<and> applied (log (session_of s 0)) = [own_sdp env relay raw] \<and>
    run_out (http_step env host) s (channel_events th) = ([0], s') \<and> state (session_of s' 0) = CONNECTED \<and>
    connected (hp_conn (hs_peers s' ! 0)) = Resolved \<and> ready [] (hs_peers s' ! 0) \<and> ready [] (hd_peer d') \<and>
    offer_response why (Inr answer) = Some \<lparr>r_status = 200, r_text = answer, r_sdp = True\<rparr> \<and>
    run_out (join_step env opts) d
      (JSession tc (Resume 0 raw) # JReplies tr get_reply (Reply 200 (Body (Some answer))) #
       hook_events opts @ answer_events ts) =
      (gets @ [HttpPost (join_url (o_server_url opts) @ 47 # str_network_id nid) data], d') \<and>
    (o_wants_identity opts \<longrightarrow> so_signer host = Some sg \<longrightarrow>
      hd_phase (snd (run_out (join_step env opts) d
        [JSession tc (Resume 0 raw), JReplies tr get_reply (Reply 200 (Body (Some answer)))])) =
      Trusting (own_sdp env (so_relay host) raw') (identity_of env th sg)) \<and>
    hd_phase d' = Joined \<and> applied (log (hp_session (hd_peer d'))) = [own_sdp env (so_relay host) raw']"
proof -
  let ?offer = "own_sdp env relay raw" and ?answer = "own_sdp env (so_relay host) raw'"
  obtain offer where offer: "sign_if env tc (o_signer opts) ?offer = Inr offer"
      "\<exists>e. extract_identity (py_repr env) (max_depth env) offer = Inr (?offer, e)"
      "list_all plain_char ?offer \<longrightarrow> list_all plain_char offer"
    using signs_verified [OF assms(1,2,5)] by metis
  obtain data where data: "utf8_encode offer = Inr data" using plain_encodes offer(3) assms(7) by blast
  obtain answer where answer: "sign_if env th (so_signer host) ?answer = Inr answer" "strip_identity answer = ?answer"
      "\<forall>sg. so_signer host = Some sg \<longrightarrow>
        verify_server_identity (ec_of env) (t_clock tr) (py_repr env) (max_depth env) answer = Inr (?answer, identity_of env th sg)"
      "starts_with (lit ''v='') ?answer \<longrightarrow> starts_with (lit ''v='') answer"
    using signs_verified [OF assms(1,2,6)] by metis
  obtain e where e: "extract_identity (py_repr env) (max_depth env) offer = Inr (?offer, e)" using offer(2) by blast
  obtain s s' where s: "run_out (http_step env host) new_http_server (host_events host th (str_network_id nid) offer raw' bits') = ([], s)"
      "hs_offers s = [Settled (Inr answer)]" "applied (log (session_of s 0)) = [?offer]"
      "run_out (http_step env host) s (channel_events th) = ([0], s')" "state (session_of s' 0) = CONNECTED"
      "connected (hp_conn (hs_peers s' ! 0)) = Resolved"
    using host_answers [OF e parse_str_network_id [OF assms(4)] answer(1)] by fastforce
  then have host: "ready [] (hs_peers s' ! 0)"
    using host_ready [OF e parse_str_network_id [OF assms(4)] answer(1), of bits'] by simp
  have "starts_with (lit ''v='') answer" using answer(4) assms(8) by blast
  from request_succeeds [OF assms(10) data this] obtain gets where
      request: "request_answer (u_dec env) (u_digit env) (o_server_url opts) (str_network_id nid) offer (o_capability_check opts)
        get_reply (Reply 200 (Body (Some answer))) =
        (gets @ [HttpPost (join_url (o_server_url opts) @ 47 # str_network_id nid) data], Inr answer)" by blast
  have "\<exists>sid. o_wants_identity opts \<longrightarrow>
      verify_server_identity (ec_of env) (t_clock tr) (py_repr env) (max_depth env) answer = Inr (?answer, sid)"
    using answer(3) assms(9) by auto
  then obtain sid where sid: "o_wants_identity opts \<Longrightarrow>
      verify_server_identity (ec_of env) (t_clock tr) (py_repr env) (max_depth env) answer = Inr (?answer, sid)" by blast
  let ?d = "\<lparr>hd_local = nid, hd_peer = dialing_peer env bits relay raw, hd_phase = Requesting offer\<rparr>"
  have d: "join_step env opts d (JSession tc (Resume 0 raw)) = ([], ?d)"
    using assms(3) offer_made [OF offer(1), where nid = nid and bits = bits] by (simp add: start_join_def)
  from dial_receives [OF request answer(2) sid refl] obtain ph where
      received: "run_out (join_step env opts) ?d (JReplies tr get_reply (Reply 200 (Body (Some answer))) # hook_events opts) =
        (gets @ [HttpPost (join_url (o_server_url opts) @ 47 # str_network_id nid) data],
         accept_join env ?answer \<lparr>hd_local = nid, hd_peer = dialing_peer env bits relay raw, hd_phase = ph\<rparr>)" by blast
  let ?d2 = "\<lparr>hd_local = nid, hd_peer = dialing_peer env bits relay raw, hd_phase = ph\<rparr>"
  obtain d' where d': "run_out (join_step env opts) (accept_join env ?answer ?d2) (answer_events ts) = ([], d')"
      "hd_phase d' = Joined" "applied (log (hp_session (hd_peer d'))) = [?answer]" "ready [] (hd_peer d')"
    using answer_connects [where d = ?d2 and env = env and opts = opts and answer = ?answer and t = ts, OF refl] by fastforce
  have "run_out (join_step env opts) d
      ((JSession tc (Resume 0 raw) # JReplies tr get_reply (Reply 200 (Body (Some answer))) # hook_events opts) @ answer_events ts) =
      (gets @ [HttpPost (join_url (o_server_url opts) @ 47 # str_network_id nid) data], d')"
    unfolding run_out_append using received d d'(1) by (simp del: join_step.simps)
  moreover have "hd_phase (snd (run_out (join_step env opts) d
        [JSession tc (Resume 0 raw), JReplies tr get_reply (Reply 200 (Body (Some answer)))])) =
      Trusting ?answer (identity_of env th sg)" if "o_wants_identity opts" "so_signer host = Some sg"
    using that d request answer(3) by (simp add: answered_def del: join_step.simps(1))
  ultimately show ?thesis
    using offer(1) utf8_decode_encode [OF data] s host d'(2-4)
    by (intro exI [of _ offer] exI [of _ data] exI [of _ answer] exI [of _ s] exI [of _ s'] exI [of _ d'] exI [of _ gets])
      (simp add: offer_response_def handle_join_def del: join_step.simps run_out.simps)
qed

section \<open>An instance\<close>

definition example_answer :: pystr where
  "example_answer = lit ''v=0'' @ [10] @ lit ''a=fingerprint:s A'' @ [10]"

lemma example_answer_lines: "splitlines example_answer = [lit ''v=0'' @ [10], lit ''a=fingerprint:s A'' @ [10]]"
  by (simp add: example_answer_def lit_def is_linebreak_def)

lemma example_answer_facts:
  "own_sdp example_platform False example_answer = example_answer" "no_identity example_answer" "insertable example_answer"
  "is_ok (fingerprint_payload example_answer)" "starts_with (lit ''v='') example_answer"
proof -
  have "\<not> contains size_attr example_answer"
    by (simp add: example_answer_def size_attr_def lit_def contains_def starts_with_def)
  then show "own_sdp example_platform False example_answer = example_answer"
    by (simp add: own_sdp_def set_max_message_size_def example_answer_lines)
      (simp add: example_answer_def sctp_port_attr_def lit_def starts_with_def)
  show "starts_with (lit ''v='') example_answer" unfolding starts_v by (simp add: example_answer_def lit_def)
  show "insertable example_answer" by (simp add: insertable_def example_answer_def is_linebreak_def)
  have strips: "strip (lit ''v=0'' @ [10]) = lit ''v=0''" "strip (chomp (lit ''v=0'' @ [10])) = lit ''v=0''"
      "strip (lit ''a=fingerprint:s A'' @ [10]) = lit ''a=fingerprint:s A''"
      "strip (chomp (lit ''a=fingerprint:s A'' @ [10])) = lit ''a=fingerprint:s A''"
    by (simp_all add: lit_def strip_def uni_space_def chomp_def ends_with_def starts_with_def)
  show "no_identity example_answer"
    by (simp add: no_identity_def example_answer_lines identity_line_def strips)
      (simp add: starts_with_def identity_prefix_text lit_def strip_def uni_space_def)
  have "fingerprints_of example_answer = [(lit ''s'', lit ''A'')]"
    by (simp add: fingerprints_of_def example_answer_lines strips)
      (simp add: starts_with_def fingerprint_prefix_def fingerprint_entry_def lit_def)
  then have "fingerprint_payload example_answer = utf8_encode (dumps False (fingerprint_json [(lit ''s'', lit ''A'')]))"
    by (simp add: fingerprint_payload_def canonical_json_def fingerprint_json_sorted)
  moreover have "is_ascii (dumps False (fingerprint_json [(lit ''s'', lit ''A'')]))"
    by (simp add: fingerprint_json_def lit_def dump_string_def escape_char_def)
  ultimately show "is_ok (fingerprint_payload example_answer)" using utf8_encode_ascii by simp
qed

definition example_client :: "byte dial_options" where
  "example_client = \<lparr>o_server_url = lit ''u'', o_capability_check = True, o_wants_identity = True, o_signer = None\<rparr>"

definition signing_host :: "byte server_options" where
  "signing_host = example_host\<lparr>so_signer := Some example_signer\<rparr>"

lemma example_parties:
  "signs example_platform example_turn (t_clock example_turn) (o_signer example_client) (own_sdp example_platform False [])"
  "signs example_platform example_turn (t_clock example_turn) (so_signer signing_host) (own_sdp example_platform False example_answer)"
  "list_all plain_char (own_sdp example_platform False [])"
proof -
  have empty: "own_sdp example_platform False [] = []"
    by (simp add: own_sdp_def set_max_message_size_def) (simp add: size_attr_def lit_def contains_def)
  show "list_all plain_char (own_sdp example_platform False [])" by (simp add: empty)
  show "signs example_platform example_turn (t_clock example_turn) (o_signer example_client) (own_sdp example_platform False [])"
    by (simp add: signs_def example_client_def empty no_identity_def)
  have "map_of (token_claims example_ec 0 example_signer) (lit ''exp'') = Some (JInt 60)"
    by (simp add: token_claims_def example_signer_def update_conv')
  moreover have "int_fits 0" "int_fits 60" by (simp_all add: int_fits_def dec_of_nat.simps int_max_str_digits_def)
  ultimately show "signs example_platform example_turn (t_clock example_turn) (so_signer signing_host)
      (own_sdp example_platform False example_answer)"
    unfolding example_answer_facts(1)
    using example_answer_facts(2-4) example_signer_facts(1,5,6,7)
    by (simp add: signs_def signing_host_def example_platform_def example_turn_def expired_def example_signer_def del: readable.simps)
qed

lemma example_config:
  "ec_ok (ec_of example_platform)" "2 \<le> max_depth example_platform"
  "start_join example_platform (Some (mk_p2p 1)) 0 7 False =
     Inr \<lparr>hd_local = mk_p2p 1, hd_peer = peer_step example_platform (make_http_session 7 0 True False) OfferCall,
          hd_phase = Offering\<rparr>"
  "wf_network_id (mk_p2p 1)"
  "signs example_platform example_turn (t_clock example_turn) (o_signer example_client) (own_sdp example_platform False [])"
  "signs example_platform example_turn (t_clock example_turn) (so_signer signing_host)
     (own_sdp example_platform (so_relay signing_host) example_answer)"
  "list_all plain_char (own_sdp example_platform False [])"
  "starts_with (lit ''v='') (own_sdp example_platform (so_relay signing_host) example_answer)"
  "o_wants_identity example_client \<longrightarrow> so_signer signing_host \<noteq> None"
  "supported (o_capability_check example_client) (Reply 200 (Body (Some [])))"
  "so_relay signing_host = False"
proof -
  show relay: "so_relay signing_host = False" by (simp add: signing_host_def example_host_def)
  show "wf_network_id (mk_p2p 1)" by (simp add: wf_constructors U64_MAX_def)
  show "start_join example_platform (Some (mk_p2p 1)) 0 7 False =
      Inr \<lparr>hd_local = mk_p2p 1, hd_peer = peer_step example_platform (make_http_session 7 0 True False) OfferCall,
           hd_phase = Offering\<rparr>" by (simp add: start_join_def)
  show "ec_ok (ec_of example_platform)" "2 \<le> max_depth example_platform"
    using example_ec_ok by (simp_all add: example_platform_def)
  show "o_wants_identity example_client \<longrightarrow> so_signer signing_host \<noteq> None"
      "supported (o_capability_check example_client) (Reply 200 (Body (Some [])))"
    by (simp_all add: signing_host_def example_host_def supported_def ok_status_def)
  show "signs example_platform example_turn (t_clock example_turn) (so_signer signing_host)
        (own_sdp example_platform (so_relay signing_host) example_answer)"
      "starts_with (lit ''v='') (own_sdp example_platform (so_relay signing_host) example_answer)"
    unfolding relay using example_parties(2) example_answer_facts(1,5) by simp_all
qed (rule example_parties)+

text \<open>Two peers that HTTP signaling has connected.\<close>

lemma example_peers: "\<exists>(p :: nat http_peer) (q :: nat http_peer). ready [] p \<and> ready [] q"
  using onboarding [OF example_config(1-10), where bits' = 0 and why = undefined and ts = example_turn]
  by blast

section \<open>Properties\<close>

text \<open>
  C4: HTTP onboarding works. Let the client's offer and the host's answer be signed or not, as each party is
  configured, and be relayed to each other by the exchange: the POST carries a body that decodes to
  what the host's coroutine gets, and the host's response is what the client receives. Then the host
  applies exactly the client's description and answers; the client, which verifies the identity if it wants
  one and shows its hook exactly the host's, applies exactly the host's description; and when the channels open, the host starts the handler of
  its connected connection and \<open>connect_http\<close> returns.
\<close>

theorem http_onboarding:
  assumes "ec_ok (ec_of env)" and "2 \<le> max_depth env"
    and "start_join env (Some nid) id_bits bits relay = Inr d" and "wf_network_id nid"
    and "signs env tc (t_clock tc) (o_signer opts) (own_sdp env relay raw)"
    and "signs env th (t_clock tr) (so_signer host) (own_sdp env (so_relay host) raw')"
    and "list_all plain_char (own_sdp env relay raw)" and "starts_with (lit ''v='') (own_sdp env (so_relay host) raw')"
    and "o_wants_identity opts \<longrightarrow> so_signer host \<noteq> None"
    and "supported (o_capability_check opts) get_reply"
  shows "\<exists>offer data answer s s' d' gets.
    sign_if env tc (o_signer opts) (own_sdp env relay raw) = Inr offer \<and> utf8_decode data = Some offer \<and>
    run_out (http_step env host) new_http_server (host_events host th (str_network_id nid) offer raw' bits') = ([], s) \<and>
    hs_offers s = [Settled (Inr answer)] \<and> applied (log (session_of s 0)) = [own_sdp env relay raw] \<and>
    run_out (http_step env host) s (channel_events th) = ([0], s') \<and> state (session_of s' 0) = CONNECTED \<and>
    connected (hp_conn (hs_peers s' ! 0)) = Resolved \<and> ready [] (hs_peers s' ! 0) \<and> ready [] (hd_peer d') \<and>
    offer_response why (Inr answer) = Some \<lparr>r_status = 200, r_text = answer, r_sdp = True\<rparr> \<and>
    run_out (join_step env opts) d
      (JSession tc (Resume 0 raw) # JReplies tr get_reply (Reply 200 (Body (Some answer))) #
       hook_events opts @ answer_events ts) =
      (gets @ [HttpPost (join_url (o_server_url opts) @ 47 # str_network_id nid) data], d') \<and>
    (o_wants_identity opts \<longrightarrow> so_signer host = Some sg \<longrightarrow>
      hd_phase (snd (run_out (join_step env opts) d
        [JSession tc (Resume 0 raw), JReplies tr get_reply (Reply 200 (Body (Some answer)))])) =
      Trusting (own_sdp env (so_relay host) raw') (identity_of env th sg)) \<and>
    hd_phase d' = Joined \<and> applied (log (hp_session (hd_peer d'))) = [own_sdp env (so_relay host) raw']"
  by (rule onboarding [OF assms])

theorem http_onboarding_witness:
  "\<exists>answer (s :: nat http_server) (d' :: (byte, nat) http_dial).
     hs_offers s = [Settled (Inr answer)] \<and> hd_phase d' = Joined \<and>
     applied (log (hp_session (hd_peer d'))) = [example_answer]"
  using http_onboarding [OF example_config(1-10)]
  unfolding example_answer_facts(1) example_config(11) by blast

end
