(* ===== verification/Echo.thy ===== *)
theory Echo
  imports HttpFlow "HOL-Library.Sublist"
begin

text \<open>
  The echo programs \<open>examples/http_echo_server.py\<close> and \<open>examples/http_echo_client.py\<close> on the two
  connections that signaling has opened (the handler and the loop of the LAN programs are the same
  text), and the system of both: each coroutine runs from one await to the next, and what the peers
  send on their reliable channels arrives in order.
\<close>

section \<open>The server's handler\<close>

lemma anext_returned:
  assumes "anext c = (Returned b, c1)"
  shows "recv_queue c = Packet b # recv_queue c1 \<and> c1 = c\<lparr>recv_queue := recv_queue c1\<rparr>"
proof (cases "recv_queue c")
  case (Cons x q)
  then show ?thesis using assms loop_end_simps(2) [of c b]
    by (cases x) (auto simp: anext_packet anext_mark)
qed (use assms in \<open>simp add: anext_def recv_def\<close>)

text \<open>
  \<open>handle\<close>, resumed: \<open>async for packet in connection: await connection.send(packet, RELIABLE)\<close> until
  it has to wait or ends. \<open>send\<close> never waits.
\<close>

function echo_handle :: "connection \<Rightarrow> 'c session \<Rightarrow> outcome \<times> connection \<times> 'c session" where
  "echo_handle c s =
     (case anext c of
        (Returned packet, c1) \<Rightarrow>
          (case conn_send packet Reliable c1 s of
             (Finished, s1) \<Rightarrow> echo_handle c1 s1
           | (r, s1) \<Rightarrow> (r, c1, s1))
      | (StopIteration, c1) \<Rightarrow> (Finished, c1, s)
      | (r, c1) \<Rightarrow> (r, c1, s))"
  by pat_completeness auto
termination
proof (relation "measure (\<lambda>(c, _). length (recv_queue c))")
  fix c :: connection and s :: "'c session" and r c1 packet and r1 s1
  assume "(r, c1) = anext c" and "r = Returned packet"
  then have "recv_queue c = Packet packet # recv_queue c1" using anext_returned [of c packet c1] by simp
  then show "((c1, s1), (c, s)) \<in> measure (\<lambda>(c, _). length (recv_queue c))" by simp
qed simp

declare echo_handle.simps [simp del]

section \<open>The client's loop\<close>

text \<open>What \<open>main\<close> ends with once \<open>async with connection\<close> has closed the connection.\<close>

datatype echo_result = EchoDone | EchoRaises outcome | EchoBadReply | EchoTimedOut

text \<open>In \<open>wait_for(connection.recv())\<close>, with the lines that are still to be sent, or in \<open>__aexit__\<close>.\<close>

datatype echo_phase = Expecting "pystr list" | Leaving echo_result

record 'c echo_client =
  ec_peer :: "'c http_peer"
  ec_phase :: echo_phase
  ec_printed :: "pystr list"

definition greetings :: "pystr list" where
  "greetings = [lit ''hello'', lit ''nethernet'', lit ''goodbye'']"

definition echo_leave :: "('k, 'p, 'c) platform \<Rightarrow> echo_result \<Rightarrow> 'c echo_client \<Rightarrow> 'c echo_client" where
  "echo_leave env r cl =
     cl\<lparr>ec_peer := peer_step env (ec_peer cl) (AcloseCall (Known E_NONE)), ec_phase := Leaving r\<rparr>"

text \<open>From the head of the \<open>for\<close> loop to its next await.\<close>

definition echo_send :: "('k, 'p, 'c) platform \<Rightarrow> pystr list \<Rightarrow> 'c echo_client \<Rightarrow> 'c echo_client" where
  "echo_send env lines cl =
     (case lines of
        [] \<Rightarrow> echo_leave env EchoDone cl
      | line # rest \<Rightarrow>
          (case utf8_encode line of
             Inl x \<Rightarrow> echo_leave env (EchoRaises (Raises x)) cl
           | Inr data \<Rightarrow>
               (let p = ec_peer cl; (r, s) = conn_send data Reliable (hp_conn p) (hp_session p);
                    cl1 = cl\<lparr>ec_peer := p\<lparr>hp_session := s\<rparr>\<rparr>
                in if r = Finished then cl1\<lparr>ec_phase := Expecting rest\<rparr> else echo_leave env (EchoRaises r) cl1)))"

text \<open>\<open>recv\<close> may have something: print the reply and go on.\<close>

definition echo_resume :: "('k, 'p, 'c) platform \<Rightarrow> 'c echo_client \<Rightarrow> 'c echo_client" where
  "echo_resume env cl =
     (case ec_phase cl of
        Expecting rest \<Rightarrow>
          (let (r, c) = recv (hp_conn (ec_peer cl)); cl1 = cl\<lparr>ec_peer := (ec_peer cl)\<lparr>hp_conn := c\<rparr>\<rparr> in
           case r of
             Waits \<Rightarrow> cl1
           | Returned reply \<Rightarrow>
               (case utf8_decode reply of
                  None \<Rightarrow> echo_leave env EchoBadReply cl1
                | Some txt \<Rightarrow> echo_send env rest (cl1\<lparr>ec_printed := ec_printed cl @ [txt]\<rparr>))
           | _ \<Rightarrow> echo_leave env (EchoRaises r) cl1)
      | Leaving r \<Rightarrow> cl)"

definition echo_timeout :: "('k, 'p, 'c) platform \<Rightarrow> 'c echo_client \<Rightarrow> 'c echo_client" where
  "echo_timeout env cl = (case ec_phase cl of Expecting rest \<Rightarrow> echo_leave env EchoTimedOut cl | Leaving r \<Rightarrow> cl)"

section \<open>Both together\<close>

text \<open>The fragments in flight, and how the server's handler has ended.\<close>

record 'c echo_system =
  es_client :: "'c echo_client"
  es_peer :: "'c http_peer"
  es_handler :: "outcome option"
  to_server :: "bytes list"
  to_client :: "bytes list"

definition wire :: "'c session \<Rightarrow> 'c session \<Rightarrow> bytes list" where
  "wire s s' = sent True (peer_calls (fresh_effects s s'))"

definition client_turns :: "'c echo_client \<Rightarrow> 'c echo_system \<Rightarrow> 'c echo_system" where
  "client_turns cl e =
     e\<lparr>es_client := cl,
       to_server := to_server e @ wire (hp_session (ec_peer (es_client e))) (hp_session (ec_peer cl))\<rparr>"

text \<open>\<open>_run_handler\<close>: when the handler has ended, the connection is closed.\<close>

definition server_turns :: "('k, 'p, 'c) platform \<Rightarrow> 'c echo_system \<Rightarrow> 'c echo_system" where
  "server_turns env e =
     (let p = es_peer e; (r, c, s) = echo_handle (hp_conn p) (hp_session p);
          p1 = \<lparr>hp_session = s, hp_conn = c\<rparr>
      in e\<lparr>es_peer := (if r = Waits then p1 else peer_step env p1 (AcloseCall (Known E_NONE))),
           es_handler := (if r = Waits then None else Some r),
           to_client := to_client e @ wire (hp_session p) s\<rparr>)"

definition arrives :: "('k, 'p, 'c) platform \<Rightarrow> bytes \<Rightarrow> 'c http_peer \<Rightarrow> 'c http_peer" where
  "arrives env f p = peer_step env p (ChannelMessage True (PBytes f))"

text \<open>
  The steps, in any order: a coroutine that has something to take is resumed, a fragment arrives, and
  aiortc tells the server that a client that has closed is gone.
\<close>

inductive echo_step :: "('k, 'p, 'c) platform \<Rightarrow> 'c echo_system \<Rightarrow> 'c echo_system \<Rightarrow> bool" for env where
  client: "ec_phase (es_client e) = Expecting rest \<Longrightarrow> recv_queue (hp_conn (ec_peer (es_client e))) \<noteq> [] \<Longrightarrow>
    echo_step env e (client_turns (echo_resume env (es_client e)) e)"
| server: "es_handler e = None \<Longrightarrow> recv_queue (hp_conn (es_peer e)) \<noteq> [] \<Longrightarrow> echo_step env e (server_turns env e)"
| at_server: "to_server e = f # fs \<Longrightarrow>
    echo_step env e (e\<lparr>to_server := fs, es_peer := arrives env f (es_peer e)\<rparr>)"
| at_client: "to_client e = f # fs \<Longrightarrow>
    echo_step env e (e\<lparr>to_client := fs,
      es_client := (es_client e)\<lparr>ec_peer := arrives env f (ec_peer (es_client e))\<rparr>\<rparr>)"
| hangup: "ec_phase (es_client e) = Leaving r \<Longrightarrow> state (hp_session (es_peer e)) = CONNECTED \<Longrightarrow>
    echo_step env e (e\<lparr>es_peer := peer_step env (es_peer e) (ConnectionState (lit ''closed''))\<rparr>)"

definition echo_start ::
    "('k, 'p, 'c) platform \<Rightarrow> pystr list \<Rightarrow> 'c http_peer \<Rightarrow> 'c http_peer \<Rightarrow> 'c echo_system" where
  "echo_start env lines p q =
     (let cl = \<lparr>ec_peer = p, ec_phase = Expecting [], ec_printed = []\<rparr> in
      client_turns (echo_send env lines cl)
        \<lparr>es_client = cl, es_peer = q, es_handler = None, to_server = [], to_client = []\<rparr>)"

section \<open>Peers that are connected\<close>

lemma readyD:
  assumes "ready q p"
  shows "state (hp_session p) = CONNECTED" "recv_queue (hp_conn p) = q" "packet_handler (hp_session p)"
    "has_on_close (hp_session p)" "packets (pc (hp_session p)) = new_queue" "has_on_packet (pc (hp_session p))"
    "is_open True (pc (hp_session p))" "\<exists>ch. channel_of True (pc (hp_session p)) = Some ch"
  using assms by (auto simp: ready_def session_inv_def peer_ok_def channels_ok_def is_open_def channel_of_def)

lemma ready_queue: "ready q p \<Longrightarrow> ready q' (p\<lparr>hp_conn := (hp_conn p)\<lparr>recv_queue := q'\<rparr>\<rparr>)"
  by (simp add: ready_def)

lemma ready_log: "ready q p \<Longrightarrow> ready q (p\<lparr>hp_session := emit (map PeerCall cs) (hp_session p)\<rparr>)"
proof -
  have "opens (map PeerCall cs) = 0" for cs :: "'a pc_call list" by (induction cs) simp_all
  then show "ready q p \<Longrightarrow> ready q (p\<lparr>hp_session := emit (map PeerCall cs) (hp_session p)\<rparr>)"
    by (auto simp: ready_def session_inv_def)
qed

lemma emitted [simp]: "fresh_effects s (emit es s) = es" "fresh_effects s s = []"
  by (simp_all add: fresh_effects_def)

section \<open>Sending and receiving\<close>

lemma sends_open:
  assumes "channel_of True p = Some ch" and "is_open True p"
  shows "channel_sends (map (Pair Reliable) fs) p = (map (ChannelSend True ch) fs, p)"
  using assms by (induction fs) (simp_all add: channel_send_def)

lemma run_channel_sends: "run_pc (map (ChannelSend r ch) fs, p) s = emit (map PeerCall (map (ChannelSend r ch) fs)) (s\<lparr>pc := p\<rparr>)"
proof -
  have "foldl run_call s (map (ChannelSend r ch) fs) = emit (map PeerCall (map (ChannelSend r ch) fs)) s" for s :: "'a session"
    by (induction fs arbitrary: s) (simp_all add: emit_def)
  then show ?thesis by (simp add: run_pc_def)
qed

text \<open>\<open>send\<close> on a connected peer puts the fragments of an accepted packet on the wire, and no others.\<close>

definition fragments_of :: "bytes \<Rightarrow> bytes list" where
  "fragments_of data = (if accepted data Reliable then countdown_fragments (packet_chunks data) else [])"

lemma conn_send_ready:
  assumes "ready q p"
  shows "\<exists>cs. conn_send data Reliable c (hp_session p) = (Finished, emit (map PeerCall cs) (hp_session p)) \<and>
    sent True cs = fragments_of data"
proof -
  let ?s = "hp_session p"
  obtain ch where ch: "channel_of True (pc ?s) = Some ch" using readyD(8) [OF assms] by blast
  note sends = sends_open [OF ch readyD(7) [OF assms]]
  show ?thesis
  proof (cases "accepted data Reliable")
    case True
    let ?cs = "map (ChannelSend True ch) (countdown_fragments (packet_chunks data))"
    have "conn_send data Reliable c ?s = (Finished, emit (map PeerCall ?cs) ?s)"
      using readyD(1) [OF assms] True
      by (simp add: conn_send_def session_send_def pc_send_def push_accepted sends run_channel_sends)
    then show ?thesis using True by (intro exI [of _ ?cs]) (simp add: fragments_of_def)
  next
    case False
    have "conn_send data Reliable c ?s = (Finished, emit (map PeerCall []) ?s)"
      using readyD(1) [OF assms] False
      by (simp add: conn_send_def session_send_def pc_send_def push_rejected run_pc_def emit_def)
    then show ?thesis using False by (intro exI [of _ "[]"]) (simp add: fragments_of_def)
  qed
qed

lemma wire_calls [simp]: "wire s (emit (map PeerCall cs) s) = sent True cs"
  by (simp add: wire_def)

lemma wire_same [simp]: "wire s s = []"
  by (simp add: wire_def)

lemma short_fragments: "length data \<le> FRAGMENT_SIZE \<Longrightarrow> fragments_of data = [0 # data]"
  by (simp add: fragments_of_def accepted_def packet_chunks_short)

lemma arrives_ready:
  assumes "ready q p"
  shows "ready (q @ [Packet data]) (arrives env (0 # data) p)"
proof -
  let ?s = "hp_session p"
  note s = readyD [OF assms]
  have same: "?s\<lparr>pc := (pc ?s)\<lparr>packets := packets (pc ?s)\<rparr>\<rparr> = ?s" by simp
  have "handle_channel_message True (PBytes (0 # data)) (pc ?s) =
      Inr ([PacketCb data], (pc ?s)\<lparr>packets := new_queue\<rparr>)"
    by (simp add: handle_channel_message_def payload_bytes_def deliver_def s on_reliable_message_def new_queue_def
        Let_def)
  then have "session_step (u_dec env) (candidate_sdp env) ?s (ChannelMessage True (PBytes (0 # data))) = emit [OnPacket data] ?s"
    using same by (simp add: s run_pc_def handle_packet_def)
  moreover have "session_inv (session_step (u_dec env) (candidate_sdp env) ?s (ChannelMessage True (PBytes (0 # data))))"
    by (rule session_machine.inv_step) (use assms in \<open>simp add: ready_def\<close>)
  ultimately show ?thesis
    using s by (simp add: arrives_def peer_step_def ready_def enqueue_def)
qed

text \<open>
  The handler on a connected peer: everything that is queued is sent back, in order, and the handler
  waits for more.
\<close>

lemma echo_handle_packets:
  assumes "ready (map Packet ps) p"
  shows "\<exists>cs. echo_handle (hp_conn p) (hp_session p) =
      (Waits, (hp_conn p)\<lparr>recv_queue := []\<rparr>, emit (map PeerCall cs) (hp_session p)) \<and>
    sent True cs = concat (map fragments_of ps)"
  using assms
proof (induction ps arbitrary: p)
  case Nil
  then have "recv_queue (hp_conn p) = []" by (simp add: ready_def)
  then have "anext (hp_conn p) = (Waits, hp_conn p)" "(hp_conn p)\<lparr>recv_queue := []\<rparr> = hp_conn p"
    by (simp_all add: anext_def recv_def)
  then show ?case
    by (intro exI [of _ "[]"]) (simp add: echo_handle.simps [of "hp_conn p"] emit_def)
next
  case (Cons b ps)
  let ?c = "(hp_conn p)\<lparr>recv_queue := map Packet ps\<rparr>"
  have take: "anext (hp_conn p) = (Returned b, ?c)"
    using readyD(2) [OF Cons.prems] by (simp add: anext_packet)
  obtain cs where cs: "conn_send b Reliable ?c (hp_session p) = (Finished, emit (map PeerCall cs) (hp_session p))"
      "sent True cs = fragments_of b"
    using conn_send_ready [OF Cons.prems] by blast
  let ?p = "\<lparr>hp_session = emit (map PeerCall cs) (hp_session p), hp_conn = ?c\<rparr>"
  have "ready (map Packet ps) ?p"
    using ready_queue [OF ready_log [OF Cons.prems], of "map Packet ps"] by (simp add: ready_def)
  from Cons.IH [OF this] obtain cs' where cs': "echo_handle ?c (hp_session ?p) =
      (Waits, ?c\<lparr>recv_queue := []\<rparr>, emit (map PeerCall cs') (hp_session ?p))"
      "sent True cs' = concat (map fragments_of ps)" by auto
  have "echo_handle (hp_conn p) (hp_session p) = echo_handle ?c (hp_session ?p)"
    by (simp add: echo_handle.simps [of "hp_conn p"] take cs(1))
  then show ?case using cs cs'
    by (intro exI [of _ "cs @ cs'"]) (simp add: emit_def)
qed

section \<open>The peer is gone\<close>

text \<open>
  \<open>handle_connection_state\<close> closes a connected session with \<open>DATA_CHANNEL_CLOSED\<close> for each of the two
  states in which the other peer has gone.
\<close>

definition gone :: "pystr \<Rightarrow> bool" where
  "gone st \<longleftrightarrow> st = lit ''closed'' \<or> st = lit ''failed''"

lemma gone_closes:
  assumes "ready q p" and "gone st" and "p' = peer_step env p (ConnectionState st)"
  shows "state (hp_session p') = CLOSED" "recv_queue (hp_conn p') = q @ [ClosedMark]"
    "closed_error (hp_conn p') = Some (Known E_DATA_CHANNEL_CLOSED)"
proof -
  let ?s = "hp_session p"
  note s = readyD [OF assms(1)]
  have differ: "lit ''closed'' \<noteq> lit ''failed''" by (simp add: lit_def)
  have closes: "hp_session p' = close (Known E_DATA_CHANNEL_CLOSED) False ?s"
    using assms(2) s(1) differ by (auto simp: assms(3) gone_def handle_connection_state_def)
  have log: "fresh_effects ?s (hp_session p') = [ClosePeer, OnClose (Known E_DATA_CHANNEL_CLOSED)]"
    using s(1,4) by (simp add: closes close_def cancel_timeout_def fresh_effects_def Let_def)
  have "hp_conn p' = snd (mark_closed (Known E_DATA_CHANNEL_CLOSED) (hp_conn p))"
    using log by (simp add: assms(3) peer_conn)
  then show "recv_queue (hp_conn p') = q @ [ClosedMark]"
    "closed_error (hp_conn p') = Some (Known E_DATA_CHANNEL_CLOSED)"
    using s(2) by (simp_all add: mark_closed_known finish_close_def)
  show "state (hp_session p') = CLOSED"
    using s(1) by (simp add: closes close_def cancel_timeout_def Let_def)
qed

lemma echo_handle_gone:
  assumes "state s = CLOSED" and "recv_queue c = map Packet ps @ [ClosedMark]"
    and "closed_error c = Some (Known err)" and "err \<noteq> E_NONE"
  shows "echo_handle c s =
    (ClosedExn (Known err), c\<lparr>recv_queue := (case ps of [] \<Rightarrow> [ClosedMark] | _ # qs \<Rightarrow> map Packet qs @ [ClosedMark])\<rparr>, s)"
proof -
  have raised: "raise_closed c' = ClosedExn (Known err)" if "closed_error c' = Some (Known err)" for c'
    using that by (rule raise_closed_known)
  have code: "wire_error_int (Known err) \<noteq> 0"
    using assms(4) error_code_inject [of err E_NONE] by (auto simp del: error_code_inject)
  show ?thesis
  proof (cases ps)
    case Nil
    then have "anext c = (ClosedExn (Known err), c\<lparr>recv_queue := [ClosedMark]\<rparr>)"
      using assms(2) code raised [OF assms(3)] by (simp add: anext_mark loop_end_def)
    then show ?thesis using Nil by (simp add: echo_handle.simps [of c])
  next
    case (Cons b qs)
    then have "anext c = (Returned b, c\<lparr>recv_queue := map Packet qs @ [ClosedMark]\<rparr>)"
      using assms(2) by (simp add: anext_packet)
    then show ?thesis using Cons assms(1,3) raised
      by (simp add: echo_handle.simps [of c] conn_send_def)
  qed
qed

section \<open>Where the line is\<close>

text \<open>
  There is never more than one packet under way. \<open>echoing lines n e\<close>: the state \<open>e\<close> is \<open>n\<close> steps from
  the end, with the current line on its way to the server, in the server's queue, on its way back, or
  in the client's queue; or the client has left and the server does not know, knows, or has ended.
\<close>

datatype place = ToServer | AtServer | ToClient | AtClient

fun distance :: "place \<Rightarrow> nat" where
  "distance ToServer = 4" | "distance AtServer = 3" | "distance ToClient = 2" | "distance AtClient = 1"

definition short_line :: "pystr \<Rightarrow> bool" where
  "short_line l \<longleftrightarrow> (case utf8_encode l of Inl _ \<Rightarrow> False | Inr data \<Rightarrow> length data \<le> FRAGMENT_SIZE)"

definition client_ready :: "recv_item list \<Rightarrow> pystr list \<Rightarrow> pystr list \<Rightarrow> 'c echo_client \<Rightarrow> bool" where
  "client_ready q printed rest cl \<longleftrightarrow> ready q (ec_peer cl) \<and> ec_phase cl = Expecting rest \<and> ec_printed cl = printed"

definition underway :: "place \<Rightarrow> bytes \<Rightarrow> pystr list \<Rightarrow> pystr list \<Rightarrow> 'c echo_system \<Rightarrow> bool" where
  "underway pl data printed rest e \<longleftrightarrow> es_handler e = None \<and>
     to_server e = (if pl = ToServer then [0 # data] else []) \<and>
     ready (if pl = AtServer then [Packet data] else []) (es_peer e) \<and>
     to_client e = (if pl = ToClient then [0 # data] else []) \<and>
     client_ready (if pl = AtClient then [Packet data] else []) printed rest (es_client e)"

definition client_left :: "pystr list \<Rightarrow> 'c echo_system \<Rightarrow> bool" where
  "client_left lines e \<longleftrightarrow> ec_phase (es_client e) = Leaving EchoDone \<and> ec_printed (es_client e) = lines \<and>
     to_server e = [] \<and> to_client e = []"

definition server_closed :: "recv_item list \<Rightarrow> 'c http_peer \<Rightarrow> bool" where
  "server_closed q p \<longleftrightarrow> state (hp_session p) = CLOSED \<and> recv_queue (hp_conn p) = q \<and>
     closed_error (hp_conn p) = Some (Known E_DATA_CHANNEL_CLOSED)"

inductive echoing :: "pystr list \<Rightarrow> nat \<Rightarrow> 'c echo_system \<Rightarrow> bool" for lines where
  on_the_way: "lines = printed @ cur # rest \<Longrightarrow> utf8_encode cur = Inr data \<Longrightarrow> underway pl data printed rest e \<Longrightarrow>
    echoing lines (4 * length rest + distance pl + 2) e"
| left: "client_left lines e \<Longrightarrow> ready [] (es_peer e) \<Longrightarrow> es_handler e = None \<Longrightarrow> echoing lines 2 e"
| noticed: "client_left lines e \<Longrightarrow> server_closed [ClosedMark] (es_peer e) \<Longrightarrow> es_handler e = None \<Longrightarrow> echoing lines 1 e"
| ended: "client_left lines e \<Longrightarrow> state (hp_session (es_peer e)) = CLOSED \<Longrightarrow>
    es_handler e = Some (ClosedExn (Known E_DATA_CHANNEL_CLOSED)) \<Longrightarrow> echoing lines 0 e"

inductive_cases echo_stepE: "echo_step env e e'"
inductive_cases echoing_0E: "echoing lines 0 e"

section \<open>Each step is one step nearer\<close>

lemma line_data: "short_line l \<Longrightarrow> \<exists>data. utf8_encode l = Inr data \<and> length data \<le> FRAGMENT_SIZE \<and> utf8_decode data = Some l"
  by (auto simp: short_line_def utf8_decode_encode split: sum.splits)

text \<open>The client's turn: the next line is on its way, or there is none and the client leaves.\<close>

lemma echo_send_next:
  assumes "ready [] (ec_peer cl)" and "ec_printed cl = printed" and "lines = printed @ todo"
    and "list_all short_line lines"
    and "es_handler e = None" and "ready [] (es_peer e)" and "to_server e = []" and "to_client e = []"
    and "es_client e = old" and "hp_session (ec_peer old) = hp_session (ec_peer cl)"
  shows "echoing lines (4 * length todo + 2) (client_turns (echo_send env todo cl) e)"
proof (cases todo)
  case Nil
  have "fresh_effects (hp_session (ec_peer cl)) (close (Known E_NONE) False (hp_session (ec_peer cl))) =
      [ClosePeer, OnClose (Known E_NONE)]"
    using readyD(1,4) [OF assms(1)] by (simp add: close_def cancel_timeout_def fresh_effects_def Let_def)
  then have "wire (hp_session (ec_peer cl)) (aclose (Known E_NONE) (hp_session (ec_peer cl))) = []"
    using readyD(1) [OF assms(1)] by (simp add: wire_def aclose_def peer_calls_def map_filter_simps)
  then have "echoing lines 2 (client_turns (echo_leave env EchoDone cl) e)"
    using assms Nil by (intro left) (simp_all add: client_left_def client_turns_def echo_leave_def)
  then show ?thesis by (simp add: Nil echo_send_def numeral_2_eq_2)
next
  case (Cons line rest)
  have "short_line line" using assms(3,4) Cons by simp
  then obtain data where data: "utf8_encode line = Inr data" "length data \<le> FRAGMENT_SIZE" using line_data by blast
  obtain cs where cs: "conn_send data Reliable (hp_conn (ec_peer cl)) (hp_session (ec_peer cl)) =
      (Finished, emit (map PeerCall cs) (hp_session (ec_peer cl)))" "sent True cs = [0 # data]"
    using conn_send_ready [OF assms(1)] short_fragments [OF data(2)] by metis
  let ?cl = "cl\<lparr>ec_peer := (ec_peer cl)\<lparr>hp_session := emit (map PeerCall cs) (hp_session (ec_peer cl))\<rparr>,
      ec_phase := Expecting rest\<rparr>"
  have sends: "echo_send env todo cl = ?cl" by (simp add: echo_send_def Cons data(1) cs(1) Let_def)
  have "underway ToServer data printed rest (client_turns ?cl e)"
    using assms ready_log [OF assms(1), of cs] cs(2)
    by (simp add: underway_def client_turns_def client_ready_def)
  from on_the_way [OF _ data(1) this] assms(3) Cons sends show ?thesis by (simp add: add.commute)
qed

lemma client_hears:
  assumes "underway AtClient data printed rest e" and "utf8_decode data = Some cur"
    and "lines = printed @ cur # rest" and "list_all short_line lines"
  shows "echoing lines (4 * length rest + 2) (client_turns (echo_resume env (es_client e)) e)"
proof -
  let ?cl = "es_client e"
  let ?c = "(hp_conn (ec_peer ?cl))\<lparr>recv_queue := []\<rparr>"
  let ?cl' = "?cl\<lparr>ec_peer := (ec_peer ?cl)\<lparr>hp_conn := ?c\<rparr>, ec_printed := printed @ [cur]\<rparr>"
  have r: "ready [Packet data] (ec_peer ?cl)" "ec_phase ?cl = Expecting rest" "ec_printed ?cl = printed"
    using assms(1) by (simp_all add: underway_def client_ready_def)
  then have "recv (hp_conn (ec_peer ?cl)) = (Returned data, ?c)"
    using readyD(2) [OF r(1)] by (simp add: recv_def)
  then have "echo_resume env ?cl = echo_send env rest ?cl'"
    using r(2,3) assms(2) by (simp add: echo_resume_def)
  moreover have "echoing lines (4 * length rest + 2) (client_turns (echo_send env rest ?cl') e)"
    by (rule echo_send_next [where printed = "printed @ [cur]"])
      (use assms ready_queue [OF r(1), of "[]"] in \<open>simp_all add: underway_def\<close>)
  ultimately show ?thesis by simp
qed

text \<open>The server's turn: the packet goes back; or the close is noticed and the handler ends.\<close>

lemma server_echoes:
  assumes "underway AtServer data printed rest e" and "length data \<le> FRAGMENT_SIZE"
  shows "underway ToClient data printed rest (server_turns env e)"
proof -
  have r: "ready (map Packet [data]) (es_peer e)" using assms(1) by (simp add: underway_def)
  from echo_handle_packets [OF r] obtain cs where cs: "echo_handle (hp_conn (es_peer e)) (hp_session (es_peer e)) =
      (Waits, (hp_conn (es_peer e))\<lparr>recv_queue := []\<rparr>, emit (map PeerCall cs) (hp_session (es_peer e)))"
      "sent True cs = [0 # data]" using short_fragments [OF assms(2)] by auto
  have "ready [] \<lparr>hp_session = emit (map PeerCall cs) (hp_session (es_peer e)), hp_conn = (hp_conn (es_peer e))\<lparr>recv_queue := []\<rparr>\<rparr>"
    using ready_queue [OF ready_log [OF r, of cs], of "[]"] by (simp add: ready_def)
  then show ?thesis using assms(1) cs by (simp add: underway_def server_turns_def Let_def)
qed

lemma server_ends:
  assumes "client_left lines e" and "server_closed [ClosedMark] (es_peer e)"
  shows "echoing lines 0 (server_turns env e)"
proof -
  let ?p = "es_peer e"
  have closed: "state (hp_session ?p) = CLOSED" "recv_queue (hp_conn ?p) = map Packet [] @ [ClosedMark]"
      "closed_error (hp_conn ?p) = Some (Known E_DATA_CHANNEL_CLOSED)"
    using assms(2) by (simp_all add: server_closed_def)
  from echo_handle_gone [OF closed] have "echo_handle (hp_conn ?p) (hp_session ?p) =
      (ClosedExn (Known E_DATA_CHANNEL_CLOSED), (hp_conn ?p)\<lparr>recv_queue := [ClosedMark]\<rparr>, hp_session ?p)" by simp
  then show ?thesis using assms(1) closed(1)
    by (intro ended) (simp_all add: server_turns_def client_left_def aclose_def Let_def)
qed

lemma underwayD:
  "underway pl data printed rest e \<Longrightarrow> es_handler e = None"
  "underway pl data printed rest e \<Longrightarrow> ec_phase (es_client e) = Expecting rest"
  "underway pl data printed rest e \<Longrightarrow> state (hp_session (es_peer e)) = CONNECTED"
  "underway pl data printed rest e \<Longrightarrow> recv_queue (hp_conn (ec_peer (es_client e))) = (if pl = AtClient then [Packet data] else [])"
  "underway pl data printed rest e \<Longrightarrow> recv_queue (hp_conn (es_peer e)) = (if pl = AtServer then [Packet data] else [])"
  "underway pl data printed rest e \<Longrightarrow> to_server e = (if pl = ToServer then [0 # data] else [])"
  "underway pl data printed rest e \<Longrightarrow> to_client e = (if pl = ToClient then [0 # data] else [])"
  by (simp_all add: underway_def client_ready_def ready_def)

lemma travels:
  assumes "echo_step env e e'" and "underway pl data printed rest e" and "list_all short_line lines"
    and "lines = printed @ cur # rest" and "utf8_encode cur = Inr data"
  shows "echoing lines (4 * length rest + distance pl + 1) e'"
proof -
  note at = underwayD [OF assms(2)]
  have "short_line cur" using assms(3,4) by simp
  from line_data [OF this] assms(5) have data: "length data \<le> FRAGMENT_SIZE" "utf8_decode data = Some cur" by auto
  from assms(1) show ?thesis
  proof (cases rule: echo_step.cases)
    case (client rest')
    then have pl: "pl = AtClient" using at(4) by (simp split: if_splits)
    from client_hears [OF assms(2) [unfolded pl] data(2) assms(4,3)] client(1) pl show ?thesis by simp
  next
    case server
    then have pl: "pl = AtServer" using at(5) by (simp split: if_splits)
    from on_the_way [OF assms(4,5) server_echoes [OF assms(2) [unfolded pl] data(1), of env]] server(1) pl
    show ?thesis by (simp add: numeral_eq_Suc)
  next
    case (at_server f fs)
    then have pl: "pl = ToServer" "f = 0 # data" "fs = []" using at(6) by (simp_all split: if_splits)
    have "underway AtServer data printed rest e'"
      using assms(2) arrives_ready [of "[]" "es_peer e" data env] by (simp add: at_server(1) pl underway_def)
    from on_the_way [OF assms(4,5) this] pl(1) show ?thesis by simp
  next
    case (at_client f fs)
    then have pl: "pl = ToClient" "f = 0 # data" "fs = []" using at(7) by (simp_all split: if_splits)
    have "underway AtClient data printed rest e'"
      using assms(2) arrives_ready [of "[]" "ec_peer (es_client e)" data env]
      by (simp add: at_client(1) pl underway_def client_ready_def)
    from on_the_way [OF assms(4,5) this] pl(1) show ?thesis by simp
  next
    case (hangup r)
    then show ?thesis using at(2) by simp
  qed
qed

lemma hangs_up:
  assumes "client_left lines e" and "ready [] (es_peer e)" and "es_handler e = None" and "echo_step env e e'"
  shows "echoing lines 1 e'"
  using assms(4)
proof (cases rule: echo_step.cases)
  case (hangup r)
  have "gone (lit ''closed'')" by (simp add: gone_def)
  note closed = gone_closes [OF assms(2) this refl, of env]
  show ?thesis
    unfolding hangup(1) by (rule noticed) (use assms(1,3) closed in \<open>simp_all add: client_left_def server_closed_def\<close>)
qed (use assms readyD(2) [OF assms(2)] in \<open>simp_all add: client_left_def\<close>)

lemma notices:
  assumes "client_left lines e" and "server_closed [ClosedMark] (es_peer e)" and "echo_step env e e'"
  shows "echoing lines 0 e'"
  using assms(3)
proof (cases rule: echo_step.cases)
  case server
  with server_ends [OF assms(1,2)] show ?thesis by simp
qed (use assms in \<open>simp_all add: client_left_def server_closed_def\<close>)

lemma echoing_step:
  assumes "echoing lines n e" and "echo_step env e e'" and "list_all short_line lines"
  shows "\<exists>m. n = Suc m \<and> echoing lines m e'"
  using assms(1)
proof (cases rule: echoing.cases)
  case (on_the_way printed cur rest data pl)
  then show ?thesis using travels [OF assms(2) on_the_way(4) assms(3) on_the_way(2,3)] by simp
next
  case left
  then show ?thesis using hangs_up [OF _ _ _ assms(2)] by (intro exI [of _ 1]) simp
next
  case noticed
  then show ?thesis using notices [OF _ _ assms(2)] by simp
next
  case ended
  then show ?thesis using assms(2) by (auto simp: client_left_def elim!: echo_stepE)
qed

lemma echoing_moves:
  assumes "echoing lines (Suc n) e"
  shows "\<exists>e'. echo_step env e e'"
  using assms
proof (cases rule: echoing.cases)
  case (on_the_way printed cur rest data pl)
  note at = underwayD [OF on_the_way(4)]
  show ?thesis
  proof (cases pl)
    case ToServer
    with at(6) have "to_server e = (0 # data) # []" by simp
    then show ?thesis by (blast intro: echo_step.at_server)
  next
    case AtServer
    with at(5) have "recv_queue (hp_conn (es_peer e)) \<noteq> []" by simp
    with at(1) show ?thesis by (blast intro: echo_step.server)
  next
    case ToClient
    with at(7) have "to_client e = (0 # data) # []" by simp
    then show ?thesis by (blast intro: echo_step.at_client)
  next
    case AtClient
    with at(4) have "recv_queue (hp_conn (ec_peer (es_client e))) \<noteq> []" by simp
    with at(2) show ?thesis by (blast intro: echo_step.client)
  qed
next
  case left
  then show ?thesis using readyD(1) [of "[]" "es_peer e"] by (auto simp: client_left_def intro: echo_step.hangup)
next
  case noticed
  then have "recv_queue (hp_conn (es_peer e)) \<noteq> []" by (simp add: server_closed_def)
  with noticed(4) show ?thesis by (blast intro: echo_step.server)
qed

lemma echoing_start:
  assumes "ready [] p" and "ready [] q" and "list_all short_line lines"
  shows "echoing lines (4 * length lines + 2) (echo_start env lines p q)"
  unfolding echo_start_def Let_def
  by (rule echo_send_next [where printed = "[]", OF _ _ _ _ _ _ _ _ refl]) (use assms in simp_all)

lemma echoing_run:
  "(echo_step env ^^ n) e e' \<Longrightarrow> echoing lines m e \<Longrightarrow> list_all short_line lines \<Longrightarrow> n \<le> m \<and> echoing lines (m - n) e'"
proof (induction n arbitrary: e')
  case (Suc n)
  then obtain f where f: "(echo_step env ^^ n) e f" "echo_step env f e'" by auto
  with Suc have "n \<le> m" "echoing lines (m - n) f" by simp_all
  with echoing_step [OF this(2) f(2) Suc.prems(3)] obtain k where "m - n = Suc k" "echoing lines k e'" by blast
  moreover from this(1) have "Suc n \<le> m" "m - Suc n = k" by simp_all
  ultimately show ?case by simp
qed simp

text \<open>From every such state there is a run to the end.\<close>

lemma echoing_reaches:
  "echoing lines m e \<Longrightarrow> list_all short_line lines \<Longrightarrow> \<exists>e'. (echo_step env ^^ m) e e'"
proof (induction m arbitrary: e)
  case (Suc m)
  from echoing_moves [OF Suc.prems(1)] obtain f where "echo_step env e f" by blast
  moreover from this echoing_step [OF Suc.prems(1) _ Suc.prems(2)] have "echoing lines m f" by blast
  with Suc.IH Suc.prems(2) obtain e' where "(echo_step env ^^ m) f e'" by blast
  ultimately show ?case by (metis relpowp_Suc_I2)
qed auto

lemma greetings_short: "list_all short_line greetings"
proof -
  have "is_ascii l \<Longrightarrow> length l \<le> FRAGMENT_SIZE \<Longrightarrow> short_line l" for l
    using utf8_encode_ascii [of l] by (simp add: short_line_def)
  then show ?thesis by (simp add: greetings_def FRAGMENT_SIZE_def lit_def is_ascii_def)
qed

text \<open>Every run from the start ends, with this result. It is used for the property below and for the programs.\<close>

lemma echo_ends:
  assumes "ready [] p" and "ready [] q" and "list_all short_line lines"
    and "(echo_step env ^^ n) (echo_start env lines p q) e"
  shows "n \<le> 4 * length lines + 2 \<and> prefix (ec_printed (es_client e)) lines \<and>
    ((\<nexists>e'. echo_step env e e') \<longleftrightarrow> n = 4 * length lines + 2) \<and>
    (n = 4 * length lines + 2 \<longrightarrow> ec_phase (es_client e) = Leaving EchoDone \<and> ec_printed (es_client e) = lines \<and>
      es_handler e = Some (ClosedExn (Known E_DATA_CHANNEL_CLOSED)))"
proof -
  let ?m = "4 * length lines + 2 - n"
  have run: "n \<le> 4 * length lines + 2" "echoing lines ?m e"
    using echoing_run [OF assms(4) echoing_start [OF assms(1-3)] assms(3)] by simp_all
  have "prefix (ec_printed (es_client e)) lines"
    using run(2) by (cases rule: echoing.cases) (auto simp: underway_def client_ready_def client_left_def prefix_def)
  moreover have "(\<nexists>e'. echo_step env e e') \<longleftrightarrow> ?m = 0"
  proof (cases ?m)
    case 0
    with echoing_step [OF run(2) _ assms(3)] show ?thesis by (metis nat.distinct(1))
  next
    case (Suc k)
    then have "echoing lines (Suc k) e" using run(2) by simp
    from echoing_moves [OF this] Suc show ?thesis by simp
  qed
  moreover have "ec_phase (es_client e) = Leaving EchoDone \<and> ec_printed (es_client e) = lines \<and>
      es_handler e = Some (ClosedExn (Known E_DATA_CHANNEL_CLOSED))" if "?m = 0"
    using run(2) unfolding that by (cases rule: echoing.cases) (simp_all add: client_left_def)
  ultimately show ?thesis using run(1) by auto
qed

section \<open>Properties\<close>

text \<open>
  C6: the echo programs do what they are for. Once the client and the server are connected, every way of
  interleaving their coroutines and the arrival of the fragments comes to an end, after exactly four
  steps for each line and two for the goodbye; the client has then printed each of its lines as a reply,
  in order, and has left, and the server's handler has ended because the client is gone. No run gets
  stuck before that, and what has been printed so far is always a beginning of the lines.
\<close>

theorem echo_completes:
  assumes "ready [] p" and "ready [] q" and "list_all short_line lines"
    and "(echo_step env ^^ n) (echo_start env lines p q) e"
  shows "n \<le> 4 * length lines + 2 \<and> prefix (ec_printed (es_client e)) lines \<and>
    ((\<nexists>e'. echo_step env e e') \<longleftrightarrow> n = 4 * length lines + 2) \<and>
    (n = 4 * length lines + 2 \<longrightarrow> ec_phase (es_client e) = Leaving EchoDone \<and> ec_printed (es_client e) = lines \<and>
      es_handler e = Some (ClosedExn (Known E_DATA_CHANNEL_CLOSED)))"
  by (rule echo_ends [OF assms])

theorem echo_completes_witness:
  "\<exists>(p :: nat http_peer) q e. (echo_step example_platform ^^ 14) (echo_start example_platform greetings p q) e \<and>
     ec_printed (es_client e) = greetings \<and> ec_phase (es_client e) = Leaving EchoDone"
proof -
  obtain p q :: "nat http_peer" where peers: "ready [] p" "ready [] q" using example_peers by blast
  have "echoing greetings 14 (echo_start example_platform greetings p q)"
    using echoing_start [OF peers greetings_short] by (simp add: greetings_def)
  then obtain e where e: "(echo_step example_platform ^^ 14) (echo_start example_platform greetings p q) e"
    using echoing_reaches greetings_short by blast
  from echo_completes [OF peers greetings_short e] e show ?thesis
    by (intro exI [of _ p] exI [of _ q] exI [of _ e]) (simp add: greetings_def)
qed

text \<open>
  C37: the echo handler. While its connection is open it sends every queued packet back, in order and in the
  fragments of \<open>push\<close>, and waits for more. When the other peer is gone, the loop does not end: the
  handler raises \<open>ConnectionClosed\<close> with \<open>DATA_CHANNEL_CLOSED\<close>, from \<open>__anext__\<close>, or from \<open>send\<close> for the
  first packet that is still queued; the packets behind it stay unread and what follows the loop does
  not run.
\<close>

theorem echo_handler:
  assumes "ready (map Packet ps) p" and "gone st" and "p' = peer_step env p (ConnectionState st)"
  shows "(case echo_handle (hp_conn p) (hp_session p) of (r, c, s) \<Rightarrow>
      r = Waits \<and> recv_queue c = [] \<and> wire (hp_session p) s = concat (map fragments_of ps)) \<and>
    (case echo_handle (hp_conn p') (hp_session p') of (r, c, s) \<Rightarrow>
      r = ClosedExn (Known E_DATA_CHANNEL_CLOSED) \<and> recv_queue c = map Packet (tl ps) @ [ClosedMark] \<and>
      s = hp_session p')"
proof
  show "case echo_handle (hp_conn p) (hp_session p) of (r, c, s) \<Rightarrow>
      r = Waits \<and> recv_queue c = [] \<and> wire (hp_session p) s = concat (map fragments_of ps)"
    using echo_handle_packets [OF assms(1)] by auto
  note gone = gone_closes [OF assms]
  show "case echo_handle (hp_conn p') (hp_session p') of (r, c, s) \<Rightarrow>
      r = ClosedExn (Known E_DATA_CHANNEL_CLOSED) \<and> recv_queue c = map Packet (tl ps) @ [ClosedMark] \<and>
      s = hp_session p'"
    using echo_handle_gone [OF gone] by (cases ps) simp_all
qed

theorem echo_handler_witness:
  "\<exists>p :: nat http_peer. state (hp_session p) = CONNECTED \<and>
     (case peer_step example_platform p (ConnectionState (lit ''failed'')) of p' \<Rightarrow>
        fst (echo_handle (hp_conn p') (hp_session p')) = ClosedExn (Known E_DATA_CHANNEL_CLOSED))"
proof -
  obtain p q :: "nat http_peer" where "ready [] p" "ready [] q" using example_peers by blast
  then have "ready (map Packet []) p" "state (hp_session p) = CONNECTED" by (simp_all add: readyD)
  with echo_handler [OF this(1) _ refl, of "lit ''failed''" example_platform] show ?thesis
    by (intro exI [of _ p]) (auto simp: gone_def split: prod.splits)
qed

text \<open>However the client's loop ends, the \<open>async with\<close> has closed its session.\<close>

theorem echo_client_closes:
  "(case ec_phase (echo_send env todo cl) of Expecting rest \<Rightarrow> True
    | Leaving r \<Rightarrow> state (hp_session (ec_peer (echo_send env todo cl))) = CLOSED) \<and>
   (case ec_phase cl of Leaving r \<Rightarrow> echo_resume env cl = cl \<and> echo_timeout env cl = cl
    | Expecting rest \<Rightarrow>
        (case ec_phase (echo_resume env cl) of Expecting rest' \<Rightarrow> True
         | Leaving r \<Rightarrow> state (hp_session (ec_peer (echo_resume env cl))) = CLOSED) \<and>
        ec_phase (echo_timeout env cl) = Leaving EchoTimedOut \<and>
        state (hp_session (ec_peer (echo_timeout env cl))) = CLOSED)"
proof -
  have leaves: "state (hp_session (ec_peer (echo_leave env r x))) = CLOSED" "ec_phase (echo_leave env r x) = Leaving r"
    for r x
    by (simp_all add: echo_leave_def aclose_def close_def cancel_timeout_def Let_def)
  have send: "ec_phase (echo_send env todo x) = Leaving r \<Longrightarrow> state (hp_session (ec_peer (echo_send env todo x))) = CLOSED"
    for todo x r
    by (auto simp: echo_send_def leaves Let_def split: list.splits sum.splits prod.splits if_splits)
  show ?thesis
    by (auto simp: echo_resume_def echo_timeout_def leaves Let_def send
        split: echo_phase.split prod.split outcome.split option.split)
qed

end
