(* ===== verification/Options.thy ===== *)
theory Options
  imports Api
begin

text \<open>
  The keyword arguments of the LAN entry points with their defaults (\<open>constants.py\<close>), what \<open>LanTransport\<close>
  makes of them, the entry points \<open>connect\<close>, \<open>serve\<close> and \<open>discover\<close> of \<open>api.py\<close> over them, and the
  programs of \<open>examples/\<close> that pass them: the addresses at which they look for each other.
\<close>

section \<open>constants.py\<close>

text \<open>The two times are floats, both of them whole numbers of seconds.\<close>

definition DEFAULT_BROADCAST_PORT :: int where "DEFAULT_BROADCAST_PORT = 7551"
definition DEFAULT_APPLICATION_ID :: int where "DEFAULT_APPLICATION_ID = 0xDEADBEEF"
definition DEFAULT_BROADCAST_INTERVAL :: int where "DEFAULT_BROADCAST_INTERVAL = 2"
definition DEFAULT_NEGOTIATION_TIMEOUT :: int where "DEFAULT_NEGOTIATION_TIMEOUT = 10"

section \<open>Keyword arguments\<close>

text \<open>The times are not among them here: a round of the broadcast and a timeout are events of any moment.\<close>

type_synonym address = "pystr \<times> int"

record lan_options =
  opt_application_id :: int
  opt_port :: int
  opt_bind_host :: pystr
  opt_broadcast_host :: pystr
  opt_broadcast_port :: "int option"

definition default_options :: lan_options where
  "default_options =
     \<lparr>opt_application_id = DEFAULT_APPLICATION_ID, opt_port = DEFAULT_BROADCAST_PORT, opt_bind_host = [],
      opt_broadcast_host = lit ''255.255.255.255'', opt_broadcast_port = None\<rparr>"

definition broadcast_target :: "lan_options \<Rightarrow> address" where
  "broadcast_target o' =
     (let target_port = (case opt_broadcast_port o' of None \<Rightarrow> opt_port o' | Some p \<Rightarrow> p)
      in (opt_broadcast_host o', target_port))"

text \<open>What \<open>start\<close> gives to \<open>bind\<close>.\<close>

definition bind_address :: "lan_options \<Rightarrow> address" where
  "bind_address o' = (opt_bind_host o', opt_port o')"

section \<open>The entry points\<close>

definition lan_endpoint :: "network_id \<Rightarrow> lan_options \<Rightarrow> bytes option \<Rightarrow> bool \<Rightarrow> (address, 'c) endpoint result" where
  "lan_endpoint local o' ad relay =
     rbind (new_transport local (opt_application_id o') (broadcast_target o') ad True True True True relay)
       (\<lambda>t. Inr (new_endpoint t))"

definition lan_connect ::
    "crypto_lib \<Rightarrow> (nat \<Rightarrow> nat option) \<Rightarrow> (pystr \<Rightarrow> 'c option) \<Rightarrow> network_id option \<Rightarrow> 64 word \<Rightarrow> lan_options \<Rightarrow>
     int \<Rightarrow> address remote \<Rightarrow> 64 word \<Rightarrow> bool \<Rightarrow> (address endpoint_effect list \<times> (address, 'c) dial) result" where
  "lan_connect lib udec from_sdp lid id_bits o' bound remote bits relay =
     start_dial lib udec from_sdp lid id_bits (opt_application_id o') (broadcast_target o') bound remote bits relay"

definition lan_serve ::
    "network_id \<Rightarrow> bytes option \<Rightarrow> lan_options \<Rightarrow> bool \<Rightarrow> bool \<Rightarrow> (address, 'c) server result" where
  "lan_serve local ad o' broadcast relay =
     rbind (lan_endpoint local o' ad relay) (\<lambda>e. Inr (serve (e_transport e) broadcast))"

text \<open>\<open>_Endpoint.broadcast_request\<close> goes to the LAN endpoint past the transport.\<close>

definition endpoint_broadcast ::
    "crypto_lib \<Rightarrow> ('a, 'c) endpoint \<Rightarrow> ('a endpoint_effect list \<times> ('a, 'c) endpoint) result" where
  "endpoint_broadcast lib e =
     rbind (broadcast_request lib (t_lan (e_transport e))) (\<lambda>es.
       let (out, t) = run_out run_lan_effect (e_transport e) es
       in Inr (run_out (run_transport_effect (\<lambda>i. cid (session_at i (t_manager t)))) (e\<lparr>e_transport := t\<rparr>) out))"

text \<open>\<open>discover\<close> up to its loop: an endpoint for a local id (given or drawn at random), its socket, the request.\<close>

definition begin_lan_discover ::
    "crypto_lib \<Rightarrow> (nat \<Rightarrow> nat option) \<Rightarrow> (pystr \<Rightarrow> 'c option) \<Rightarrow> network_id option \<Rightarrow> 64 word \<Rightarrow> lan_options \<Rightarrow>
     int \<Rightarrow> (address endpoint_effect list \<times> (address, 'c) endpoint) result" where
  "begin_lan_discover lib udec from_sdp lid id_bits o' bound =
     rbind (case lid of Some nid \<Rightarrow> Inr nid | None \<Rightarrow> p2p (new_connection_id id_bits)) (\<lambda>local.
     rbind (lan_endpoint local o' None False) (\<lambda>e.
       let (out, e1) = drive lib udec from_sdp (TStart bound) e in
       rbind (endpoint_broadcast lib e1) (\<lambda>(out', e2). Inr (out @ out', e2))))"

text \<open>
  The whole generator: \<open>arrivals\<close> are the datagrams that its socket receives while it runs. Round \<open>n\<close> of
  the loop gets the \<open>n\<close>-th host of the queue, or times out when there are no more. At the end, the
  \<open>finally\<close> block closes the endpoint.
\<close>

definition queued_host :: "('a, 'c) endpoint \<Rightarrow> nat \<Rightarrow> 'a discovered_host option" where
  "queued_host e n = (if n < length (host_queue e) then Some (host_queue e ! n) else None)"

definition lan_discover ::
    "crypto_lib \<Rightarrow> (nat \<Rightarrow> nat option) \<Rightarrow> (pystr \<Rightarrow> 'c option) \<Rightarrow> network_id option \<Rightarrow> 64 word \<Rightarrow> lan_options \<Rightarrow>
     int \<Rightarrow> int \<Rightarrow> (nat \<Rightarrow> int) \<Rightarrow> (bytes \<times> address) list \<Rightarrow>
     (address endpoint_effect list \<times> address discovered_host list option \<times> (address, 'c) endpoint) result" where
  "lan_discover lib udec from_sdp lid id_bits o' bound deadline clock arrivals =
     rbind (begin_lan_discover lib udec from_sdp lid id_bits o' bound) (\<lambda>(out, e).
       let (out1, e1) = run_out (\<lambda>e (data, addr). drive lib udec from_sdp (TDatagram data addr) e) e arrivals;
           hosts = discover_loop deadline clock (queued_host e1) 0 [];
           (out2, e2) = drive lib udec from_sdp TAclose e1
       in Inr (out @ out1 @ out2, hosts, e2))"

section \<open>The programs\<close>

definition loopback_host :: pystr where "loopback_host = lit ''127.0.0.1''"

text \<open>\<open>transport_options\<close> of \<open>echo_client.py\<close>: what the dictionary overrides.\<close>

definition transport_options :: "int \<Rightarrow> int \<Rightarrow> bool \<Rightarrow> lan_options" where
  "transport_options prt app loopback =
     (if \<not> loopback then default_options\<lparr>opt_port := prt, opt_application_id := app\<rparr>
      else default_options\<lparr>opt_port := 0, opt_application_id := app, opt_bind_host := loopback_host,
             opt_broadcast_host := loopback_host, opt_broadcast_port := Some prt\<rparr>)"

text \<open>\<open>main\<close> of \<open>echo_server.py\<close>.\<close>

definition advertisement_text :: pystr where
  "advertisement_text = lit ''MCPE;NetherNet-Python;0;0.0.0;0;10;''"

definition echo_server_options :: "int \<Rightarrow> int \<Rightarrow> bool \<Rightarrow> lan_options" where
  "echo_server_options prt app loopback =
     default_options\<lparr>opt_port := prt, opt_application_id := app, opt_bind_host := (if loopback then loopback_host else [])\<rparr>"

definition echo_server :: "64 word \<Rightarrow> int \<Rightarrow> int \<Rightarrow> bool \<Rightarrow> (address, 'c) server result" where
  "echo_server id_bits prt app loopback =
     rbind (p2p (uint id_bits)) (\<lambda>local.
       lan_serve local (Some (map of_nat advertisement_text)) (echo_server_options prt app loopback) True False)"

text \<open>\<open>main\<close> of \<open>echo_client.py\<close> up to the connection: the hosts that it finds, and the dial of the first.\<close>

definition echo_client_find ::
    "crypto_lib \<Rightarrow> (nat \<Rightarrow> nat option) \<Rightarrow> (pystr \<Rightarrow> 'c option) \<Rightarrow> 64 word \<Rightarrow> int \<Rightarrow> int \<Rightarrow> bool \<Rightarrow> int \<Rightarrow> int \<Rightarrow> (nat \<Rightarrow> int) \<Rightarrow>
     (bytes \<times> address) list \<Rightarrow> (address endpoint_effect list \<times> address discovered_host list option \<times> (address, 'c) endpoint) result" where
  "echo_client_find lib udec from_sdp id_bits prt app loopback bound deadline clock arrivals =
     lan_discover lib udec from_sdp None id_bits (transport_options prt app loopback) bound deadline clock arrivals"

definition echo_client_dial ::
    "crypto_lib \<Rightarrow> (nat \<Rightarrow> nat option) \<Rightarrow> (pystr \<Rightarrow> 'c option) \<Rightarrow> 64 word \<Rightarrow> int \<Rightarrow> int \<Rightarrow> bool \<Rightarrow> int \<Rightarrow> 64 word \<Rightarrow>
     address discovered_host list \<Rightarrow> (address endpoint_effect list \<times> (address, 'c) dial) result option" where
  "echo_client_dial lib udec from_sdp id_bits prt app loopback bound bits found =
     (case found of
        [] \<Rightarrow> None                            \<comment> \<open>\<open>no hosts found\<close>\<close>
      | host # _ \<Rightarrow>
          Some (lan_connect lib udec from_sdp None id_bits (transport_options prt app loopback) bound (RemoteHost host) bits False))"

text \<open>\<open>main\<close> of \<open>discover_hosts.py\<close>: the lines that it prints for the hosts, and their number.\<close>

definition discover_hosts_options :: "int \<Rightarrow> int \<Rightarrow> bool \<Rightarrow> lan_options" where
  "discover_hosts_options prt app loopback =
     (let options = default_options\<lparr>opt_port := prt, opt_application_id := app\<rparr> in
      if loopback
      then default_options\<lparr>opt_port := 0, opt_application_id := app, opt_bind_host := loopback_host,
             opt_broadcast_host := loopback_host, opt_broadcast_port := Some prt\<rparr>
      else options)"

definition discover_hosts ::
    "crypto_lib \<Rightarrow> (nat \<Rightarrow> nat option) \<Rightarrow> (pystr \<Rightarrow> 'c option) \<Rightarrow> 64 word \<Rightarrow> int \<Rightarrow> int \<Rightarrow> bool \<Rightarrow> int \<Rightarrow> int \<Rightarrow> (nat \<Rightarrow> int) \<Rightarrow>
     (bytes \<times> address) list \<Rightarrow>
     (address endpoint_effect list \<times> ((pystr \<times> address \<times> bytes) list \<times> nat) option \<times> (address, 'c) endpoint) result" where
  "discover_hosts lib udec from_sdp id_bits prt app loopback bound deadline clock arrivals =
     rbind (lan_discover lib udec from_sdp None id_bits (discover_hosts_options prt app loopback) bound deadline clock arrivals)
       (\<lambda>(out, found, e). Inr (out,
          map_option (\<lambda>hs. (map (\<lambda>h. (str_network_id (host_id h), host_address h, host_advertisement h)) hs,
            length hs)) found, e))"

section \<open>Endpoints for a peer\<close>

lemma new_id_range [simp]: "in_range 8 (uint (w :: 64 word))" "p2p (new_connection_id w) = Inr (mk_p2p (uint w))"
proof -
  show "in_range 8 (uint w)" using uint_lt2p [of w] by (simp add: in_range_def)
  then show "p2p (new_connection_id w) = Inr (mk_p2p (uint w))" by (simp add: new_connection_id_def p2p_in_range)
qed

definition peer_of :: "int \<Rightarrow> address \<Rightarrow> bytes option \<Rightarrow> envelope \<Rightarrow> (address, 'c) transport \<Rightarrow> bool" where
  "peer_of lid target ad env t \<longleftrightarrow> t_advertisement t = ad \<and> t_on_host_discovered t \<and>
     lan_ok (t_lan t) \<and> lan_envelope (t_lan t) = env \<and> local_id (t_lan t) = lid \<and>
     broadcast_addr (t_lan t) = target \<and> has_on_host_discovered (t_lan t)"

lemma peer_of_started:
  "peer_of lid target ad env (t\<lparr>t_lan := lan_start bound (t_lan t)\<rparr>) = peer_of lid target ad env t"
  "peer_of lid target ad env (t\<lparr>t_lan := lan_start_broadcasting (t_lan t)\<rparr>) = peer_of lid target ad env t"
  by (simp_all add: peer_of_def lan_start_def connection_made_def lan_start_broadcasting_def lan_ok_def)

lemma lan_endpoint_ok:
  assumes "in_range 8 lid" and "new_envelope (opt_application_id o') = Inr env"
  obtains t where "lan_endpoint (mk_p2p lid) o' ad relay = Inr (new_endpoint t)"
    and "peer_of lid (broadcast_target o') ad env t" and "t_manager t = new_manager True True True relay"
    and "new_transport (mk_p2p lid) (opt_application_id o') (broadcast_target o') ad True True True True relay = Inr t"
proof -
  obtain l where l: "new_lan lid (opt_application_id o') (broadcast_target o') True True = Inr l"
      "lan_envelope l = env" "local_id l = lid" "broadcast_addr l = broadcast_target o'" "has_on_host_discovered l"
    using assms(2) by (simp add: new_lan_def)
  note ok = new_lan_ok [OF l(1) assms(1)]
  show thesis
    by (rule that) (use l ok in \<open>simp_all add: lan_endpoint_def new_transport_def mk_p2p_def peer_of_def\<close>)
qed

lemma drive_start:
  "drive lib udec from_sdp (TStart bound) e =
     ([], e\<lparr>e_transport := (e_transport e)\<lparr>t_lan := lan_start bound (t_lan (e_transport e))\<rparr>\<rparr>)"
  "drive lib udec from_sdp TStartBroadcasting e =
     ([], e\<lparr>e_transport := (e_transport e)\<lparr>t_lan := lan_start_broadcasting (t_lan (e_transport e))\<rparr>\<rparr>)"
  by (simp_all add: drive_def)

text \<open>\<open>discover\<close> sends one request, to the broadcast target.\<close>

lemma discover_begins:
  fixes udec and from_sdp :: "pystr \<Rightarrow> 'c option"
  assumes "library_ok lib" and "new_envelope (opt_application_id o') = Inr env"
  obtains request and e :: "(address, 'c) endpoint"
    where "begin_lan_discover lib udec from_sdp None bits o' bound = Inr ([EWire request (broadcast_target o')], e)"
      and "peer_of (uint bits) (broadcast_target o') None env (e_transport e)" and "transport (t_lan (e_transport e))"
      and "host_queue e = []" and "broadcast_request lib (t_lan (e_transport e)) = Inr [SendTo request (broadcast_target o')]"
proof -
  obtain t :: "(address, 'c) transport" where t: "lan_endpoint (mk_p2p (uint bits)) o' None False = Inr (new_endpoint t)"
      "peer_of (uint bits) (broadcast_target o') None env t"
    using lan_endpoint_ok [OF new_id_range(1) assms(2)] by metis
  define t' where "t' = t\<lparr>t_lan := lan_start bound (t_lan t)\<rparr>"
  have t': "peer_of (uint bits) (broadcast_target o') None env t'" "transport (t_lan t')"
    using t(2) by (simp add: t'_def peer_of_started, simp add: t'_def lan_start_def connection_made_def)
  have "wf_envelope (lan_envelope (t_lan t'))" "in_range 8 (local_id (t_lan t'))"
    using t'(1) by (auto simp: peer_of_def lan_ok_def)
  then obtain request where r: "broadcast_request lib (t_lan t') = Inr [SendTo request (broadcast_target o')]"
    using send_packet_opens [OF assms(1) _ t'(2), of "DiscoveryRequest (local_id (t_lan t'))" "broadcast_target o'"] t'(1)
    by (auto simp: broadcast_request_def peer_of_def)
  show thesis
  proof (rule that)
    show "begin_lan_discover lib udec from_sdp None bits o' bound =
        Inr ([EWire request (broadcast_target o')], (new_endpoint t)\<lparr>e_transport := t'\<rparr>)"
      using t(1) r by (simp add: begin_lan_discover_def drive_start endpoint_broadcast_def t'_def new_endpoint_def)
  qed (use t' r in \<open>simp_all add: new_endpoint_def\<close>)
qed

text \<open>A response puts its host into the queue.\<close>

lemma response_queued:
  assumes "on_datagram lib (Some (t_advertisement (e_transport e))) data addr (t_lan (e_transport e)) =
      (Inr [HostDiscovered nid ad host], l)"
    and "t_on_host_discovered (e_transport e)"
  shows "host_queue (snd (drive lib udec from_sdp (TDatagram data addr) e)) =
    host_queue e @ [\<lparr>host_id = nid, host_advertisement = ad, host_address = host\<rparr>]"
  using assms by (simp add: drive_def on_lan_datagram_def lan_call_def on_host_discovered_def)

lemma discover_one:
  assumes "\<And>n. clock n < deadline" and "host_queue e = [h]"
  shows "discover_loop deadline clock (queued_host e) 0 [] = Some [h]"
proof -
  have "discover_loop deadline clock (queued_host e) 0 [] = Some (firsts [] (map (\<lambda>i. the (queued_host e i)) [0..<1]))"
    by (rule discover_rounds) (use assms in \<open>auto simp: stops_def queued_host_def not_le\<close>)
  then show ?thesis using assms(2) by (simp add: queued_host_def)
qed

lemma discover_none:
  assumes "host_queue e = []"
  shows "discover_loop deadline clock (queued_host e) 0 [] = Some []"
  by (rule discover_stop) (use assms in \<open>simp add: stops_def queued_host_def\<close>)

text \<open>The dial of a discovered host knows the address of the host.\<close>

lemma dial_knows:
  fixes udec and from_sdp :: "pystr \<Rightarrow> 'c option"
  assumes "new_envelope (opt_application_id o') = Inr env"
  shows "\<exists>d. lan_connect lib udec from_sdp None id_bits o' bound (RemoteHost h) bits False = Inr ([], d) \<and>
    d_phase d = Dialing \<and> peers (t_lan (e_transport (d_endpoint d))) (nid_value (host_id h)) = Some (host_address h)"
proof -
  obtain t :: "(address, 'c) transport" where t: "t_manager t = new_manager True True True False"
      "new_transport (mk_p2p (uint id_bits)) (opt_application_id o') (broadcast_target o') None True True True True False = Inr t"
    using lan_endpoint_ok [OF new_id_range(1) assms] by metis
  have "mgr_log (mgr_connect udec from_sdp (host_id h) (new_connection_id bits) (new_manager True True True False)) = []"
    by (rule dialing_manager(1))
  then show ?thesis
    using t by (simp add: lan_connect_def start_dial_def drive_def transport_connect_def manager_call_def Let_def
        new_endpoint_def remember_remote_def remote_network_id_def new_manager_def remember_peer_def)
qed

text \<open>The program \<open>discover_hosts.py\<close> reports the hosts that \<open>echo_client.py\<close> would find.\<close>

lemma discover_hosts_finds:
  "discover_hosts_options prt app loopback = transport_options prt app loopback"
  "echo_client_find lib udec from_sdp id_bits prt app loopback bound deadline clock arrivals = Inr (out, Some found, e) \<Longrightarrow>
   discover_hosts lib udec from_sdp id_bits prt app loopback bound deadline clock arrivals =
     Inr (out, Some (map (\<lambda>h. (str_network_id (host_id h), host_address h, host_advertisement h)) found, length found), e)"
proof -
  show same: "discover_hosts_options prt app loopback = transport_options prt app loopback"
    by (simp add: discover_hosts_options_def transport_options_def Let_def)
  show "echo_client_find lib udec from_sdp id_bits prt app loopback bound deadline clock arrivals = Inr (out, Some found, e) \<Longrightarrow>
     discover_hosts lib udec from_sdp id_bits prt app loopback bound deadline clock arrivals =
       Inr (out, Some (map (\<lambda>h. (str_network_id (host_id h), host_address h, host_advertisement h)) found, length found), e)"
    by (simp add: discover_hosts_def same echo_client_find_def)
qed

section \<open>Properties\<close>

lemma echo_targets:
  "snd (broadcast_target (transport_options prt app loopback)) = prt"
  "snd (bind_address (echo_server_options prt app loopback)) = prt"
  "loopback \<Longrightarrow> broadcast_target (transport_options prt app loopback) = bind_address (echo_server_options prt app loopback)"
  "opt_application_id (transport_options prt app loopback) = app"
  "opt_application_id (echo_server_options prt app loopback) = app"
  by (simp_all add: broadcast_target_def bind_address_def transport_options_def echo_server_options_def default_options_def)

lemma echo_server_listens:
  fixes udec and from_sdp :: "pystr \<Rightarrow> 'c option"
  assumes "new_envelope app = Inr env"
  obtains srv :: "(address, 'c) server" where "echo_server bits prt app loopback = Inr srv"
    and "\<And>bound out s. server_start lib udec from_sdp bound srv = (out, s) \<Longrightarrow>
      peer_of (uint bits) (broadcast_target (echo_server_options prt app loopback)) (Some (map of_nat advertisement_text)) env
        (e_transport (s_endpoint s)) \<and> transport (t_lan (e_transport (s_endpoint s)))"
proof -
  let ?o = "echo_server_options prt app loopback" and ?ad = "Some (map of_nat advertisement_text) :: bytes option"
  have "new_envelope (opt_application_id ?o) = Inr env" using assms by (simp add: echo_targets)
  then obtain t :: "(address, 'c) transport" where t: "lan_endpoint (mk_p2p (uint bits)) ?o ?ad False = Inr (new_endpoint t)"
      "peer_of (uint bits) (broadcast_target ?o) ?ad env t"
    using lan_endpoint_ok [OF new_id_range(1)] by metis
  have "echo_server bits prt app loopback = Inr (serve t True)"
    using t(1) new_id_range(2) [of bits] by (simp add: echo_server_def lan_serve_def new_endpoint_def new_connection_id_def)
  then show thesis
    by (rule that) (use t(2) in \<open>auto simp: server_start_def serve_def new_endpoint_def drive_start peer_of_def
        lan_ok_def lan_start_def lan_start_broadcasting_def connection_made_def\<close>)
qed

text \<open>The exchange of the request and its answer.\<close>

lemma programs_exchange:
  fixes udec and from_sdp :: "pystr \<Rightarrow> 'c option"
  assumes "library_ok lib" and "new_envelope app = Inr env" and "client_bits \<noteq> server_bits"
  obtains request reply and srv :: "(address, 'c) server" and e :: "(address, 'c) endpoint"
    where "begin_lan_discover lib udec from_sdp None client_bits (transport_options prt app loopback) bound =
        Inr ([EWire request (broadcast_target (transport_options prt app loopback))], e)"
      and "host_queue e = []" and "echo_server server_bits prt app loopback = Inr srv"
      and "fst (server_step lib udec from_sdp (snd (server_step lib udec from_sdp srv (SStart prt)))
        (SEndpoint (Drive (TDatagram request from)))) = [EWire reply from]"
      and "host_queue (snd (drive lib udec from_sdp (TDatagram reply host) e)) =
        [\<lparr>host_id = mk_p2p (uint server_bits), host_advertisement = map of_nat advertisement_text, host_address = host\<rparr>]"
proof -
  let ?o = "transport_options prt app loopback" and ?ad = "map of_nat advertisement_text :: bytes"
  have envs: "new_envelope (opt_application_id ?o) = Inr env" using assms(2) by (simp add: echo_targets)
  obtain request and e :: "(address, 'c) endpoint" where
      e: "begin_lan_discover lib udec from_sdp None client_bits ?o bound = Inr ([EWire request (broadcast_target ?o)], e)"
        "peer_of (uint client_bits) (broadcast_target ?o) None env (e_transport e)" "transport (t_lan (e_transport e))"
        "host_queue e = []" "broadcast_request lib (t_lan (e_transport e)) = Inr [SendTo request (broadcast_target ?o)]"
    by (rule discover_begins [OF assms(1) envs])
  obtain srv :: "(address, 'c) server" where srv: "echo_server server_bits prt app loopback = Inr srv"
      "\<And>bound out s. server_start lib udec from_sdp bound srv = (out, s) \<Longrightarrow>
        peer_of (uint server_bits) (broadcast_target (echo_server_options prt app loopback)) (Some ?ad) env
          (e_transport (s_endpoint s)) \<and> transport (t_lan (e_transport (s_endpoint s)))"
    using echo_server_listens [OF assms(2)] by blast
  define t where "t = e_transport (s_endpoint (snd (server_start lib udec from_sdp prt srv)))"
  have t: "peer_of (uint server_bits) (broadcast_target (echo_server_options prt app loopback)) (Some ?ad) env t"
      "transport (t_lan t)"
    using srv(2) [OF surjective_pairing] by (simp_all add: t_def)
  let ?c = "t_lan (e_transport e)" and ?h = "\<lparr>host_id = mk_p2p (uint server_bits), host_advertisement = ?ad, host_address = host\<rparr>"
  have ids: "uint client_bits \<noteq> uint server_bits" using assms(3) by (simp add: word_uint_eq_iff)
  have sides: "lan_ok ?c" "lan_ok (t_lan t)" "lan_envelope ?c = lan_envelope (t_lan t)" "has_on_host_discovered ?c"
      "local_id ?c \<noteq> local_id (t_lan t)"
    using e(2) t(1) ids by (simp_all add: peer_of_def)
  from lan_discovery [OF assms(1) sides(1-3) e(3) t(2) sides(4,5), where advertisement = ?ad and addr_a = "from"
      and addr_b = host and adv = "Some None"] obtain reply where
      reply: "fst (on_datagram lib (Some (Some ?ad)) request from (t_lan t)) = Inr [SendTo reply from]"
        "fst (on_datagram lib (Some None) reply host ?c) =
          Inr [HostDiscovered (mk_p2p (local_id (t_lan t))) (take RESPONSE_PAYLOAD_MAX ?ad) host]"
    using e(5) by auto
  have ad: "take RESPONSE_PAYLOAD_MAX ?ad = ?ad" by (simp add: advertisement_text_def RESPONSE_PAYLOAD_MAX_def lit_def)
  have answers: "fst (server_step lib udec from_sdp (snd (server_step lib udec from_sdp srv (SStart prt)))
      (SEndpoint (Drive (TDatagram request from)))) = [EWire reply from]"
    using reply(1) t(1) by (simp add: drive_def on_lan_datagram_def lan_call_def peer_of_def split_beta Let_def flip: t_def)
  let ?e1 = "snd (drive lib udec from_sdp (TDatagram reply host) e)"
  have "host_queue ?e1 = [?h]"
    using response_queued [of lib e reply host "mk_p2p (uint server_bits)" ?ad host] reply(2) e(2,4) t(1) ad
    by (cases "on_datagram lib (Some None) reply host ?c") (simp add: peer_of_def)
  with e(1,4) srv(1) answers show thesis by (rule that)
qed

text \<open>
  C20: the LAN programs find each other. Started with the same port, application id and \<open>--loopback\<close>, the
  client's only datagram goes to the server's port, and with \<open>--loopback\<close> to the very address that the
  server is bound to. The server answers it; when the answer arrives in time, \<open>discover\<close> yields exactly
  that server, with its identity and its whole advertisement, and ends; without an answer it ends with no
  host. The connection that the client then dials knows the address the answer came from.
\<close>

theorem lan_programs_meet:
  fixes udec and from_sdp :: "pystr \<Rightarrow> 'c option"
  assumes "library_ok lib" and "in_range 8 app" and "client_bits \<noteq> server_bits" and "\<And>n. clock n < deadline"
  shows "\<exists>request reply (srv :: (address, 'c) server) (e :: (address, 'c) endpoint).
    begin_lan_discover lib udec from_sdp None client_bits (transport_options prt app loopback) bound =
      Inr ([EWire request (broadcast_target (transport_options prt app loopback))], e) \<and>
    snd (broadcast_target (transport_options prt app loopback)) = snd (bind_address (echo_server_options prt app loopback)) \<and>
    (loopback \<longrightarrow> broadcast_target (transport_options prt app loopback) = bind_address (echo_server_options prt app loopback)) \<and>
    echo_server server_bits prt app loopback = Inr srv \<and>
    fst (server_step lib udec from_sdp (snd (server_step lib udec from_sdp srv (SStart prt)))
      (SEndpoint (Drive (TDatagram request from)))) = [EWire reply from] \<and>
    (case echo_client_find lib udec from_sdp client_bits prt app loopback bound deadline clock [(reply, host)] of
       Inl _ \<Rightarrow> False
     | Inr (_, found, _) \<Rightarrow>
         found = Some [\<lparr>host_id = mk_p2p (uint server_bits), host_advertisement = map of_nat advertisement_text,
           host_address = host\<rparr>] \<and>
         (case echo_client_dial lib udec from_sdp dial_bits prt app loopback bound' bits (the found) of
            Some (Inr (out, d)) \<Rightarrow> out = [] \<and> d_phase d = Dialing \<and>
              peers (t_lan (e_transport (d_endpoint d))) (uint server_bits) = Some host
          | _ \<Rightarrow> False)) \<and>
    (case echo_client_find lib udec from_sdp client_bits prt app loopback bound deadline clock [] of
       Inl _ \<Rightarrow> False | Inr (_, found, _) \<Rightarrow> found = Some [])"
proof -
  let ?o = "transport_options prt app loopback" and ?ad = "map of_nat advertisement_text :: bytes"
  let ?h = "\<lparr>host_id = mk_p2p (uint server_bits), host_advertisement = ?ad, host_address = host\<rparr>"
  obtain env where env: "new_envelope app = Inr env" using assms(2) new_envelope_ok by (auto simp: is_ok_iff)
  then have envs: "new_envelope (opt_application_id ?o) = Inr env" by (simp add: echo_targets)
  obtain request reply and srv :: "(address, 'c) server" and e :: "(address, 'c) endpoint" where
      e: "begin_lan_discover lib udec from_sdp None client_bits ?o bound = Inr ([EWire request (broadcast_target ?o)], e)"
        "host_queue e = []"
      and srv: "echo_server server_bits prt app loopback = Inr srv"
      and answers: "fst (server_step lib udec from_sdp (snd (server_step lib udec from_sdp srv (SStart prt)))
        (SEndpoint (Drive (TDatagram request from)))) = [EWire reply from]"
      and queue: "host_queue (snd (drive lib udec from_sdp (TDatagram reply host) e)) = [?h]"
    by (rule programs_exchange [OF assms(1) env assms(3)])
  note one = discover_one [OF assms(4) queue]
  have find: "case echo_client_find lib udec from_sdp client_bits prt app loopback bound deadline clock [(reply, host)] of
      Inl _ \<Rightarrow> False | Inr (_, found, _) \<Rightarrow> found = Some [?h]"
    using e(1) one by (simp add: echo_client_find_def lan_discover_def split_beta Let_def)
  have none: "case echo_client_find lib udec from_sdp client_bits prt app loopback bound deadline clock [] of
      Inl _ \<Rightarrow> False | Inr (_, found, _) \<Rightarrow> found = Some []"
    using e(1) discover_none [OF e(2)] by (simp add: echo_client_find_def lan_discover_def split_beta Let_def)
  obtain d where d: "echo_client_dial lib udec from_sdp dial_bits prt app loopback bound' bits [?h] = Some (Inr ([], d))"
      "d_phase d = Dialing" "peers (t_lan (e_transport (d_endpoint d))) (uint server_bits) = Some host"
    using dial_knows [OF envs, of lib udec from_sdp dial_bits bound' ?h bits]
    by (auto simp: echo_client_dial_def mk_p2p_def)
  have "case echo_client_find lib udec from_sdp client_bits prt app loopback bound deadline clock [(reply, host)] of
       Inl _ \<Rightarrow> False
     | Inr (_, found, _) \<Rightarrow> found = Some [?h] \<and>
         (case echo_client_dial lib udec from_sdp dial_bits prt app loopback bound' bits (the found) of
            Some (Inr (out, d)) \<Rightarrow> out = [] \<and> d_phase d = Dialing \<and>
              peers (t_lan (e_transport (d_endpoint d))) (uint server_bits) = Some host
          | _ \<Rightarrow> False)"
    using find d by (auto split: sum.splits)
  with e(1) srv answers none echo_targets(1-3) show ?thesis
    by (intro exI [of _ request] exI [of _ reply] exI [of _ srv] exI [of _ e]) simp
qed

theorem lan_programs_meet_witness:
  "\<exists>request reply (e :: (address, nat) endpoint).
    begin_lan_discover xor_lib (\<lambda>_. None) (\<lambda>_. None) None 1 (transport_options 7551 DEFAULT_APPLICATION_ID True) 9 =
      Inr ([EWire request (broadcast_target (transport_options 7551 DEFAULT_APPLICATION_ID True))], e) \<and>
    (case echo_client_find xor_lib (\<lambda>_. None) (\<lambda>_. None :: nat option) 1 7551 DEFAULT_APPLICATION_ID True 9 3 (\<lambda>_. 0)
        [(reply, (loopback_host, 7551))] of
       Inl _ \<Rightarrow> False
     | Inr (_, found, _) \<Rightarrow> map host_address (the found) = [(loopback_host, 7551)])"
proof -
  have app: "in_range 8 DEFAULT_APPLICATION_ID" by (simp add: DEFAULT_APPLICATION_ID_def in_range_def)
  have bits: "(1 :: 64 word) \<noteq> 2" by simp
  have clock: "\<And>n. (\<lambda>_. 0) (n :: nat) < (3 :: int)" by simp
  from lan_programs_meet [OF xor_lib_ok app bits clock, of "\<lambda>_. None" "\<lambda>_. None :: nat option" 7551 True 9
      "(loopback_host, 5)" "(loopback_host, 7551)" 0 9 0]
  obtain request reply and e :: "(address, nat) endpoint" where
    "begin_lan_discover xor_lib (\<lambda>_. None) (\<lambda>_. None) None 1 (transport_options 7551 DEFAULT_APPLICATION_ID True) 9 =
      Inr ([EWire request (broadcast_target (transport_options 7551 DEFAULT_APPLICATION_ID True))], e)"
    "case echo_client_find xor_lib (\<lambda>_. None) (\<lambda>_. None :: nat option) 1 7551 DEFAULT_APPLICATION_ID True 9 3 (\<lambda>_. 0)
        [(reply, (loopback_host, 7551))] of
       Inl _ \<Rightarrow> False
     | Inr (_, found, _) \<Rightarrow>
         found = Some [\<lparr>host_id = mk_p2p (uint (2 :: 64 word)), host_advertisement = map of_nat advertisement_text,
           host_address = (loopback_host, 7551)\<rparr>] \<and>
         (case echo_client_dial xor_lib (\<lambda>_. None) (\<lambda>_. None :: nat option) 0 7551 DEFAULT_APPLICATION_ID True 9 0 (the found) of
            Some (Inr (out, d)) \<Rightarrow> out = [] \<and> d_phase d = Dialing \<and>
              peers (t_lan (e_transport (d_endpoint d))) (uint (2 :: 64 word)) = Some (loopback_host, 7551)
          | _ \<Rightarrow> False)"
    by blast
  then show ?thesis
    by (intro exI [of _ request] exI [of _ reply] exI [of _ e]) (auto split: sum.splits)
qed

end
