(* ===== verification/Identities.thy ===== *)
theory Identities
  imports Api
begin

text \<open>
  Who a connection is with: the properties \<open>remote_id\<close>, \<open>local_id\<close>, \<open>connection_id\<close> and \<open>state\<close> of a
  \<open>Connection\<close>, which read its session, and what the session manager does with a session's identity.
\<close>

section \<open>The properties of a connection\<close>

definition conn_session_of :: "nat \<Rightarrow> ('a, 'c) endpoint \<Rightarrow> nat" where
  "conn_session_of k e = conn_session (conn_store e ! k)"

definition remote_id :: "nat \<Rightarrow> ('a, 'c) endpoint \<Rightarrow> network_id" where
  "remote_id k e = fst (store (t_manager (e_transport e)) ! conn_session_of k e)"

definition connection_local_id :: "('a, 'c) endpoint \<Rightarrow> network_id" where
  "connection_local_id e = t_local_id (e_transport e)"

definition connection_cid :: "nat \<Rightarrow> ('a, 'c) endpoint \<Rightarrow> int" where
  "connection_cid k e = cid (session_at (conn_session_of k e) (t_manager (e_transport e)))"

definition connection_state :: "nat \<Rightarrow> ('a, 'c) endpoint \<Rightarrow> session_state" where
  "connection_state k e = state (session_at (conn_session_of k e) (t_manager (e_transport e)))"

section \<open>What the manager remembers of a session\<close>

definition identity_at :: "nat \<Rightarrow> 'c manager \<Rightarrow> network_id \<times> int \<times> bool" where
  "identity_at i m = (fst (store m ! i), cid (session_at i m), is_dialer (session_at i m))"

text \<open>
  Every signal that was sent is one of a session, and went to the session's remote peer; every
  other notice is about a session that exists.
\<close>

definition addressed :: "'c manager \<Rightarrow> bool" where
  "addressed m \<longleftrightarrow> (\<forall>r x. SendSignal r x \<in> set (mgr_log m) \<longrightarrow>
     (\<exists>i < length (store m). fst (store m ! i) = r \<and> x \<in> set (signals (log (session_at i m)))))"

definition tells_of_sessions :: "'c manager \<Rightarrow> bool" where
  "tells_of_sessions m \<longleftrightarrow> (\<forall>n i. n \<in> set (mgr_log m) \<longrightarrow> session_of n = Some i \<longrightarrow> i < length (store m))"

definition remembers :: "'c manager \<Rightarrow> 'c manager \<Rightarrow> bool" where
  "remembers m m' \<longleftrightarrow> length (store m) \<le> length (store m') \<and>
     (\<forall>i < length (store m). identity_at i m' = identity_at i m \<and> grows (session_at i m) (session_at i m')) \<and>
     (addressed m \<longrightarrow> addressed m') \<and> (tells_of_sessions m \<longrightarrow> tells_of_sessions m')"

lemma remembers_refl [simp]: "remembers m m"
  by (simp add: remembers_def)

lemma remembers_trans: "remembers a b \<Longrightarrow> remembers b c \<Longrightarrow> remembers a c"
  unfolding remembers_def by (metis grows_trans le_trans less_le_trans)

lemma identity_updates [simp]:
  "identity_at i (m\<lparr>waiting := w\<rparr>) = identity_at i m" "identity_at i (m\<lparr>sessions := d\<rparr>) = identity_at i m"
  "identity_at i (m\<lparr>pending_candidates := p\<rparr>) = identity_at i m" "identity_at i (m\<lparr>mgr_log := l\<rparr>) = identity_at i m"
  "addressed (m\<lparr>waiting := w\<rparr>) = addressed m" "addressed (m\<lparr>sessions := d\<rparr>) = addressed m"
  "addressed (m\<lparr>pending_candidates := p\<rparr>) = addressed m"
  "tells_of_sessions (m\<lparr>waiting := w\<rparr>) = tells_of_sessions m"
  "tells_of_sessions (m\<lparr>sessions := d\<rparr>) = tells_of_sessions m"
  "tells_of_sessions (m\<lparr>pending_candidates := p\<rparr>) = tells_of_sessions m"
  by (simp_all add: identity_at_def addressed_def tells_of_sessions_def)

lemma remembers_updates [simp]:
  "remembers m (m'\<lparr>waiting := w\<rparr>) = remembers m m'" "remembers m (m'\<lparr>sessions := d\<rparr>) = remembers m m'"
  "remembers m (m'\<lparr>pending_candidates := p\<rparr>) = remembers m m'"
  "remembers (m\<lparr>waiting := w\<rparr>) m' = remembers m m'"
  "remembers (m\<lparr>pending_candidates := p\<rparr>) m' = remembers m m'"
  by (simp_all add: remembers_def)

lemma remembers_log:
  "(\<And>r x. e \<noteq> SendSignal r x) \<Longrightarrow> (\<And>i. session_of e = Some i \<Longrightarrow> i < length (store m)) \<Longrightarrow>
   remembers m (m\<lparr>mgr_log := mgr_log m @ [e]\<rparr>)"
  by (auto simp: remembers_def addressed_def tells_of_sessions_def)

text \<open>The callbacks pass a session's new signals on to its remote peer.\<close>

lemma callbacks_addressed:
  "SendSignal r x \<in> set (mgr_log (foldl (session_callback i remote conn) m es)) \<longleftrightarrow>
   SendSignal r x \<in> set (mgr_log m) \<or> r = remote \<and> x \<in> set (signals es)"
proof (induction es arbitrary: m)
  case (Cons e es)
  then show ?case by (cases e) (auto simp: Let_def)
qed simp

lemma callbacks_tell:
  "n \<in> set (mgr_log (foldl (session_callback i remote conn) m es)) \<Longrightarrow> session_of n = Some j \<Longrightarrow>
   n \<in> set (mgr_log m) \<or> j = i"
proof (induction es arbitrary: m)
  case (Cons e es)
  from Cons.IH [of "session_callback i remote conn m e"] Cons.prems show ?case
    by (cases e) (auto simp: Let_def split: if_splits)
qed simp

lemma step_session_remembers:
  assumes "i < length (store m)"
  shows "remembers m (step_session udec from_sdp i e m)"
proof -
  let ?m = "step_session udec from_sdp i e m" and ?s = "session_at i m"
  let ?t = "session_step udec from_sdp ?s e"
  note spec = step_session_spec [OF assms, where udec = udec and from_sdp = from_sdp and e = e]
  have s: "same_session ?s ?t" "grows ?s ?t" by (rule step_same, rule step_grows)
  have idents: "identity_at j ?m = identity_at j m \<and> grows (session_at j m) (session_at j ?m)"
    if "j < length (store m)" for j
    using that spec s by (cases "j = i") (simp_all add: identity_at_def same_session_def)
  have "addressed ?m" if old: "addressed m"
    unfolding addressed_def
  proof (intro allI impI)
    fix r x
    assume "SendSignal r x \<in> set (mgr_log ?m)"
    then consider "SendSignal r x \<in> set (mgr_log m)"
      | "r = fst (store m ! i)" "x \<in> set (signals (drop (length (log ?s)) (log ?t)))"
      by (auto simp: step_session_def put_session_def callbacks_addressed)
    then show "\<exists>j < length (store ?m). fst (store ?m ! j) = r \<and> x \<in> set (signals (log (session_at j ?m)))"
    proof cases
      case 1
      then obtain j where "j < length (store m)" "fst (store m ! j) = r" "x \<in> set (signals (log (session_at j m)))"
        using old by (auto simp: addressed_def)
      then show ?thesis using idents [of j] spec(2)
        by (intro exI [of _ j]) (auto simp: identity_at_def grows_def)
    next
      case 2
      obtain es where "log ?t = log ?s @ es" using s(2) by (auto simp: grows_def)
      with 2 show ?thesis using assms spec(1-3) idents [OF assms]
        by (intro exI [of _ i]) (simp add: identity_at_def)
    qed
  qed
  moreover have "tells_of_sessions ?m" if "tells_of_sessions m"
    unfolding tells_of_sessions_def
  proof (intro allI impI)
    fix n j
    assume "n \<in> set (mgr_log ?m)" "session_of n = Some j"
    from callbacks_tell [OF this(1) [unfolded step_session_def put_session_def] this(2)] that this(2) spec(2) assms
    show "j < length (store ?m)" by (auto simp: tells_of_sessions_def)
  qed
  ultimately show ?thesis using idents spec(2) by (simp add: remembers_def)
qed

lemma create_session_remembers: "remembers m (create_session conn remote dialer m)"
  by (auto simp: tells_of_sessions_def less_Suc_eq remembers_def identity_at_def session_at_def create_session_def addressed_def nth_append)

lemma flush_candidates_remembers:
  "i < length (store m) \<Longrightarrow> remembers m (flush_candidates udec from_sdp i cs m)"
proof (induction cs arbitrary: m)
  case (Cons c cs)
  let ?m = "step_session udec from_sdp i (HandleSignal c) m"
  have "remembers m ?m" "remembers ?m (flush_candidates udec from_sdp i cs ?m)"
    using Cons step_session_remembers step_session_spec(2) [of i m] by auto
  then show ?case using remembers_trans by (auto simp: Let_def)
qed simp

lemma flush_pending_remembers: "i < length (store m) \<Longrightarrow> remembers m (flush_pending udec from_sdp i m)"
  using flush_candidates_remembers [of i "m\<lparr>pending_candidates := (pending_candidates m)(cid (session_at i m) := None)\<rparr>"]
  by (simp add: flush_pending_def Let_def)

lemma close_sessions_remembers:
  "list_all (\<lambda>i. i < length (store m)) is \<Longrightarrow> remembers m (close_sessions udec from_sdp is m)"
proof (induction "is" arbitrary: m)
  case Nil
  show ?case by (auto simp: remembers_def addressed_def tells_of_sessions_def identity_at_def session_at_def)
next
  case (Cons i js)
  let ?m = "step_session udec from_sdp i (AcloseCall (Known E_NONE)) m"
  have "remembers m ?m" "remembers ?m (close_sessions udec from_sdp js ?m)"
    using Cons step_session_remembers step_session_spec(2) [of i m] by (auto simp: list_all_iff)
  then show ?case using remembers_trans by (auto simp: Let_def)
qed

lemma continue_frame_remembers:
  "frame_ok (length (store m)) f \<Longrightarrow> remembers m (continue_frame udec from_sdp m f)"
  by (cases f) (simp_all add: flush_pending_remembers flush_candidates_remembers close_sessions_remembers,
      auto intro: remembers_log)

lemma wake_remembers:
  assumes "mgr_inv m"
  shows "remembers m (wake udec from_sdp P m)"
proof -
  have run: "remembers m (foldl (continue_frame udec from_sdp) m fs)"
    if "list_all (frame_ok (length (store m))) fs" for fs and m :: "'a manager"
    using that
  proof (induction fs arbitrary: m)
    case (Cons f fs)
    let ?m = "continue_frame udec from_sdp m f"
    have one: "remembers m ?m" using Cons.prems by (simp add: continue_frame_remembers)
    then have "list_all (frame_ok (length (store ?m))) fs"
      using Cons.prems by (auto simp: remembers_def list_all_iff intro: frame_ok_mono)
    from remembers_trans [OF one Cons.IH [OF this]] show ?case by simp
  qed simp
  show ?thesis
    using run [of "m\<lparr>waiting := filter (\<lambda>f. \<not> P f) (waiting m)\<rparr>" "filter P (waiting m)"] assms
    by (auto simp: wake_def mgr_inv_def list_all_iff)
qed

lemma create_step_remembers:
  "remembers m (step_session udec from_sdp (length (store m)) ev (create_session conn remote dialer m))"
  by (rule remembers_trans [OF create_session_remembers step_session_remembers]) (simp add: create_session_def)

lemma manager_step_remembers:
  assumes "mgr_inv m"
  shows "remembers m (manager_step udec from_sdp m e)"
proof (cases e)
  case (MgrSignal sender message)
  show ?thesis
  proof (cases "\<exists>msg. parse_signaling message = Inr (Some msg)")
    case True
    then obtain msg where msg: "parse_signaling message = Inr (Some msg)" by blast
    show ?thesis
    proof (cases "map_of (sessions m) (connection_id msg)")
      case (Some i)
      then have "i < length (store m)"
        using assms by (auto simp: mgr_inv_def list_all_iff entry_ok_def dest!: map_of_SomeD)
      with Some msg MgrSignal show ?thesis by (simp add: mgr_handle_signal_def step_session_remembers)
    next
      case None
      show ?thesis
      proof (cases msg)
        case (ConnectRequest conn offer)
        let ?m = "step_session udec from_sdp (length (store m)) (HandleSignal msg) (create_session conn sender False m)"
        let ?k = "length (store m)"
        have one: "remembers m ?m" by (rule create_step_remembers)
        have "length (store ?m) = Suc ?k" using create_step_keeps(2) [OF assms] .
        then have "remembers ?m (flush_pending udec from_sdp ?k ?m)" by (simp add: flush_pending_remembers)
        with one have two: "remembers m (flush_pending udec from_sdp ?k ?m)" by (rule remembers_trans)
        from one two show ?thesis using msg None ConnectRequest MgrSignal
          by (simp add: mgr_handle_signal_def Let_def)
      qed (use msg None MgrSignal in \<open>simp_all add: mgr_handle_signal_def buffer_pending_candidate_def Let_def\<close>)
    qed
  qed (use MgrSignal in \<open>auto simp: mgr_handle_signal_def split: sum.split option.split\<close>)
next
  case (MgrConnect remote bits)
  then show ?thesis using create_step_remembers by (simp add: mgr_connect_def Let_def)
next
  case (MgrSession i ev)
  show ?thesis
  proof (cases "i < length (store m)")
    case True
    have "mgr_inv (step_session udec from_sdp i ev m)" using step_session_inv [OF assms True] .
    from remembers_trans [OF step_session_remembers [OF True] wake_remembers [OF this]]
      step_session_remembers [OF True] True MgrSession
    show ?thesis by (cases ev) (simp_all add: session_event_step_def Let_def)
  qed (use MgrSession in simp)
next
  case (MgrClosed i)
  then show ?thesis by (simp add: wake_remembers [OF assms])
next
  case MgrAclose
  have "list_all (\<lambda>i. i < length (store m)) (map snd (sessions m))"
    using assms by (auto simp: mgr_inv_def list_all_iff entry_ok_def)
  with MgrAclose show ?thesis by (simp add: mgr_aclose_def close_sessions_remembers)
qed

lemma manager_run_remembers:
  "mgr_inv m \<Longrightarrow> remembers m (foldl (manager_step udec from_sdp) m es)"
proof (induction es arbitrary: m)
  case (Cons e es)
  from remembers_trans [OF manager_step_remembers [OF Cons.prems] Cons.IH [OF manager_step_inv [OF Cons.prems]]]
  show ?case by simp
qed simp

section \<open>The transport under a connection\<close>

text \<open>A step of the transport is a run of its manager, and its notices are ones of the manager.\<close>

definition manages ::
    "(nat \<Rightarrow> nat option) \<Rightarrow> (pystr \<Rightarrow> 'c option) \<Rightarrow> ('a, 'c) transport \<Rightarrow>
     'a transport_effect list \<times> ('a, 'c) transport \<Rightarrow> bool" where
  "manages udec from_sdp t r \<longleftrightarrow> t_local_id (snd r) = t_local_id t \<and>
     (\<exists>es. t_manager (snd r) = foldl (manager_step udec from_sdp) (t_manager t) es) \<and>
     (\<forall>n. Notice n \<in> set (fst r) \<longrightarrow> n \<in> set (mgr_log (t_manager (snd r))))"

lemma lan_effects_quiet:
  "t_local_id (snd (run_out run_lan_effect t es)) = t_local_id t \<and> Notice n \<notin> set (fst (run_out run_lan_effect t es))"
proof (induction es arbitrary: t)
  case (Cons e es)
  then show ?case by (cases e) (simp_all add: split_beta Let_def)
qed simp

lemma lan_call_manages: "manages udec from_sdp t (lan_call r t)"
  using lan_effects_quiet [of "t\<lparr>t_lan := snd r\<rparr>"]
  by (auto simp: manages_def lan_call_def Let_def lan_effects_manager split: sum.split intro: exI [of _ "[]"])

lemma mgr_effect_notices:
  "t_local_id (snd (run_mgr_effect lib t e)) = t_local_id t \<and>
   (Notice n \<in> set (fst (run_mgr_effect lib t e)) \<longrightarrow> n = e)"
  using lan_effects_quiet by (cases e) (auto split: sum.split)

lemma mgr_effects_notices:
  "t_local_id (snd (run_out (run_mgr_effect lib) t es)) = t_local_id t \<and>
   (Notice n \<in> set (fst (run_out (run_mgr_effect lib) t es)) \<longrightarrow> n \<in> set es)"
proof (induction es arbitrary: t)
  case (Cons e es)
  from mgr_effect_notices [of lib t e n] Cons [of "snd (run_mgr_effect lib t e)"] show ?case
    by (auto simp: split_beta Let_def)
qed simp

lemma manager_call_manages:
  assumes "f (t_manager t) = manager_step udec from_sdp (t_manager t) e"
  shows "manages udec from_sdp t (manager_call lib f t)"
proof -
  have "\<exists>es. f (t_manager t) = foldl (manager_step udec from_sdp) (t_manager t) es"
    using assms by (intro exI [of _ "[e]"]) simp
  with mgr_effects_notices [of lib "t\<lparr>t_manager := f (t_manager t)\<rparr>"
      "drop (length (mgr_log (t_manager t))) (mgr_log (f (t_manager t)))"] show ?thesis
    by (auto simp: manages_def manager_call_keeps) (auto simp: manager_call_def Let_def dest: in_set_dropD)
qed

lemma transport_step_manages: "manages udec from_sdp t (transport_step lib udec from_sdp t ev)"
proof (cases ev)
  case TSignalTask
  show ?thesis
  proof (cases "signal_tasks t")
    case (Cons x ts)
    have "manages udec from_sdp (t\<lparr>signal_tasks := ts\<rparr>)
        (manager_call lib (mgr_handle_signal udec from_sdp (fst x) (snd x)) (t\<lparr>signal_tasks := ts\<rparr>))"
      by (rule manager_call_manages [where e = "MgrSignal (fst x) (snd x)"]) simp
    then show ?thesis using Cons TSignalTask by (auto simp: run_signal_task_def manages_def split_beta)
  qed (use TSignalTask in \<open>auto simp: run_signal_task_def manages_def intro: exI [of _ "[]"]\<close>)
next
  case TDiscover
  have "manages udec from_sdp (t\<lparr>t_discovered := []\<rparr>)
      (lan_call (broadcast_request lib (t_lan t), t_lan t) (t\<lparr>t_discovered := []\<rparr>))"
    by (rule lan_call_manages)
  then show ?thesis using TDiscover by (simp add: begin_discover_def manages_def Let_def)
next
  case (TConnect remote bits)
  then show ?thesis
    by (auto simp: transport_connect_def intro!: manager_call_manages [where e = "MgrConnect remote bits"])
next
  case (TSession i e)
  then show ?thesis by (auto intro!: manager_call_manages [where e = "MgrSession i e"])
next
  case (TSessionClosed i)
  then show ?thesis by (auto intro!: manager_call_manages [where e = "MgrClosed i"])
next
  case TAclose
  then show ?thesis by (auto intro!: manager_call_manages [where e = MgrAclose])
qed (simp_all add: lan_call_manages on_lan_datagram_def set_advertisement_def,
    auto simp: manages_def intro: exI [of _ "[]"])

text \<open>
  A connection is made by a callback of the engine, for the session that the callback is about.
\<close>

definition called_for :: "nat \<Rightarrow> int \<Rightarrow> 'a endpoint_effect list \<Rightarrow> bool" where
  "called_for i c out \<longleftrightarrow> (\<exists>n. ECallback c n \<in> set out \<and> session_of n = Some i)"

lemma called_for_simps [simp]:
  "\<not> called_for i c []" "called_for i c (os @ os') = (called_for i c os \<or> called_for i c os')"
  "called_for i c (ECallback d n # os) = (c = d \<and> session_of n = Some i \<or> called_for i c os)"
  by (auto simp: called_for_def)

definition originates :: "('a, 'c) endpoint \<Rightarrow> 'a endpoint_effect list \<times> ('a, 'c) endpoint \<Rightarrow> bool" where
  "originates e r \<longleftrightarrow> length (conn_store e) \<le> length (conn_store (snd r)) \<and>
     (\<forall>k < length (conn_store e). conn_session (conn_store (snd r) ! k) = conn_session (conn_store e ! k)) \<and>
     (\<forall>k. length (conn_store e) \<le> k \<and> k < length (conn_store (snd r)) \<longrightarrow>
       (\<exists>c. called_for (conn_session (conn_store (snd r) ! k)) c (fst r))) \<and>
     (\<forall>c k. (c, k) \<in> set (conns (snd r)) \<longrightarrow> (c, k) \<in> set (conns e) \<or>
       length (conn_store e) \<le> k \<and> k < length (conn_store (snd r)) \<and>
       called_for (conn_session (conn_store (snd r) ! k)) c (fst r))"

lemma conn_session_simps [simp]:
  "conn_session (mark_connected c) = conn_session c" "conn_session (enqueue data c) = conn_session c"
  "conn_session (snd (mark_closed err c)) = conn_session c" "conn_session (new_connection i owns) = i"
  "conn_session (snd (await_timeout c)) = conn_session c" "conn_session (snd (recv c)) = conn_session c"
  by (auto simp: mark_connected_def enqueue_def mark_closed_def finish_close_def new_connection_def
      await_timeout_def recv_def Let_def split: sum.split list.split recv_item.split)

lemma enqueue_all_session [simp]: "conn_session (foldl (\<lambda>c data. enqueue data c) c ps) = conn_session c"
  by (induction ps arbitrary: c) simp_all

lemma call_session: "connection_call f \<Longrightarrow> conn_session (snd (f c)) = conn_session c"
  by (auto simp: connection_call_def)

lemma update_sessions:
  "(\<And>c. conn_session (f c) = conn_session c) \<Longrightarrow>
   conn_session (conn_store (update_conn k f e) ! j) = conn_session (conn_store e ! j)"
  by (cases "k < length (conn_store e)"; cases "j = k") (simp_all add: update_conn_def list_update_beyond)

lemma register_originates:
  "session_of n = Some i \<Longrightarrow> originates e ([ECallback conn n], register i conn owns e)"
  by (auto simp: originates_def register_def Let_def nth_append less_Suc_eq dest: in_update)

lemma update_originates:
  "originates e (out, e') \<Longrightarrow> (\<And>c. conn_session (f c) = conn_session c) \<Longrightarrow> originates e (out, update_conn k f e')"
  by (simp add: originates_def update_sessions)

lemma originates_still [simp]: "originates e (out, e)"
  by (auto simp: originates_def)

lemma originates_fields [simp]:
  "originates e (out, e'\<lparr>incoming := ks\<rparr>) = originates e (out, e')"
  "originates e (out, e'\<lparr>pending_packets := ps\<rparr>) = originates e (out, e')"
  "originates e (out, e'\<lparr>host_queue := hs\<rparr>) = originates e (out, e')"
  "originates e (out, e'\<lparr>e_transport := t\<rparr>) = originates e (out, e')"
  "originates e (out, e'\<lparr>closing := ks\<rparr>) = originates e (out, e')"
  by (simp_all add: originates_def)

lemma originates_more: "originates e (out, e') \<Longrightarrow> set out \<subseteq> set out' \<Longrightarrow> originates e (out', e')"
  unfolding originates_def called_for_def fst_conv snd_conv by blast

lemma originates_chain:
  assumes a: "originates e (os, s1)" and b: "originates s1 (os', s2)"
  shows "originates e (os @ os', s2)"
proof -
  have len: "length (conn_store e) \<le> length (conn_store s1)" "length (conn_store s1) \<le> length (conn_store s2)"
    and same: "\<And>k. k < length (conn_store s1) \<Longrightarrow> conn_session (conn_store s2 ! k) = conn_session (conn_store s1 ! k)"
      "\<And>k. k < length (conn_store e) \<Longrightarrow> conn_session (conn_store s1 ! k) = conn_session (conn_store e ! k)"
    and new: "\<And>k. length (conn_store e) \<le> k \<Longrightarrow> k < length (conn_store s1) \<Longrightarrow>
        \<exists>c. called_for (conn_session (conn_store s1 ! k)) c os"
      "\<And>k. length (conn_store s1) \<le> k \<Longrightarrow> k < length (conn_store s2) \<Longrightarrow>
        \<exists>c. called_for (conn_session (conn_store s2 ! k)) c os'"
    and entry: "\<And>c k. (c, k) \<in> set (conns s1) \<Longrightarrow> (c, k) \<in> set (conns e) \<or> length (conn_store e) \<le> k \<and>
        k < length (conn_store s1) \<and> called_for (conn_session (conn_store s1 ! k)) c os"
      "\<And>c k. (c, k) \<in> set (conns s2) \<Longrightarrow> (c, k) \<in> set (conns s1) \<or> length (conn_store s1) \<le> k \<and>
        k < length (conn_store s2) \<and> called_for (conn_session (conn_store s2 ! k)) c os'"
    using a b by (simp_all add: originates_def)
  have "\<exists>c. called_for (conn_session (conn_store s2 ! k)) c (os @ os')"
    if "length (conn_store e) \<le> k" "k < length (conn_store s2)" for k
    using that new [of k] same(1) [of k] by (cases "k < length (conn_store s1)") auto
  moreover have "(c, k) \<in> set (conns e) \<or> length (conn_store e) \<le> k \<and> k < length (conn_store s2) \<and>
      called_for (conn_session (conn_store s2 ! k)) c (os @ os')" if "(c, k) \<in> set (conns s2)" for c k
    using entry(2) [OF that] entry(1) [of c k] same(1) [of k] len by auto
  ultimately show ?thesis unfolding originates_def fst_conv snd_conv using len same
    by (intro conjI allI impI) (simp_all del: called_for_simps)
qed

lemma notice_originates:
  assumes "session_of n = Some i"
  shows "originates e (ECallback (ids i) n # fst (endpoint_notice ids e n), snd (endpoint_notice ids e n))"
  using assms
proof (cases n)
  case (SessionOpen j)
  with assms register_originates [of n i e "ids i" False] show ?thesis
    by (auto simp: on_session_open_def Let_def intro!: update_originates split: option.split)
next
  case (SessionClose j err)
  have "originates e (out, e\<lparr>conns := AList.delete conn (conns e)\<rparr>)" for out conn
    by (auto simp: originates_def dest: in_delete)
  with SessionClose assms show ?thesis
    by (auto simp: on_session_close_def Let_def split_beta intro!: update_originates split: option.split)
next
  case (SessionPacket j data)
  with assms show ?thesis
    by (auto simp: on_packet_def Let_def intro!: update_originates split: option.split)
next
  case (ConnectReturns j)
  with assms register_originates [of n i e "ids i" True] show ?thesis by simp
qed simp_all

interpretation origins: endpoint_behaviour originates
proof
  fix e :: "('a, 'c) endpoint" and ids x
  show "originates e (run_transport_effect ids e x)"
    using notice_originates [of _ _ e ids]
    by (cases x) (auto simp: on_host_discovered_def split_beta Let_def split: option.split)
next
  fix f and e :: "('a, 'c) endpoint" and k
  assume "connection_call f"
  then show "originates e (on_connection k f e)"
    by (auto simp: on_connection_eq call_session intro!: update_originates)
next
  fix e :: "('a, 'c) endpoint" and os s1 os' s2
  assume "originates e (os, s1)" "originates s1 (os', s2)"
  then show "originates e (os @ os', s2)" by (rule originates_chain)
qed simp_all

section \<open>Connections and their sessions\<close>

text \<open>The session of a connection exists, and a connection is registered under its session's id.\<close>

definition knows :: "('a, 'c) endpoint \<Rightarrow> bool" where
  "knows e \<longleftrightarrow> transport_inv (e_transport e) \<and> addressed (t_manager (e_transport e)) \<and>
     tells_of_sessions (t_manager (e_transport e)) \<and>
     (\<forall>k < length (conn_store e). conn_session_of k e < length (store (t_manager (e_transport e)))) \<and>
     (\<forall>(c, k) \<in> set (conns e). k < length (conn_store e) \<and> connection_cid k e = c)"

definition recalls :: "('a, 'c) endpoint \<Rightarrow> ('a, 'c) endpoint \<Rightarrow> bool" where
  "recalls e e' \<longleftrightarrow> length (conn_store e) \<le> length (conn_store e') \<and>
     (\<forall>k < length (conn_store e). conn_session_of k e' = conn_session_of k e) \<and>
     remembers (t_manager (e_transport e)) (t_manager (e_transport e')) \<and>
     connection_local_id e' = connection_local_id e"

lemma recalls_refl [simp]: "recalls e e"
  by (simp add: recalls_def)

lemma recalls_trans: "recalls a b \<Longrightarrow> recalls b c \<Longrightarrow> recalls a c"
  unfolding recalls_def using remembers_trans by (metis less_le_trans le_trans)

lemma recalls_identity:
  assumes "knows e" and "recalls e e'" and "k < length (conn_store e)"
  shows "remote_id k e' = remote_id k e \<and> connection_cid k e' = connection_cid k e"
proof -
  have "conn_session_of k e < length (store (t_manager (e_transport e)))" using assms(1,3) by (simp add: knows_def)
  with assms(2,3) show ?thesis
    by (simp add: recalls_def remembers_def identity_at_def remote_id_def connection_cid_def)
qed

text \<open>What keeps an endpoint right: its engine calls about sessions that exist, under their ids.\<close>

definition attends :: "('a, 'c) endpoint \<Rightarrow> 'a endpoint_effect list \<times> ('a, 'c) endpoint \<Rightarrow> bool" where
  "attends e r \<longleftrightarrow> (knows e \<longrightarrow> recalls e (snd r) \<and> knows (snd r))"

lemma effects_transport:
  "e_transport (snd (run_out (run_transport_effect ids) e es)) = e_transport e \<and>
   (called_for i c (fst (run_out (run_transport_effect ids) e es)) \<longrightarrow>
    (\<exists>n. Notice n \<in> set es \<and> session_of n = Some i) \<and> c = ids i)"
proof (induction es arbitrary: e)
  case (Cons x es)
  have "e_transport (snd (run_transport_effect ids e x)) = e_transport e \<and>
      (called_for i c (fst (run_transport_effect ids e x)) \<longrightarrow>
       (\<exists>n. x = Notice n \<and> session_of n = Some i) \<and> c = ids i)"
  proof (cases x)
    case (Notice n)
    then show ?thesis
      by (cases n) (auto simp: on_session_open_def on_session_close_def on_packet_def register_def update_conn_def
          called_for_def Let_def split_beta split: option.splits)
  qed (simp_all add: on_host_discovered_def called_for_def)
  with Cons.IH [of "snd (run_transport_effect ids e x)"] show ?case
    by (auto simp: split_beta Let_def)
qed simp

lemma drive_attends: "attends e (drive lib udec from_sdp ev e)"
  unfolding attends_def
proof (intro impI)
  assume k: "knows e"
  let ?r = "drive lib udec from_sdp ev e" and ?s = "transport_step lib udec from_sdp (e_transport e) ev"
  let ?m = "t_manager (e_transport e)" and ?m' = "t_manager (snd ?s)"
  have run: "?r = run_out (run_transport_effect (\<lambda>i. cid (session_at i ?m'))) (e\<lparr>e_transport := snd ?s\<rparr>) (fst ?s)"
    by (simp add: drive_def split_beta Let_def)
  note effects = effects_transport [of "\<lambda>i. cid (session_at i ?m')" "e\<lparr>e_transport := snd ?s\<rparr>" "fst ?s", folded run]
  have t: "e_transport (snd ?r) = snd ?s" using effects by simp
  have m: "manages udec from_sdp (e_transport e) ?s" by (rule transport_step_manages)
  then obtain es where es: "?m' = foldl (manager_step udec from_sdp) ?m es" by (auto simp: manages_def)
  have inv: "transport_inv (snd ?s)" using k by (simp add: knows_def transport_inv_step)
  have "mgr_inv ?m" using k by (simp add: knows_def transport_inv_def)
  then have r: "remembers ?m ?m'" unfolding es by (rule manager_run_remembers)
  then have told: "addressed ?m'" "tells_of_sessions ?m'" using k by (auto simp: knows_def remembers_def)
  have calls: "i < length (store ?m') \<and> c = cid (session_at i ?m')" if "called_for i c (fst ?r)" for i c
    using effects [of i c] that m told(2) by (fastforce simp: manages_def tells_of_sessions_def)
  have o: "originates e ?r" by (rule origins.drive)
  then have rec: "recalls e (snd ?r)" using r m
    by (simp add: recalls_def originates_def t conn_session_of_def connection_local_id_def manages_def)
  have valid: "conn_session_of j (snd ?r) < length (store ?m')" if "j < length (conn_store (snd ?r))" for j
  proof (cases "j < length (conn_store e)")
    case True
    with k have "conn_session_of j e < length (store ?m)" by (simp add: knows_def)
    with True rec show ?thesis by (simp add: recalls_def remembers_def t)
  next
    case False
    with o that obtain c where "called_for (conn_session_of j (snd ?r)) c (fst ?r)"
      unfolding originates_def conn_session_of_def by (meson not_less)
    then show ?thesis using calls by blast
  qed
  have keyed: "j < length (conn_store (snd ?r)) \<and> connection_cid j (snd ?r) = c" if "(c, j) \<in> set (conns (snd ?r))" for c j
  proof (cases "(c, j) \<in> set (conns e)")
    case True
    with k have "j < length (conn_store e)" "connection_cid j e = c" by (auto simp: knows_def)
    with recalls_identity [OF k rec] rec show ?thesis by (simp add: recalls_def)
  next
    case False
    with o that have "j < length (conn_store (snd ?r))" "called_for (conn_session_of j (snd ?r)) c (fst ?r)"
      unfolding originates_def conn_session_of_def by blast+
    with calls show ?thesis by (simp add: connection_cid_def t)
  qed
  show "recalls e (snd ?r) \<and> knows (snd ?r)"
    unfolding knows_def t using rec inv told valid keyed by blast
qed

lemma update_transport [simp]: "e_transport (update_conn k f e) = e_transport e"
  by (simp add: update_conn_def)

lemma attends_fields:
  "attends e (out, e') \<Longrightarrow> attends e (out', e'\<lparr>closing := ks\<rparr>)"
  by (simp add: attends_def knows_def recalls_def conn_session_of_def connection_cid_def connection_local_id_def)

lemma attends_update:
  "(\<And>c. conn_session (f c) = conn_session c) \<Longrightarrow> attends e (out, update_conn k f e)"
  by (auto simp: attends_def knows_def recalls_def conn_session_of_def connection_cid_def connection_local_id_def
      update_sessions)

interpretation attending: behaviour attends
  by unfold_locales (auto simp: attends_def intro: recalls_trans)

lemma step_attends: "attends e (endpoint_step lib udec from_sdp e ev)"
proof -
  have same: "attends e (out, e')" if "attends e r" "e' = snd r" for out e' and r :: "'a endpoint_effect list \<times> ('a, 'b) endpoint" and e
    using that by (simp add: attends_def)
  have call: "attends e (on_connection k f e)" if "connection_call f" for k f
    using that attending.still by (auto simp: on_connection_eq call_session intro!: attends_update)
  show ?thesis
  proof (cases ev)
    case (SessionClosed i)
    let ?r = "drive lib udec from_sdp (TSessionClosed i) e"
    let ?e = "(snd ?r)\<lparr>closing := filter (\<lambda>k. k \<notin> set (close_continues i e)) (closing (snd ?r))\<rparr>"
    have first: "attends e (out, ?e)" for out
      by (rule attends_fields [of e "fst ?r"]) (simp add: drive_attends)
    then have "attends e (out, snd (drive lib udec from_sdp TAclose ?e))" for out
      using first [of out] drive_attends [of ?e lib udec from_sdp TAclose]
      by (simp add: attends_def) (blast intro: recalls_trans)
    with first SessionClosed show ?thesis by (simp add: session_closed_def Let_def split_beta)
  next
    case (SendData k data ty)
    then show ?thesis
      by (auto simp: send_call_def Let_def split_beta attending.still intro: same [OF drive_attends refl])
  next
    case (CloseConnection k err)
    then show ?thesis
      by (auto simp: close_call_def Let_def split_beta attending.still
          intro: attends_fields same [OF drive_attends refl])
  qed (simp_all add: drive_attends call connection_call_def)
qed

lemma steps_attend: "attends e (run_out (endpoint_step lib udec from_sdp) e es)"
  by (rule attending.run) (rule step_attends)

lemma reachable_knows: "endpoint_reachable lib udec from_sdp e \<Longrightarrow> knows e"
proof -
  assume "endpoint_reachable lib udec from_sdp e"
  then obtain t es where t: "fresh_transport t" "e = snd (run_out (endpoint_step lib udec from_sdp) (new_endpoint t) es)"
    by (auto simp: endpoint_reachable_def)
  from t(1) obtain a b c d where "t_manager t = new_manager a b c d"
    by (auto simp: fresh_transport_def new_transport_def rbind_eq_Inr split: if_splits)
  then have "knows (new_endpoint t)" using fresh_transport_inv [OF t(1)]
    by (simp add: knows_def new_endpoint_def addressed_def tells_of_sessions_def new_manager_def)
  with steps_attend [of "new_endpoint t"] t(2) show ?thesis by (simp add: attends_def)
qed

section \<open>Properties\<close>

text \<open>
  C15: who a connection is with never changes: whatever happens to its endpoint, its remote id, its
  local id and its connection id stay what they were, and it is registered, if at all, under
  its own connection id. What its session signals goes to that remote id: every signal that
  an endpoint has sent is one of a session whose remote is the addressee.
\<close>

theorem connection_identity:
  assumes "endpoint_reachable lib udec from_sdp e"
    and "k < length (conn_store e)"
    and "e' = snd (run_out (endpoint_step lib udec from_sdp) e es)"
    and "m = t_manager (e_transport e')"
  shows "remote_id k e' = remote_id k e \<and> connection_cid k e' = connection_cid k e \<and>
    connection_local_id e' = connection_local_id e \<and>
    (map_of (conns e') conn = Some j \<longrightarrow> connection_cid j e' = conn) \<and>
    (SendSignal r x \<in> set (mgr_log m) \<longrightarrow>
      (\<exists>i < length (store m). fst (store m ! i) = r \<and> x \<in> set (signals (log (session_at i m)))))"
proof -
  have k: "knows e" using assms(1) by (rule reachable_knows)
  then have r: "recalls e e'" and k': "knows e'" using steps_attend [of e lib udec from_sdp es] by (simp_all add: attends_def assms(3))
  have "connection_local_id e' = connection_local_id e" using r by (simp add: recalls_def)
  moreover have "connection_cid j e' = conn" if "map_of (conns e') conn = Some j"
    using map_of_SomeD [OF that] k' by (auto simp: knows_def)
  moreover have "addressed m" using k' by (simp add: assms(4) knows_def)
  ultimately show ?thesis using recalls_identity [OF k r assms(2)] by (simp add: addressed_def)
qed

theorem connection_identity_witness:
  "\<exists>e :: (nat, nat) endpoint. endpoint_reachable xor_lib (\<lambda>_. None) (\<lambda>_. None) e \<and> length (conn_store e) = 1 \<and>
     remote_id 0 (snd (run_out (endpoint_step xor_lib (\<lambda>_. None) (\<lambda>_. None)) e
       [CloseConnection 0 E_NONE, Drive TAclose])) = remote_id 0 e"
proof -
  obtain t :: "(nat, nat) transport" where "fresh_transport t" using some_transport by blast
  from dialing_endpoint [OF this, of xor_lib "\<lambda>_. None" "\<lambda>_. None" 7] obtain e :: "(nat, nat) endpoint"
    where e: "endpoint_reachable xor_lib (\<lambda>_. None) (\<lambda>_. None) e" "conn_store e = [new_connection 0 True]" by blast
  from connection_identity [OF e(1) _ refl refl, of 0 "[CloseConnection 0 E_NONE, Drive TAclose]"] e show ?thesis
    by (intro exI [of _ e]) (simp del: run_out.simps)
qed

text \<open>
  A session belongs to the peer that it was made for: \<open>connect\<close> makes a dialer for the remote
  id it was given, under the connection id it has drawn; a signal makes at most a listener, for
  its sender, under the id that the signal names; and no event of the manager changes the
  remote id, the connection id or the role of a session. Once a session is registered,
  though, what it is signalled depends on the connection id alone: the sender is not compared.
\<close>

theorem session_identity:
  assumes "m = foldl (manager_step udec from_sdp) (new_manager on_op on_cl on_pkt relay) es"
    and "i < length (store m)"
    and "parse_signaling message = Inr (Some msg)"
  shows "identity_at i (foldl (manager_step udec from_sdp) m fs) = identity_at i m \<and>
    identity_at (length (store m)) (manager_step udec from_sdp m (MgrConnect remote bits)) =
      (remote, uint bits, True) \<and>
    (length (store m) < length (store (manager_step udec from_sdp m (MgrSignal sender message))) \<longrightarrow>
      identity_at (length (store m)) (manager_step udec from_sdp m (MgrSignal sender message)) =
        (sender, connection_id msg, False)) \<and>
    (map_of (sessions m) (connection_id msg) = Some j \<longrightarrow>
      manager_step udec from_sdp m (MgrSignal sender message) = manager_step udec from_sdp m (MgrSignal other message))"
proof -
  have inv: "mgr_inv m" unfolding assms(1)
    by (rule manager_machine.inv_reachable) (auto simp: fresh_manager_def)
  have stays: "identity_at i (foldl (manager_step udec from_sdp) m fs) = identity_at i m"
    using manager_run_remembers [OF inv, of udec from_sdp fs] assms(2) by (simp add: remembers_def)
  let ?k = "length (store m)"
  have made: "identity_at ?k (step_session udec from_sdp ?k ev (create_session conn r dialer m)) = (r, conn, dialer)"
    for ev conn r dialer
    using step_session_remembers [of ?k "create_session conn r dialer m" udec from_sdp ev]
    by (simp add: remembers_def identity_at_def session_at_def create_session_def new_session_def)
  have heard: "identity_at ?k (manager_step udec from_sdp m (MgrSignal sender message)) = (sender, connection_id msg, False)"
    if new: "?k < length (store (manager_step udec from_sdp m (MgrSignal sender message)))"
  proof (cases "map_of (sessions m) (connection_id msg)")
    case (Some i)
    then have "i < ?k" using inv by (auto simp: mgr_inv_def list_all_iff entry_ok_def dest!: map_of_SomeD)
    with new Some assms(3) show ?thesis by (simp add: mgr_handle_signal_def step_session_spec(2))
  next
    case None
    show ?thesis
    proof (cases msg)
      case (ConnectRequest conn offer)
      let ?m = "step_session udec from_sdp ?k (HandleSignal msg) (create_session conn sender False m)"
      have "?k < length (store ?m)" using create_step_keeps(2) [OF inv] by simp
      then have "identity_at ?k (flush_pending udec from_sdp ?k ?m) = identity_at ?k ?m"
        using flush_pending_remembers [of ?k ?m] by (simp add: remembers_def)
      with None ConnectRequest made [of "HandleSignal msg" conn sender False] assms(3) show ?thesis
        by (simp add: mgr_handle_signal_def Let_def)
    qed (use new None assms(3) in \<open>simp_all add: mgr_handle_signal_def buffer_pending_candidate_def Let_def\<close>)
  qed
  moreover have "identity_at ?k (manager_step udec from_sdp m (MgrConnect remote bits)) = (remote, uint bits, True)"
    using made [of Start "new_connection_id bits" remote True] by (simp add: mgr_connect_def Let_def new_connection_id_def)
  moreover have "manager_step udec from_sdp m (MgrSignal sender message) = manager_step udec from_sdp m (MgrSignal other message)"
    if "map_of (sessions m) (connection_id msg) = Some j"
    using that assms(3) by (simp add: mgr_handle_signal_def)
  ultimately show ?thesis using stays by blast
qed

theorem session_identity_witness:
  "\<exists>message. parse_signaling message = Inr (Some (CandidateAdd 9 [])) \<and>
     identity_at 1 (manager_step (\<lambda>_. None) (\<lambda>_. None :: nat option)
       (foldl (manager_step (\<lambda>_. None) (\<lambda>_. None)) (new_manager True True True False) [MgrConnect unset 1])
       (MgrConnect (mk_p2p 2) 7)) = (mk_p2p 2, 7, True)"
proof -
  let ?m = "foldl (manager_step (\<lambda>_. None) (\<lambda>_. None :: nat option)) (new_manager True True True False) [MgrConnect unset 1]"
  let ?x = "serialize_signaling (CandidateAdd 9 [])"
  have x: "parse_signaling ?x = Inr (Some (CandidateAdd 9 []))" by code_simp
  have one: "length (store ?m) = 1"
    by (simp add: mgr_connect_def Let_def create_step_keeps(2) [OF new_manager_inv]) (simp add: new_manager_def)
  then have "0 < length (store ?m)" by (simp only: zero_less_one)
  from session_identity [OF refl this x, of "[]" "mk_p2p 2" 7] x one show ?thesis by auto
qed

end
