(* ===== verification/HttpPrograms.thy ===== *)
theory HttpPrograms
  imports Echo Options
begin

text \<open>
  The programs \<open>examples/http_echo_server.py\<close> and \<open>examples/http_echo_client.py\<close> from their \<open>main\<close>: what they
  start, what they print of each other's identity, and that they reach the end of the echo.
\<close>

section \<open>The server\<close>

text \<open>
  \<open>main\<close> up to \<open>async with server\<close>: what it has printed, and the server, if there is one. The key is the one
  that \<open>generate_operator_key\<close> has made; the address to listen on is aiohttp's.
\<close>

definition http_echo_server ::
    "('s, 'p) ec_lib \<Rightarrow> 's \<Rightarrow> pystr \<Rightarrow> 64 word \<Rightarrow> pystr list \<times> ('s server_options \<times> 'c http_server) checked" where
  "http_echo_server lib priv domain id_bits =
     ([lit ''operator key fingerprint: '' @ cpk_digest lib (ec_public lib priv)],
      ebind (new_signer lib priv domain [] (Some (30 * 86400))) (\<lambda>signer.
        builtin (serve_http None id_bits True (Some signer) False)))"

text \<open>The hook \<open>validate_offer\<close>: what it prints. It never refuses.\<close>

definition log_offer :: "incoming_offer \<Rightarrow> pystr" where
  "log_offer offer =
     (let client = (if offer_identity offer \<noteq> None then lit ''an identity assertion'' else lit ''no identity assertion'')
      in lit ''offer from '' @ network_id_text offer @ lit '' with '' @ client)"

section \<open>The client\<close>

definition http_echo_options :: "pystr \<Rightarrow> 'k dial_options" where
  "http_echo_options url =
     \<lparr>o_server_url = url, o_capability_check = True, o_wants_identity = True, o_signer = None\<rparr>"

definition http_echo_client ::
    "('k, 'p, 'c) platform \<Rightarrow> 64 word \<Rightarrow> 64 word \<Rightarrow> ('p, 'c) http_dial result" where
  "http_echo_client env id_bits bits = start_join env None id_bits bits False"

text \<open>The hook \<open>on_server_identity\<close>: what it prints.\<close>

definition check_identity :: "'p server_identity \<Rightarrow> pystr" where
  "check_identity identity = lit ''operator '' @ id_domain identity @ lit '' key '' @ id_key_digest identity"

section \<open>What they are configured to do\<close>

lemma key_signs:
  assumes "alg_for_key lib (ec_public lib priv) = Inr name"
  shows "new_signer lib priv domain claims lifetime =
    Inr \<lparr>signer_key = priv, signer_domain = domain, signer_claims = claims, token_lifetime = lifetime\<rparr>"
  using assms by (simp add: new_signer_def)

lemma server_starts:
  assumes "alg_for_key lib (ec_public lib priv) = Inr name"
  shows "http_echo_server lib priv domain id_bits =
    ([lit ''operator key fingerprint: '' @ cpk_digest lib (ec_public lib priv)],
     Inr (\<lparr>so_local = mk_p2p (uint id_bits), so_validates = True, so_signer = Some
       \<lparr>signer_key = priv, signer_domain = domain, signer_claims = [], token_lifetime = Some 2592000\<rparr>,
       so_relay = False\<rparr>, new_http_server))"
  by (simp add: http_echo_server_def key_signs [OF assms] serve_http_def)

lemma token_exp:
  "map_of (token_claims lib now \<lparr>signer_key = priv, signer_domain = domain, signer_claims = [],
     token_lifetime = Some t\<rparr>) (lit ''exp'') = Some (JInt (now + t))"
  by (simp add: token_claims_def update_conv')

lemma program_options [simp]:
  "o_signer (http_echo_options url) = None" "o_wants_identity (http_echo_options url)"
  "o_capability_check (http_echo_options url)"
  by (simp_all add: http_echo_options_def)

lemma server_signs:
  assumes "alg_for_key (ec_of env) (ec_public (ec_of env) priv) = Inr name" and "2 \<le> max_depth env"
    and "list_all plain_char domain" and "int_fits (t_now t)" and "int_fits (t_now t + 2592000)"
    and "now_up clk \<le> t_now t + 2592000"
    and "no_identity desc" and "insertable desc" and "is_ok (fingerprint_payload desc)"
  shows "signs env t clk (Some \<lparr>signer_key = priv, signer_domain = domain, signer_claims = [], token_lifetime = Some 2592000\<rparr>) desc"
proof -
  have "readable (max_depth env) (JDict [])" using assms(2) by (cases "max_depth env") simp_all
  then show ?thesis using assms(3-9) by (simp add: signs_def key_signs [OF assms(1)] token_exp expired_def)
qed

text \<open>The client's coroutine starts with an identity of its own.\<close>

lemma client_starts:
  obtains d :: "('p, 'c) http_dial" where "start_join env None id_bits bits False = Inr d"
    and "start_join env (Some (mk_p2p (uint id_bits))) id_bits bits False = Inr d"
    and "hd_local d = mk_p2p (uint id_bits)" and "wf_network_id (mk_p2p (uint id_bits))"
proof -
  have "0 \<le> uint id_bits" "uint id_bits \<le> U64_MAX" using uint_lt2p [of id_bits] by (simp_all add: U64_MAX_def)
  then have "wf_network_id (mk_p2p (uint id_bits))" by (simp add: wf_constructors)
  then show thesis
    by (intro that [of "\<lparr>hd_local = mk_p2p (uint id_bits),
        hd_peer = peer_step env (make_http_session bits 0 True False) OfferCall, hd_phase = Offering\<rparr>"])
      (simp_all add: start_join_def)
qed

text \<open>What the server logs of an unsigned offer.\<close>

lemma server_logs:
  assumes "so_validates host" and "no_identity body" and "wf_network_id nid"
  shows "\<exists>i. hs_offers (snd (http_step env host new_http_server (HsOffer (str_network_id nid) body bits))) = [Validating i] \<and>
    log_offer i = lit ''offer from '' @ str_network_id nid @ lit '' with no identity assertion''"
  using assms(1,2)
  by (simp add: answer_offer_def extract_identity_none parse_str_network_id [OF assms(3)] new_http_server_def Let_def
      log_offer_def) (simp add: lit_def)

text \<open>The greetings come back and both programs end.\<close>

lemma greetings_echo:
  assumes "ready [] p" and "ready [] q"
  shows "\<exists>e. (echo_step env ^^ 14) (echo_start env greetings p q) e"
    and "(echo_step env ^^ n) (echo_start env greetings p q) e \<Longrightarrow>
      n \<le> 14 \<and> ((\<nexists>e'. echo_step env e e') \<longleftrightarrow> n = 14) \<and>
      (n = 14 \<longrightarrow> ec_phase (es_client e) = Leaving EchoDone \<and> ec_printed (es_client e) = greetings \<and>
        es_handler e = Some (ClosedExn (Known E_DATA_CHANNEL_CLOSED)))"
proof -
  show "\<exists>e. (echo_step env ^^ 14) (echo_start env greetings p q) e"
    using echoing_reaches [OF echoing_start [OF assms greetings_short, of env] greetings_short, of env]
    by (simp add: greetings_def)
  show "(echo_step env ^^ n) (echo_start env greetings p q) e \<Longrightarrow>
      n \<le> 14 \<and> ((\<nexists>e'. echo_step env e e') \<longleftrightarrow> n = 14) \<and>
      (n = 14 \<longrightarrow> ec_phase (es_client e) = Leaving EchoDone \<and> ec_printed (es_client e) = greetings \<and>
        es_handler e = Some (ClosedExn (Known E_DATA_CHANNEL_CLOSED)))"
    using echo_ends [OF assms greetings_short, of n env e] by (simp add: greetings_def)
qed

section \<open>Properties\<close>

text \<open>
  C5: the HTTP programs. The server has a key of a curve that has an algorithm, as \<open>generate_operator_key\<close>
  makes it, and both get descriptions as aiortc makes them. Then the server starts; the offer that it logs is the client's, without an
  identity; the client is shown the server's domain and the same fingerprint of the key that the server has
  printed; both are connected; and from there every run of the echo ends, with all three greetings printed
  as replies, in order, the client done and the server's handler ended.
\<close>

theorem http_echo_programs:
  fixes env :: "('k, 'p, 'c) platform"
  assumes "ec_ok (ec_of env)" and "2 \<le> max_depth env" and "alg_for_key (ec_of env) (ec_public (ec_of env) priv) = Inr name"
    and "list_all plain_char domain" and "int_fits (t_now th)" and "int_fits (t_now th + 2592000)"
    and "now_up (t_clock tr) \<le> t_now th + 2592000"
    and "no_identity (own_sdp env False raw)" and "list_all plain_char (own_sdp env False raw)"
    and "no_identity (own_sdp env False raw')" and "insertable (own_sdp env False raw')"
    and "is_ok (fingerprint_payload (own_sdp env False raw'))" and "starts_with (lit ''v='') (own_sdp env False raw')"
    and "supported True get_reply"
    and "fingerprint = cpk_digest (ec_of env) (ec_public (ec_of env) priv)"
  shows "\<exists>host (d :: ('p, 'c) http_dial) offer answer s s' d' requests i sid.
    http_echo_server (ec_of env) priv domain server_bits =
      ([lit ''operator key fingerprint: '' @ fingerprint], Inr (host, new_http_server :: 'c http_server)) \<and>
    http_echo_client env client_bits bits = Inr d \<and>
    hs_offers (snd (http_step env host new_http_server (HsOffer (str_network_id (hd_local d)) offer bits'))) =
      [Validating i] \<and>
    log_offer i = lit ''offer from '' @ str_network_id (mk_p2p (uint client_bits)) @ lit '' with no identity assertion'' \<and>
    run_out (http_step env host) new_http_server (host_events host th (str_network_id (hd_local d)) offer raw' bits') = ([], s) \<and>
    hs_offers s = [Settled (Inr answer)] \<and> run_out (http_step env host) s (channel_events th) = ([0], s') \<and>
    hd_phase (snd (run_out (join_step env (http_echo_options url)) d
      [JSession tc (Resume 0 raw), JReplies tr get_reply (Reply 200 (Body (Some answer)))])) =
        Trusting (own_sdp env False raw') sid \<and>
    check_identity sid = lit ''operator '' @ domain @ lit '' key '' @ fingerprint \<and>
    run_out (join_step env (http_echo_options url)) d
      (JSession tc (Resume 0 raw) # JReplies tr get_reply (Reply 200 (Body (Some answer))) # JHook True #
       answer_events ts) = (requests, d') \<and> hd_phase d' = Joined \<and>
    (\<exists>e. (echo_step env ^^ 14) (echo_start env greetings (hd_peer d') (hs_peers s' ! 0)) e) \<and>
    (\<forall>n e. (echo_step env ^^ n) (echo_start env greetings (hd_peer d') (hs_peers s' ! 0)) e \<longrightarrow>
      n \<le> 14 \<and> ((\<nexists>e'. echo_step env e e') \<longleftrightarrow> n = 14) \<and>
      (n = 14 \<longrightarrow> ec_phase (es_client e) = Leaving EchoDone \<and> ec_printed (es_client e) = greetings \<and>
        es_handler e = Some (ClosedExn (Known E_DATA_CHANNEL_CLOSED))))"
proof -
  let ?sg = "\<lparr>signer_key = priv, signer_domain = domain, signer_claims = [], token_lifetime = Some 2592000\<rparr>"
  let ?opts = "http_echo_options url :: 'k dial_options"
  define host where "host = \<lparr>so_local = mk_p2p (uint server_bits), so_validates = True, so_signer = Some ?sg, so_relay = False\<rparr>"
  have host: "so_validates host" "so_signer host = Some ?sg" "so_relay host = False" by (simp_all add: host_def)
  obtain d :: "('p, 'c) http_dial" where d: "start_join env None client_bits bits False = Inr d"
      "start_join env (Some (mk_p2p (uint client_bits))) client_bits bits False = Inr d"
      "hd_local d = mk_p2p (uint client_bits)" "wf_network_id (mk_p2p (uint client_bits))" by (rule client_starts)
  have client: "signs env tc (t_clock tc) (o_signer ?opts) (own_sdp env False raw)" using assms(8) by (simp add: signs_def)
  have server: "signs env th (t_clock tr) (so_signer host) (own_sdp env (so_relay host) raw')"
    using server_signs [OF assms(3,2,4-7,10-12)] by (simp add: host)
  have wants: "o_wants_identity ?opts \<longrightarrow> so_signer host \<noteq> None" "supported (o_capability_check ?opts) get_reply"
    using assms(14) by (simp_all add: host)
  obtain offer answer s s' d' requests where
      run: "sign_if env tc (o_signer ?opts) (own_sdp env False raw) = Inr offer"
        "run_out (http_step env host) new_http_server (host_events host th (str_network_id (hd_local d)) offer raw' bits') = ([], s)"
        "hs_offers s = [Settled (Inr answer)]" "run_out (http_step env host) s (channel_events th) = ([0], s')"
        "ready [] (hs_peers s' ! 0)" "ready [] (hd_peer d')"
        "run_out (join_step env ?opts) d
          (JSession tc (Resume 0 raw) # JReplies tr get_reply (Reply 200 (Body (Some answer))) # hook_events ?opts @ answer_events ts) =
          (requests, d')" "hd_phase d' = Joined"
        "hd_phase (snd (run_out (join_step env ?opts) d
          [JSession tc (Resume 0 raw), JReplies tr get_reply (Reply 200 (Body (Some answer)))])) =
          Trusting (own_sdp env False raw') (identity_of env th ?sg)"
    using onboarding [where why = "[]" and ts = ts and bits' = bits' and sg = ?sg, OF assms(1,2) d(2,4) client server
        assms(9) _ wants, unfolded host(3), OF assms(13)] host(2) d(3) program_options(2) by metis
  have "offer = own_sdp env False raw" using run(1) by (simp add: sign_if_def)
  with server_logs [OF host(1) assms(8) d(4), of env bits'] d(3) obtain i where
    i: "hs_offers (snd (http_step env host new_http_server (HsOffer (str_network_id (hd_local d)) offer bits'))) = [Validating i]"
      "log_offer i = lit ''offer from '' @ str_network_id (mk_p2p (uint client_bits)) @ lit '' with no identity assertion''"
    by auto
  have start: "http_echo_server (ec_of env) priv domain server_bits =
      ([lit ''operator key fingerprint: '' @ fingerprint], Inr (host, new_http_server :: 'c http_server))"
    by (simp add: server_starts [OF assms(3)] host_def assms(15))
  have shown: "check_identity (identity_of env th ?sg) = lit ''operator '' @ domain @ lit '' key '' @ fingerprint"
    by (simp add: check_identity_def identity_of_def assms(15))
  have hook: "hook_events ?opts @ answer_events ts = JHook True # answer_events ts" by (simp add: hook_events_def)
  note joined = run(7) [unfolded hook] and dials = d(1) [folded http_echo_client_def]
  show ?thesis
    by (rule exI [of _ host], rule exI [of _ d], rule exI [of _ offer], rule exI [of _ answer], rule exI [of _ s],
        rule exI [of _ s'], rule exI [of _ d'], rule exI [of _ requests], rule exI [of _ i],
        rule exI [of _ "identity_of env th ?sg"])
      (use start dials i run(2-4,8,9) shown joined greetings_echo [OF run(6,5)] in blast)
qed

theorem http_echo_programs_witness:
  "\<exists>(s' :: nat http_server) (d' :: (byte, nat) http_dial) sid e.
     check_identity (sid :: byte server_identity) = lit ''operator d key '' @ cpk_digest example_ec 7 \<and> hd_phase d' = Joined \<and>
     (echo_step example_platform ^^ 14) (echo_start example_platform greetings (hd_peer d') (hs_peers s' ! 0)) e \<and>
     ec_printed (es_client e) = greetings"
proof -
  have fits: "int_fits 0" "int_fits 2592000" by (simp_all add: int_fits_def dec_of_nat.simps int_max_str_digits_def)
  have empty: "own_sdp example_platform False [] = []"
    by (simp add: own_sdp_def set_max_message_size_def) (simp add: size_attr_def lit_def contains_def)
  have plain: "no_identity (own_sdp example_platform False [])" "list_all plain_char (own_sdp example_platform False [])"
    by (simp_all add: empty no_identity_def)
  have alg: "alg_for_key (ec_of example_platform) (ec_public (ec_of example_platform) 7) = Inr (lit ''ES256'')"
    by (simp add: example_platform_def example_ec_def alg_for_key_def algorithms_def)
  have turn: "int_fits (t_now example_turn)" "int_fits (t_now example_turn + 2592000)"
      "now_up (t_clock example_turn) \<le> t_now example_turn + 2592000"
    using fits by (simp_all add: example_turn_def)
  have domain: "list_all plain_char (lit ''d'')" by (simp add: lit_def plain_char_def surrogate_def)
  have ok: "supported True (Reply 200 (Body (Some [])))" by (simp add: supported_def ok_status_def)
  have answer: "no_identity (own_sdp example_platform False example_answer)"
      "insertable (own_sdp example_platform False example_answer)"
      "is_ok (fingerprint_payload (own_sdp example_platform False example_answer))"
      "starts_with (lit ''v='') (own_sdp example_platform False example_answer)"
    unfolding example_answer_facts(1) by (rule example_answer_facts)+
  have config: "ec_ok (ec_of example_platform)" "2 \<le> max_depth example_platform" by (rule example_config)+
  note http_echo_programs [where tc = example_turn and ts = example_turn and url = "lit ''u''" and bits' = 0 and
      server_bits = 0 and client_bits = 1 and bits = 7 and 'c = nat,
      OF config alg domain turn plain answer ok refl]
  then show ?thesis
  proof (elim exE conjE, goal_cases)
    case (1 host d offer answer s s' d' requests i sid e)
    then have "ec_printed (es_client e) = greetings" by blast
    moreover have "check_identity sid = lit ''operator d key '' @ cpk_digest example_ec 7"
      using 1(9) by (simp add: example_platform_def example_ec_def lit_def)
    ultimately show ?case using 1(11,13) by blast
  qed
qed

end
