(* ===== verification/Spec2Isabelle.thy ===== *)
theory Spec2Isabelle
  imports SessionManager Lan Exceptions StunIntegrity Api HttpFlow Echo Options Identities HttpPrograms
begin

text \<open>
  A model of \<open>nethernet\<close>, the Python implementation of the NetherNet transport (peer-to-peer
  WebRTC connections with LAN discovery or HTTP signaling), under \<open>src/src/nethernet/\<close>.

  \<^bold>\<open>The program.\<close> A peer has a \<open>NetworkID\<close>. \<open>LanTransport\<close> (\<open>discovery/lan.py\<close>) finds hosts by
  broadcast and carries signaling strings in packets (\<open>discovery/packets.py\<close>) that
  \<open>discovery/crypto.py\<close> seals. \<open>SessionManager\<close> parses the strings (\<open>signaling/messages.py\<close>) and
  hands them to a \<open>Session\<close> per connection (\<open>session.py\<close>), the state machine of one negotiation. A session
  drives a \<open>PeerConnection\<close> (\<open>transport/peer_connection.py\<close>), which wraps aiortc: SDP and
  candidates in one direction, two data channels in the other, with packets cut into
  fragments and put together by \<open>PacketQueue\<close> (\<open>transport/framing.py\<close>). \<open>Transport\<close>
  (\<open>transport_api.py\<close>) joins the LAN and the manager; \<open>api.py\<close> puts the awaitable interface on top:
  \<open>_Endpoint\<close> routes a transport's callbacks to \<open>Connection\<close>s, \<open>connect\<close>, \<open>serve\<close> and \<open>discover\<close> own an
  endpoint. Over HTTP there is no LAN: \<open>connect_http\<close> posts the whole offer to a host and gets the
  whole answer (\<open>signaling/http.py\<close>), \<open>HttpServer\<close> answers, and both may sign their descriptions
  with the \<open>a=identity\<close> assertions of \<open>identity.py\<close>.

  \<^bold>\<open>The theories.\<close>
  \<^item> \<open>Prelude\<close>: bytes, exceptions as \<open>Inl\<close>, slices, little-endian fields, and the interfaces:
    \<open>codec\<close> and \<open>strict_codec\<close> (an encoder and its decoder), \<open>fifo\<close> (a receive queue), \<open>behaviour\<close>
    (a relation between a state and the outcome of steps that composes over runs),
    \<open>state_machine\<close> and \<open>absorbing_machine\<close> (an event-driven component).
  \<^item> \<open>PyText\<close>: Python texts as lists of code points, and \<open>int(text, base)\<close> with its limit of
    4300 digits. \<open>Utf8\<close>: \<open>str.encode\<close> and \<open>bytes.decode\<close>. \<open>Sha256\<close>: \<open>hashlib.sha256\<close> and \<open>hmac\<close>.
    \<open>Base64\<close>: the functions of the module \<open>base64\<close> that the code calls. \<open>Json\<close>: \<open>json.dumps\<close> and
    \<open>json.loads\<close> of texts and of bytes, with the encodings that it detects. All executable.
  \<^item> \<open>Errors\<close> (\<open>errors.py\<close>), \<open>NetworkId\<close> (\<open>network_id.py\<close>), \<open>Messages\<close>
    (\<open>signaling/messages.py\<close>), \<open>Packets\<close>, \<open>Crypto\<close>, \<open>Lan\<close> (\<open>discovery/\<close>), \<open>Framing\<close>
    (\<open>transport/framing.py\<close>), \<open>Sdp\<close> and \<open>PeerConnection\<close> (the functions and the class of
    \<open>transport/peer_connection.py\<close>), \<open>Session\<close> (\<open>session.py\<close>): the types of the code as records and
    datatypes with the code's field names, one definition per function or method, then the
    lemmas, the interpretations of the interfaces, and the properties, numbered \<open>C\<close>.
  \<^item> \<open>Negotiation\<close>: two sessions that exchange their signals. \<open>SessionManager\<close>
    (\<open>session_manager.py\<close>): the session objects of a peer, the dictionary of connection ids, the
    buffered candidates and the manager's own coroutines. \<open>Exceptions\<close> (the exception classes of
    \<open>errors.py\<close>), \<open>StunIntegrity\<close> (\<open>transport/stun_integrity.py\<close>, the patch of aioice).
  \<^item> \<open>Transport\<close> (\<open>transport_api.py\<close>). Of \<open>api.py\<close>: \<open>Connection\<close> (the class), \<open>Endpoint\<close>
    (\<open>_Endpoint\<close>, with every connection in \<open>conn_store\<close> and the locale \<open>endpoint_behaviour\<close> of what its
    steps keep), \<open>Api\<close> (\<open>connect\<close>, \<open>discover\<close>, \<open>Server\<close>).
  \<^item> \<open>Assertion\<close> (the text side of \<open>identity.py\<close>: fingerprints, envelope, attribute) and \<open>Identity\<close>
    (signatures, tokens, \<open>IdentitySigner\<close>, \<open>verify_server_identity\<close>). \<open>Http\<close> (\<open>signaling/http.py\<close>).
    Of \<open>api.py\<close> again: \<open>HttpPeer\<close> (\<open>_make_http_session\<close>), \<open>HttpDial\<close> (\<open>connect_http\<close>), \<open>HttpServe\<close>
    (\<open>HttpServer\<close>). \<open>HttpFlow\<close>: a client and a host that meet. This theory: the properties that need
    several components of the LAN side.
  \<^item> \<open>Identities\<close>: the properties \<open>remote_id\<close>, \<open>local_id\<close>, \<open>connection_id\<close> and \<open>state\<close> of a \<open>Connection\<close>, and
    that no event changes whom a session or a connection is with. \<open>Options\<close>: \<open>constants.py\<close>, the keyword
    arguments of the LAN entry points with their defaults, \<open>discover\<close> as a whole, and what the programs
    \<open>echo_server.py\<close>, \<open>echo_client.py\<close> and \<open>discover_hosts.py\<close> of \<open>src/examples/\<close> make of them. \<open>Echo\<close>: the handler and the client's loop
    of \<open>http_echo_server.py\<close> and \<open>http_echo_client.py\<close>, run against each other with fragments in flight
    (\<open>echo_step\<close>); the LAN programs have the same handler and loop. \<open>HttpPrograms\<close>: the two HTTP programs
    from their \<open>main\<close> to the end of the echo.

  \<^bold>\<open>State and effects.\<close> Objects are records, methods return the changed record; what a method
  does to its surroundings (callbacks, sockets, aiortc, HTTP requests) is the list of its effects, in order.
  A coroutine is cut at its awaits: a suspended one is a frame in the session's \<open>tasks\<close>, or the phase of
  a \<open>dial\<close>, an \<open>http_dial\<close> or an offer of an \<open>http_server\<close>; \<open>session_step\<close> resumes any frame at any time,
  or ends it with a raise. A run is a list of
  events, so a statement about all runs is one about all interleavings of coroutines, callbacks,
  timers and calls of the owner. A list position that Python would iterate live
  (\<open>_flush_remote_candidates\<close>) is an index in the frame.

  \<^bold>\<open>Parameters.\<close> AES-256-ECB and PKCS7 of \<open>cryptography\<close> are the record \<open>crypto_lib\<close>, with their
  documented laws in \<open>library_ok\<close>; its ECDSA and the DER form of keys are \<open>ec_lib\<close>, with the laws of
  \<open>ec_ok\<close>; the nonce of a signature is an argument of signing. aiortc's \<open>candidate_from_sdp\<close> is \<open>from_sdp\<close>,
  with \<open>None\<close> for a raise; aioice's STUN parser is \<open>stun_lib\<close>; the
  decimal digits and the digits of the Unicode database are \<open>udec\<close> and \<open>udigit\<close>; \<open>repr\<close> of a parsed
  JSON value and the recursion limit that \<open>json.loads\<close> meets are \<open>repr\<close> and \<open>depth\<close>. \<open>platform\<close> is the
  record of these for the HTTP side. Clocks, random bits, the replies of aiohttp and the text of a local
  description come with the events, so they are arbitrary.

  \<^bold>\<open>What the lemmas show.\<close> Round trips of every format, with the exact conditions under which a
  parser raises; the bounds of packets and fragments; reliable delivery of packets from one
  connection's \<open>send\<close> to the other's callback; the sound use of timers and the exact
  conditions under which a session opens, closes and reopens; what a session may send;
  negotiation between two sessions; the registry of sessions and what a signal can touch;
  discovery and signaling over LAN with any bytes arriving; what \<open>recv\<close>, \<open>connect\<close>, \<open>async for\<close>, \<open>discover\<close>
  and a server's handler get in every run of an endpoint; what a signed description proves to whoever
  verifies it, and that what a party signs is verified; that \<open>connect_http\<close> hands aiortc only what was
  verified, leaves nothing open when it raises, and connects to a host; the registry and the handlers of
  an HTTP host; that the example programs find each other on a LAN, and that an echo client gets back
  every line in every interleaving, and both programs end. Where the code does something else than it means to, a property shows that, too.

  \<^bold>\<open>Bounds.\<close> There is fuel in two places. \<open>drain\<close>, the loop of \<open>_deliver\<close>, gets one
  round more than the queue holds; \<open>rx.drain_all\<close> shows that this is enough. \<open>scan\<close>, the JSON scanner,
  gets twice the length of the text and one; \<open>scan_fuel\<close> and \<open>loads_decides\<close> show that it never runs out.
  Loops that may not end are \<open>partial_function\<close>s: \<open>async_for\<close> and \<open>discover_loop\<close>, with the exact
  conditions under which they return.

  \<^bold>\<open>Not modelled.\<close> The network below the datagrams and the requests: aiortc, aioice, asyncio's sockets and
  aiohttp (routing, content types, limits and the decoding of a request's body) are third-party code; so is what
  happens where it is not installed (\<open>_require_aiohttp\<close>). The re-exports of the packages,
  \<open>generate_operator_key\<close> (a call of the library) and the texts of the messages of \<open>InvalidIdentity\<close>. Of
  the programs under \<open>src/examples\<close>: their command lines, the lines that they print about the
  connection itself, and \<open>spike_aiortc.py\<close>, which probes aiortc and uses nothing of the package. The injected
  callbacks are taken to return without
  calling back into the object; what the owner does in one is a later event.
\<close>

section \<open>Negotiation between two sessions\<close>



section \<open>Signaling over LAN\<close>

text \<open>
  C19: what a session sends, in any interleaving, crosses the LAN: if it fits a Message
  packet, the other endpoint hands the same string to its owner, and that parses to a
  message of the session's connection.
\<close>

theorem lan_carries_sessions:
  assumes "library_ok lib" and "lan_ok a" and "lan_ok b" and "lan_envelope a = lan_envelope b"
    and "transport a" and "has_on_signal b" and "local_id a \<noteq> local_id b" and "local_id a \<noteq> 0"
    and "u64 conn" and "list_all normal_event es"
    and "x \<in> set (signals (log (session_run udec from_sdp (new_session conn dialer on_op on_cl on_pkt relay) es)))"
    and "utf8_encode x = Inr data" and "length data \<le> MESSAGE_PAYLOAD_MAX"
  shows "\<exists>e to m. send_signal lib (mk_p2p (local_id b)) x a = Inr [SendTo e to] \<and>
    fst (on_datagram lib adv e addr b) = Inr [LanSignal (mk_p2p (local_id a)) x] \<and>
    parse_signaling x = Inr (Some m) \<and> connection_id m = conn \<and> sound_message m"
proof -
  have "own_signal conn x"
    using run_signals_own [of es "new_session conn dialer on_op on_cl on_pkt relay" udec from_sdp] assms(10,11)
    by (simp add: new_session_def list_all_iff)
  then obtain m where m: "parse_signaling x = Inr (Some m)" "connection_id m = conn" "sound_message m"
    using own_signal_parses [of conn x] assms(9) by (auto simp: u64_def)
  then have "x \<noteq> []" by (auto simp: parse_signaling_def tokenize_def)
  moreover have decoded: "utf8_decode data = Some x" using assms(12) by (rule utf8_decode_encode)
  ultimately have "data \<noteq> []" by (auto simp: utf8_decode_def)
  moreover have "take MESSAGE_PAYLOAD_MAX data = data" using assms(13) by simp
  ultimately obtain e to where "send_signal lib (mk_p2p (local_id b)) x a = Inr [SendTo e to] \<and>
      on_datagram lib adv e addr b = (Inr [LanSignal (mk_p2p (local_id a)) x], b\<lparr>peers := (peers b)(local_id a \<mapsto> addr)\<rparr>)"
    using signal_arrives [OF assms(1-8,12), of adv addr] decoded by auto
  with m show ?thesis by (intro exI [of _ e] exI [of _ to] exI [of _ m]) simp
qed

theorem lan_carries_sessions_witness:
  "\<exists>e to m. send_signal xor_lib (mk_p2p (local_id (example_lan 2)))
      (serialize_signaling (ConnectError 7 (Known E_NONE))) (example_lan 1) = Inr [SendTo e to] \<and>
    fst (on_datagram xor_lib None e 5 (example_lan 2)) =
      Inr [LanSignal (mk_p2p (local_id (example_lan 1))) (serialize_signaling (ConnectError 7 (Known E_NONE)))] \<and>
    parse_signaling (serialize_signaling (ConnectError 7 (Known E_NONE))) = Inr (Some m) \<and>
    connection_id m = 7 \<and> sound_message m"
proof (rule lan_carries_sessions [where es = "[CloseCall (Known E_NONE) True]" and udec = "\<lambda>_. None"
      and from_sdp = "\<lambda>_. None :: nat option" and dialer = True and on_op = True and on_cl = True
      and on_pkt = True and relay = False])
  let ?x = "serialize_signaling (ConnectError 7 (Known E_NONE))"
  have x: "?x = map (\<lambda>c. of_char c) ''CONNECTERROR 7 0''" by code_simp
  show "utf8_encode ?x = Inr (map of_nat ?x)" unfolding x by (intro utf8_encode_ascii) code_simp
  show "length (map of_nat ?x :: bytes) \<le> MESSAGE_PAYLOAD_MAX" unfolding x by (simp add: MESSAGE_PAYLOAD_MAX_def)
qed (simp_all add: example_lan_simps u64_def U64_MAX_def normal_event_def new_session_def close_notices)

end
